(* ===== verification/Prelude.thy ===== *)
theory Prelude
  imports Main "HOL-Library.Sublist"
begin

text \<open>
  What every component of the development shares: the names of the fact collections the
  component proofs use, the type of fallible results, and generic lemmas on lists that are
  not about any one component.

  A Go function with an \<open>error\<close> result is modelled by the sum type \<open>'a result\<close>:
  \<open>Inl e\<close> is the error (its text), \<open>Inr v\<close> the value. A Go \<open>string\<close> or
  \<open>[]byte\<close> is Isabelle's \<open>string\<close>, a list of 8-bit characters: both are byte
  sequences.
\<close>

named_theorems go_str \<open>equations of the Go string operations\<close>
named_theorems frame \<open>parts of a state that an operation leaves alone\<close>
named_theorems wire \<open>framing and wire-format equations\<close>

type_synonym 'a result = "string + 'a"

abbreviation NL :: char where "NL \<equiv> CHR 0x0A"
abbreviation CR :: char where "CR \<equiv> CHR 0x0D"
abbreviation DQ :: char where "DQ \<equiv> CHR 0x22"

section \<open>Results\<close>

definition is_ok :: "'a result \<Rightarrow> bool" where
  "is_ok r = (case r of Inl _ \<Rightarrow> False | Inr _ \<Rightarrow> True)"

lemma is_ok_simps [simp]: "is_ok (Inr v)" "\<not> is_ok (Inl e)"
  by (simp_all add: is_ok_def)

lemma is_okE: "is_ok r \<Longrightarrow> (\<And>v. r = Inr v \<Longrightarrow> P) \<Longrightarrow> P"
  by (cases r) (auto simp: is_ok_def)

section \<open>Lists\<close>

lemma prefix_takeI: "prefix p s \<Longrightarrow> take (length p) s = p"
  by (auto simp: prefix_def)

lemma prefix_drop_eq: "prefix p s \<Longrightarrow> p @ drop (length p) s = s"
  by (auto simp: prefix_def)

lemma map_idem_on: "(\<And>x. x \<in> set xs \<Longrightarrow> f x = x) \<Longrightarrow> map f xs = xs"
  by (induction xs) auto

lemma concat_map_filter:
  "concat (map f (filter P xs)) = concat (map (\<lambda>x. if P x then f x else []) xs)"
  by (induction xs) auto

lemma find_SomeD: "find P xs = Some x \<Longrightarrow> x \<in> set xs \<and> P x"
  by (auto simp: find_Some_iff)

lemma foldl_snoc_map: "foldl (\<lambda>acc x. acc @ f x) a xs = a @ concat (map f xs)"
  by (induction xs arbitrary: a) auto

lemma list_all2_prefix_refl: "list_all2 prefix xs xs"
  by (simp add: list.rel_refl)

lemma list_all2_prefix_trans:
  "list_all2 prefix xs ys \<Longrightarrow> list_all2 prefix ys zs \<Longrightarrow> list_all2 prefix xs zs"
  by (rule list_all2_trans[where ?P1.0 = prefix and ?P2.0 = prefix])
    (auto intro: prefix_order.trans)

end
