(* ===== verification/GoStrings.thy ===== *)
theory GoStrings
  imports Prelude
begin

text \<open>
  The operations of Go's \<open>strings\<close> and \<open>strconv\<close> packages that the program calls,
  on byte sequences. Where Go looks at Unicode code points (\<open>TrimSpace\<close>, \<open>Fields\<close>)
  the white-space code points are given by their UTF-8 encodings: none of their first bytes
  can occur inside the encoding of another code point, so looking for an encoding at every
  byte position is the same as decoding code point by code point.
\<close>

section \<open>Prefixes, suffixes and searching\<close>

definition trim_prefix :: "string \<Rightarrow> string \<Rightarrow> string" where
  "trim_prefix s p = (if prefix p s then drop (length p) s else s)"

definition trim_suffix :: "string \<Rightarrow> string \<Rightarrow> string" where
  "trim_suffix s p = (if suffix p s then take (length s - length p) s else s)"

text \<open>\<open>strings.Index\<close>: the position of the first occurrence, \<open>None\<close> for -1.\<close>

fun index_of :: "string \<Rightarrow> string \<Rightarrow> nat option" where
  "index_of [] sub = (if sub = [] then Some 0 else None)"
| "index_of (c # cs) sub =
     (if prefix sub (c # cs) then Some 0 else map_option Suc (index_of cs sub))"

definition contains :: "string \<Rightarrow> string \<Rightarrow> bool" where
  "contains s sub = (index_of s sub \<noteq> None)"

section \<open>Splitting, joining, replacing\<close>

text \<open>\<open>strings.Split\<close> with a one-byte separator, the only kind the program uses.\<close>

fun split_on :: "char \<Rightarrow> string \<Rightarrow> string list" where
  "split_on sep [] = [[]]"
| "split_on sep (c # cs) =
     (if c = sep then [] # split_on sep cs
      else (case split_on sep cs of [] \<Rightarrow> [[c]] | w # ws \<Rightarrow> (c # w) # ws))"

fun join :: "string \<Rightarrow> string list \<Rightarrow> string" where
  "join sep [] = []"
| "join sep [w] = w"
| "join sep (w # v # ws) = w @ sep @ join sep (v # ws)"

text \<open>
  \<open>strings.ReplaceAll\<close> for a non-empty \<open>old\<close> (every call has one): occurrences are
  found from the left and do not overlap.
\<close>

function replace_all :: "string \<Rightarrow> string \<Rightarrow> string \<Rightarrow> string" where
  "replace_all s old new =
     (case s of [] \<Rightarrow> []
      | c # cs \<Rightarrow>
          if old \<noteq> [] \<and> prefix old s then new @ replace_all (drop (length old) s) old new
          else c # replace_all cs old new)"
  by pat_completeness auto
termination
  by (relation "measure (\<lambda>(s, old, new). length s)") auto

declare replace_all.simps [simp del]

section \<open>White space\<close>

text \<open>
  The UTF-8 encodings of the code points \<open>unicode.IsSpace\<close> accepts: the six ASCII ones,
  U+0085, U+00A0, U+1680, U+2000 to U+200A, U+2028, U+2029, U+202F, U+205F and U+3000.
\<close>

definition space_runes :: "string list" where
  "space_runes =
     [[CHR 0x20], [CHR 0x0A], [CHR 0x09], [CHR 0x0D], [CHR 0x0B], [CHR 0x0C],
      [CHR 0xC2, CHR 0x85], [CHR 0xC2, CHR 0xA0],
      [CHR 0xE1, CHR 0x9A, CHR 0x80],
      [CHR 0xE2, CHR 0x80, CHR 0x80], [CHR 0xE2, CHR 0x80, CHR 0x81],
      [CHR 0xE2, CHR 0x80, CHR 0x82], [CHR 0xE2, CHR 0x80, CHR 0x83],
      [CHR 0xE2, CHR 0x80, CHR 0x84], [CHR 0xE2, CHR 0x80, CHR 0x85],
      [CHR 0xE2, CHR 0x80, CHR 0x86], [CHR 0xE2, CHR 0x80, CHR 0x87],
      [CHR 0xE2, CHR 0x80, CHR 0x88], [CHR 0xE2, CHR 0x80, CHR 0x89],
      [CHR 0xE2, CHR 0x80, CHR 0x8A], [CHR 0xE2, CHR 0x80, CHR 0xA8],
      [CHR 0xE2, CHR 0x80, CHR 0xA9], [CHR 0xE2, CHR 0x80, CHR 0xAF],
      [CHR 0xE2, CHR 0x81, CHR 0x9F], [CHR 0xE3, CHR 0x80, CHR 0x80]]"

text \<open>The length of the rune of \<open>rs\<close> that \<open>s\<close> starts with, 0 if there is none.\<close>

definition lead_rune :: "string list \<Rightarrow> string \<Rightarrow> nat" where
  "lead_rune rs s = (case find (\<lambda>r. prefix r s) rs of None \<Rightarrow> 0 | Some r \<Rightarrow> length r)"

lemma lead_rune_le: "lead_rune rs s \<le> length s"
  by (auto simp: lead_rune_def prefix_length_le dest!: find_SomeD split: option.splits)

function trim_lead :: "string list \<Rightarrow> string \<Rightarrow> string" where
  "trim_lead rs s =
     (if lead_rune rs s = 0 then s else trim_lead rs (drop (lead_rune rs s) s))"
  by pat_completeness auto
termination
proof (relation "measure (\<lambda>(rs, s). length s)")
  fix rs s
  assume "lead_rune rs s \<noteq> 0"
  with lead_rune_le[of rs s] show "((rs, drop (lead_rune rs s) s), rs, s) \<in> measure (\<lambda>(rs, s). length s)"
    by auto
qed auto

declare trim_lead.simps [simp del]

definition trim_space :: "string \<Rightarrow> string" where
  "trim_space s = rev (trim_lead (map rev space_runes) (rev (trim_lead space_runes s)))"

text \<open>
  \<open>strings.Fields\<close>: skip white space, take bytes up to the next white space, repeat.
\<close>

fun span_word :: "string \<Rightarrow> string \<times> string" where
  "span_word [] = ([], [])"
| "span_word (c # cs) =
     (if lead_rune space_runes (c # cs) \<noteq> 0 then ([], c # cs)
      else (let (w, rest) = span_word cs in (c # w, rest)))"

lemma span_word_append: "fst (span_word s) @ snd (span_word s) = s"
  by (induction s) (auto simp: split_beta Let_def)

lemma trim_lead_length: "length (trim_lead rs s) \<le> length s"
proof (induction rs s rule: trim_lead.induct)
  case (1 rs s)
  then show ?case
    by (subst trim_lead.simps) (auto intro: order_trans)
qed

lemma lead_rune_trim_lead [simp]: "lead_rune rs (trim_lead rs s) = 0"
proof (induction rs s rule: trim_lead.induct)
  case (1 rs s)
  then show ?case by (cases "lead_rune rs s = 0") (simp_all add: trim_lead.simps[of rs s])
qed

lemma trim_lead_id: "lead_rune rs s = 0 \<Longrightarrow> trim_lead rs s = s"
  by (simp add: trim_lead.simps[of rs s])

lemma span_word_shorter:
  "lead_rune space_runes s = 0 \<Longrightarrow> s \<noteq> [] \<Longrightarrow> length (snd (span_word s)) < length s"
  using span_word_append[of "tl s"]
  by (cases s) (auto simp: split_beta Let_def dest: arg_cong[where f = length])

function go_fields :: "string \<Rightarrow> string list" where
  "go_fields s =
     (let s' = trim_lead space_runes s
      in if s' = [] then [] else fst (span_word s') # go_fields (snd (span_word s')))"
  by pat_completeness auto
termination
proof (relation "measure length")
  fix s s' :: string
  assume s': "s' = trim_lead space_runes s" and ne: "s' \<noteq> []"
  have "length (snd (span_word s')) < length s'"
    using ne by (intro span_word_shorter) (simp_all add: s')
  also have "\<dots> \<le> length s" by (simp add: s' trim_lead_length)
  finally show "(snd (span_word s'), s) \<in> measure length" by simp
qed auto

declare go_fields.simps [simp del]

section \<open>Numbers\<close>

definition digit_char :: "nat \<Rightarrow> char" where
  "digit_char d = char_of (48 + d)"

text \<open>\<open>%d\<close> of a non-negative number, and of any \<open>int\<close>.\<close>

fun dec :: "nat \<Rightarrow> string" where
  "dec n = (if n < 10 then [digit_char n] else dec (n div 10) @ [digit_char (n mod 10)])"

declare dec.simps [simp del]

definition dec_int :: "int \<Rightarrow> string" where
  "dec_int i = (if i < 0 then CHR ''-'' # dec (nat (- i)) else dec (nat i))"

definition digit_val :: "char \<Rightarrow> nat option" where
  "digit_val c = (if 48 \<le> (of_char c :: nat) \<and> (of_char c :: nat) \<le> 57
     then Some (of_char c - 48) else None)"

fun digits_val :: "nat \<Rightarrow> string \<Rightarrow> nat option" where
  "digits_val acc [] = Some acc"
| "digits_val acc (c # cs) =
     (case digit_val c of None \<Rightarrow> None | Some d \<Rightarrow> digits_val (10 * acc + d) cs)"

text \<open>
  \<open>strconv.Atoi\<close> on a 64-bit platform: an optional sign, at least one decimal digit and
  nothing else; \<open>None\<close> is its error (syntax or range).
\<close>

definition int64_range :: "int \<Rightarrow> bool" where
  "int64_range i \<longleftrightarrow> - (2 ^ 63) \<le> i \<and> i < 2 ^ 63"

definition atoi :: "string \<Rightarrow> int option" where
  "atoi s =
     (let (neg, ds) = (case s of c # cs \<Rightarrow>
            if c = CHR ''-'' then (True, cs) else if c = CHR ''+'' then (False, cs) else (False, s)
          | [] \<Rightarrow> (False, []))
      in if ds = [] then None
         else case digits_val 0 ds of
             None \<Rightarrow> None
           | Some n \<Rightarrow> (let i = (if neg then - int n else int n)
                       in if int64_range i then Some i else None))"

section \<open>Searching\<close>

lemma index_of_Some:
  "index_of s sub = Some i \<Longrightarrow>
     i + length sub \<le> length s \<and> take (length sub) (drop i s) = sub"
proof (induction s sub arbitrary: i rule: index_of.induct)
  case (1 sub)
  then show ?case by (auto split: if_splits)
next
  case (2 c cs sub)
  then show ?case
    by (auto simp: prefix_takeI split: if_splits dest!: prefix_length_le)
qed

lemma index_of_first:
  "index_of s sub = Some i \<Longrightarrow> j < i \<Longrightarrow> \<not> prefix sub (drop j s)"
proof (induction s sub arbitrary: i j rule: index_of.induct)
  case (1 sub)
  then show ?case by (auto split: if_splits)
next
  case (2 c cs sub)
  then show ?case by (cases j) (auto split: if_splits)
qed

lemma index_of_None: "index_of s sub = None \<longleftrightarrow> (\<forall>i \<le> length s. \<not> prefix sub (drop i s))"
proof (induction s sub rule: index_of.induct)
  case (1 sub)
  then show ?case by auto
next
  case (2 c cs sub)
  have "(\<forall>i \<le> length (c # cs). \<not> prefix sub (drop i (c # cs))) \<longleftrightarrow>
      \<not> prefix sub (c # cs) \<and> (\<forall>i \<le> length cs. \<not> prefix sub (drop i cs))"
    by (auto simp: less_Suc_eq_le) (metis Suc_le_mono drop0 drop_Suc_Cons not0_implies_Suc)
  with 2 show ?case by auto
qed

lemma contains_sublist: "contains s sub \<longleftrightarrow> sublist sub s"
proof
  assume "contains s sub"
  then obtain i where "index_of s sub = Some i" by (auto simp: contains_def)
  from index_of_Some[OF this] show "sublist sub s"
    by (metis append_take_drop_id sublist_def)
next
  assume "sublist sub s"
  then obtain xs ys where s: "s = xs @ sub @ ys" by (auto simp: sublist_def)
  then have "prefix sub (drop (length xs) s)" "length xs \<le> length s" by auto
  then show "contains s sub" by (auto simp: contains_def index_of_None)
qed

text \<open>The occurrence at \<open>a\<close> is the one found when there is none before it.\<close>

lemma index_of_at:
  assumes "\<And>j. j < length a \<Longrightarrow> \<not> prefix sub (drop j (a @ sub @ b))"
  shows "index_of (a @ sub @ b) sub = Some (length a)"
proof -
  have "index_of (a @ sub @ b) sub \<noteq> None"
    by (auto simp: index_of_None intro!: exI[of _ "length a"])
  then obtain i where i: "index_of (a @ sub @ b) sub = Some i" by auto
  have "\<not> i < length a"
  proof
    assume "i < length a"
    moreover have "prefix sub (drop i (a @ sub @ b))"
      using index_of_Some[OF i] by (metis take_is_prefix)
    ultimately show False using assms by blast
  qed
  moreover have "\<not> length a < i"
    using index_of_first[OF i, of "length a"] by auto
  ultimately show ?thesis using i by (metis nat_neq_iff)
qed

lemma index_of_char:
  "index_of s [c] = (if c \<in> set s then Some (length (takeWhile (\<lambda>x. x \<noteq> c) s)) else None)"
  by (induction s) auto

section \<open>Splitting and joining\<close>

lemma split_on_not_Nil [simp]: "split_on sep s \<noteq> []"
  by (induction s) (auto split: list.splits)

lemma join_push_head: "join sep ((c # w) # ws) = c # join sep (w # ws)"
  by (cases ws) auto

lemma join_split_on: "join [sep] (split_on sep s) = s"
proof (induction s)
  case Nil
  then show ?case by simp
next
  case (Cons c cs)
  then show ?case
    by (cases "split_on sep cs") (auto simp: join_push_head)
qed

lemma split_on_no_sep: "w \<in> set (split_on sep s) \<Longrightarrow> sep \<notin> set w"
proof (induction s arbitrary: w)
  case Nil
  then show ?case by simp
next
  case (Cons c cs)
  then show ?case
    by (cases "split_on sep cs") (auto split: if_splits)
qed

lemma split_on_id: "sep \<notin> set s \<Longrightarrow> split_on sep s = [s]"
  by (induction s) auto

lemma split_on_append:
  "sep \<notin> set w \<Longrightarrow> split_on sep (w @ sep # s) = w # split_on sep s"
  by (induction w) auto

lemma split_on_join:
  "ws \<noteq> [] \<Longrightarrow> \<forall>w \<in> set ws. sep \<notin> set w \<Longrightarrow> split_on sep (join [sep] ws) = ws"
proof (induction "[sep]" ws rule: join.induct)
  case (3 w v ws)
  then show ?case by (simp add: split_on_append)
qed (auto simp: split_on_id)

lemma set_split_on: "set (concat (split_on sep s)) \<subseteq> set s"
proof (induction s)
  case (Cons c cs)
  then show ?case by (cases "split_on sep cs") auto
qed auto

lemma join_Cons: "ws \<noteq> [] \<Longrightarrow> join sep (w # ws) = w @ sep @ join sep ws"
  by (cases ws) auto

lemma join_append:
  "xs \<noteq> [] \<Longrightarrow> ys \<noteq> [] \<Longrightarrow> join sep (xs @ ys) = join sep xs @ sep @ join sep ys"
  by (induction sep xs rule: join.induct) (auto simp: join_Cons)

lemma set_join: "set (join sep ws) \<subseteq> set sep \<union> \<Union> (set ` set ws)"
  by (induction sep ws rule: join.induct) auto

lemma replace_all_char:
  "replace_all s [a] [b] = map (\<lambda>c. if c = a then b else c) s"
proof (induction s)
  case Nil
  then show ?case by (simp add: replace_all.simps)
next
  case (Cons c cs)
  then show ?case by (subst replace_all.simps) auto
qed

lemma replace_all_absent: "\<not> sublist old s \<Longrightarrow> replace_all s old new = s"
proof (induction s old new rule: replace_all.induct)
  case (1 s old new)
  show ?case
  proof (cases s)
    case Nil
    then show ?thesis by (simp add: replace_all.simps)
  next
    case (Cons c cs)
    with 1 have "\<not> prefix old s" by (auto dest: prefix_imp_sublist)
    moreover have "\<not> sublist old cs"
      using 1 Cons by (meson sublist_Cons_right)
    ultimately show ?thesis using 1 Cons
      by (subst replace_all.simps) auto
  qed
qed

lemma join_map_char:
  "map f (join sep ws) = join (map f sep) (map (map f) ws)"
  by (induction sep ws rule: join.induct) auto

lemma replace_sep:
  assumes "\<forall>w \<in> set ws. a \<notin> set w"
  shows "replace_all (join [a] ws) [a] [b] = join [b] ws"
proof -
  have "map (map (\<lambda>c. if c = a then b else c)) ws = ws"
    using assms by (intro map_idem_on) (auto intro!: map_idem_on)
  then show ?thesis by (simp add: replace_all_char join_map_char)
qed

lemma trim_prefix_append [simp]: "trim_prefix (p @ s) p = s"
  by (simp add: trim_prefix_def)

lemma trim_suffix_append [simp]: "trim_suffix (s @ p) p = s"
  by (simp add: trim_suffix_def suffixI)

end
