(* ===== verification/GoSpace.thy ===== *)
theory GoSpace
  imports GoStrings
begin

text \<open>
  White space: what \<open>TrimSpace\<close> and \<open>Fields\<close> return. A word is a non-empty byte
  sequence in which no white-space code point occurs; \<open>Fields\<close> of words joined by
  single blanks gives the words back.
\<close>

fun no_space :: "string \<Rightarrow> bool" where
  "no_space [] = True"
| "no_space (c # cs) \<longleftrightarrow> lead_rune space_runes (c # cs) = 0 \<and> no_space cs"

definition is_word :: "string \<Rightarrow> bool" where
  "is_word w \<longleftrightarrow> w \<noteq> [] \<and> no_space w"

section \<open>The encodings synchronise\<close>

text \<open>The bytes 0x80 to 0xBF continue a code point and never start one.\<close>

definition is_cont :: "char \<Rightarrow> bool" where
  "is_cont c \<longleftrightarrow> 128 \<le> (of_char c :: nat) \<and> (of_char c :: nat) < 192"

lemma space_runes_shape:
  "list_all (\<lambda>r. r \<noteq> [] \<and> \<not> is_cont (hd r) \<and> list_all is_cont (tl r)) space_runes"
  by (simp add: space_runes_def is_cont_def)

lemma space_rune_cases:
  assumes "r \<in> set space_runes"
  obtains h t where "r = h # t" "\<not> is_cont h" "list_all is_cont t"
proof -
  from assms space_runes_shape have "r \<noteq> []" "\<not> is_cont (hd r)" "list_all is_cont (tl r)"
    by (auto simp: list_all_iff)
  then show ?thesis by (cases r) (auto intro: that)
qed

lemma Nil_not_space_rune [simp]: "[] \<notin> set space_runes"
  using space_runes_shape by (auto simp: list_all_iff)

lemma Nil_not_rev_space_rune [simp]: "[] \<notin> rev ` set space_runes"
  by (metis Nil_not_space_rune imageE rev_is_Nil_conv)

lemma lead_rune_0:
  "[] \<notin> set rs \<Longrightarrow> lead_rune rs s = 0 \<longleftrightarrow> (\<forall>r \<in> set rs. \<not> prefix r s)"
  by (auto simp: lead_rune_def find_None_iff dest: find_SomeD split: option.splits)

lemma lead_space_0:
  "lead_rune space_runes s = 0 \<longleftrightarrow> (\<forall>r \<in> set space_runes. \<not> prefix r s)"
  by (simp add: lead_rune_0)

lemma lead_rune_Nil [simp]: "lead_rune rs [] = 0"
  using lead_rune_le[of rs "[]"] by simp

text \<open>A rune that starts in \<open>u\<close> cannot reach past a byte that starts a code point.\<close>

lemma prefix_rune_append:
  assumes r: "r \<in> set space_runes" and u: "u \<noteq> []" and v: "v = [] \<or> \<not> is_cont (hd v)"
  shows "prefix r (u @ v) \<longleftrightarrow> prefix r u"
proof
  assume "prefix r u" then show "prefix r (u @ v)" by auto
next
  assume p: "prefix r (u @ v)"
  from r obtain h t where ht: "r = h # t" "list_all is_cont t" by (rule space_rune_cases) auto
  from p consider "prefix r u" | us where "r = u @ us" "us \<noteq> []" "prefix us v"
    by (metis append_Nil2 prefix_append prefix_order.refl)
  then show "prefix r u"
  proof cases
    case 2
    then have "hd us = hd v" by (auto simp: prefix_def)
    moreover have "hd us \<in> set t" using 2 u ht by (cases u) auto
    ultimately have "is_cont (hd v)" using ht by (simp add: list_all_iff)
    with v 2 show ?thesis by auto
  qed
qed

lemma lead_space_append:
  assumes "u \<noteq> []" "v = [] \<or> \<not> is_cont (hd v)"
  shows "lead_rune space_runes (u @ v) = lead_rune space_runes u"
proof -
  have "find (\<lambda>r. prefix r (u @ v)) space_runes = find (\<lambda>r. prefix r u) space_runes"
    using assms by (intro find_cong) (auto simp: prefix_rune_append)
  then show ?thesis by (simp add: lead_rune_def)
qed

lemma lead_space_not_cont: "lead_rune space_runes v \<noteq> 0 \<Longrightarrow> \<not> is_cont (hd v)"
  by (auto simp: lead_space_0 prefix_def elim: space_rune_cases)

lemma lead_blank [simp]: "lead_rune space_runes (CHR '' '' # s) = 1"
  by (simp add: lead_rune_def space_runes_def)

section \<open>Trimming\<close>

lemma trim_lead_suffix: "suffix (trim_lead rs s) s"
proof (induction rs s rule: trim_lead.induct)
  case (1 rs s)
  then show ?case
    by (cases "lead_rune rs s = 0")
      (auto simp: trim_lead.simps[of rs s] intro: suffix_order.trans suffix_drop)
qed

lemma trim_lead_Nil:
  assumes "trim_lead rs s = []" "s \<noteq> []"
  shows "\<exists>r \<in> set rs. r \<noteq> [] \<and> suffix r s"
  using assms
proof (induction rs s rule: trim_lead.induct)
  case (1 rs s)
  let ?d = "drop (lead_rune rs s) s"
  from "1.prems" have n: "lead_rune rs s \<noteq> 0" by (auto simp: trim_lead.simps[of rs s] split: if_splits)
  then obtain r where r: "r \<in> set rs" "prefix r s" "lead_rune rs s = length r" "r \<noteq> []"
    by (auto simp: lead_rune_def dest!: find_SomeD split: option.splits)
  show ?case
  proof (cases "?d = []")
    case True
    then have "s = r" using r prefix_drop_eq[of r s] by simp
    then show ?thesis using r by auto
  next
    case False
    with 1 n have "\<exists>r \<in> set rs. r \<noteq> [] \<and> suffix r ?d"
      by (simp add: trim_lead.simps[of rs s])
    then show ?thesis by (meson suffix_drop suffix_order.trans)
  qed
qed

lemma lead_rune_prefix_0:
  "[] \<notin> set rs \<Longrightarrow> lead_rune rs s = 0 \<Longrightarrow> prefix p s \<Longrightarrow> lead_rune rs p = 0"
  by (meson lead_rune_0 prefix_order.trans)

lemma trim_space_idem [simp]: "trim_space (trim_space s) = trim_space s"
proof -
  let ?l = "trim_lead space_runes s"
  let ?t = "trim_lead (map rev space_runes) (rev ?l)"
  have "prefix (rev ?t) ?l"
    using trim_lead_suffix[of "map rev space_runes" "rev ?l"] by (simp add: suffix_to_prefix)
  then have "lead_rune space_runes (rev ?t) = 0"
    by (rule lead_rune_prefix_0[of _ ?l, rotated 2]) auto
  then show ?thesis by (simp add: trim_space_def trim_lead_id)
qed

lemma trim_space_id_iff:
  "trim_space s = s \<longleftrightarrow>
     lead_rune space_runes s = 0 \<and> lead_rune (map rev space_runes) (rev s) = 0"
proof
  assume "trim_space s = s"
  then have eq: "rev s = trim_lead (map rev space_runes) (rev (trim_lead space_runes s))"
    by (simp add: trim_space_def) (metis rev_rev_ident)
  have "suffix (rev s) (rev (trim_lead space_runes s))"
    unfolding eq by (rule trim_lead_suffix)
  then have "prefix s (trim_lead space_runes s)" by (simp add: suffix_to_prefix)
  then have "lead_rune space_runes s = 0"
    by (rule lead_rune_prefix_0[of _ "trim_lead space_runes s", rotated 2]) auto
  then show "lead_rune space_runes s = 0 \<and> lead_rune (map rev space_runes) (rev s) = 0"
    using eq by (metis lead_rune_trim_lead)
qed (simp add: trim_space_def trim_lead_id)

lemma trim_space_Nil [simp]: "trim_space [] = []"
  by (simp add: trim_space_def trim_lead_id)

lemma trim_space_blank: "trim_space s = [] \<longleftrightarrow> trim_lead space_runes s = []"
proof
  assume t: "trim_space s = []"
  let ?l = "trim_lead space_runes s"
  show "?l = []"
  proof (rule ccontr)
    assume ne: "?l \<noteq> []"
    from t have "trim_lead (map rev space_runes) (rev ?l) = []" by (simp add: trim_space_def)
    from trim_lead_Nil[OF this] ne obtain r where
      "r \<in> set space_runes" "suffix (rev r) (rev ?l)" by auto
    then have "prefix r ?l" by (simp add: suffix_to_prefix)
    with \<open>r \<in> set space_runes\<close> show False
      using lead_rune_trim_lead[of space_runes s] unfolding lead_space_0 by blast
  qed
qed (simp add: trim_space_def trim_lead_id)

section \<open>Words\<close>

lemma no_space_drop: "no_space s \<longleftrightarrow> (\<forall>i < length s. lead_rune space_runes (drop i s) = 0)"
proof (induction s)
  case (Cons c cs)
  then show ?case by (auto simp: All_less_Suc2)
qed simp

lemma no_space_lead: "no_space s \<Longrightarrow> lead_rune space_runes s = 0"
  by (cases s) auto

lemma no_space_blank: "no_space w \<Longrightarrow> CHR '' '' \<notin> set w"
  by (induction w) auto

lemma span_word_no_space: "no_space (fst (span_word s))"
proof (induction s)
  case (Cons c cs)
  show ?case
  proof (cases "lead_rune space_runes (c # cs) = 0")
    case True
    have "prefix (c # fst (span_word cs)) (c # cs)"
      using span_word_append[of cs] by (metis Cons_prefix_Cons prefixI)
    then have "lead_rune space_runes (c # fst (span_word cs)) = 0"
      using True by (metis Nil_not_space_rune lead_rune_prefix_0)
    with True Cons show ?thesis by (simp add: split_beta Let_def)
  qed simp
qed simp

lemma fst_span_word_ne: "lead_rune space_runes s = 0 \<Longrightarrow> s \<noteq> [] \<Longrightarrow> fst (span_word s) \<noteq> []"
  by (cases s) (auto simp: split_beta Let_def)

lemma fields_words: "w \<in> set (go_fields s) \<Longrightarrow> is_word w"
proof (induction s rule: go_fields.induct)
  case (1 s)
  then show ?case
    by (subst (asm) go_fields.simps)
      (auto simp: Let_def is_word_def span_word_no_space fst_span_word_ne split: if_splits)
qed

lemma span_word_break:
  assumes "no_space w" "v = [] \<or> lead_rune space_runes v \<noteq> 0"
  shows "span_word (w @ v) = (w, v)"
  using assms
proof (induction w)
  case Nil
  then show ?case by (cases v) auto
next
  case (Cons c cs)
  have "v = [] \<or> \<not> is_cont (hd v)"
    using Cons.prems(2) lead_space_not_cont by blast
  then have "lead_rune space_runes ((c # cs) @ v) = lead_rune space_runes (c # cs)"
    by (rule lead_space_append[rotated]) simp
  with Cons show ?case by auto
qed

lemma fields_blank: "go_fields s = [] \<longleftrightarrow> trim_space s = []"
  by (subst go_fields.simps) (auto simp: trim_space_blank Let_def)

lemma fields_Nil [simp]: "go_fields [] = []"
  by (simp add: fields_blank)

lemma fields_lead: "go_fields (CHR '' '' # s) = go_fields s"
proof -
  have "trim_lead space_runes (CHR '' '' # s) = trim_lead space_runes s"
    by (subst trim_lead.simps) simp
  then show ?thesis by (simp add: go_fields.simps[of "CHR '' '' # s"] go_fields.simps[of s])
qed

lemma is_word_lead: "is_word w \<Longrightarrow> lead_rune space_runes (w @ CHR '' '' # s) = 0"
  by (subst lead_space_append) (auto simp: is_word_def is_cont_def no_space_lead)

lemma fields_word: "is_word w \<Longrightarrow> go_fields w = [w]"
  using span_word_break[of w "[]"]
  by (subst go_fields.simps) (simp add: Let_def is_word_def trim_lead_id no_space_lead)

lemma fields_word_blank: "is_word w \<Longrightarrow> go_fields (w @ CHR '' '' # s) = w # go_fields s"
  using span_word_break[of w "CHR '' '' # s"] is_word_lead[of w s]
  by (subst go_fields.simps)
    (simp add: Let_def trim_lead_id is_word_def fields_lead)

lemma fields_join:
  "\<forall>w \<in> set ws. is_word w \<Longrightarrow> go_fields (join '' '' ws) = ws"
  by (induction "'' ''" ws rule: join.induct) (auto simp: fields_word fields_word_blank)

section \<open>Joined words are trimmed\<close>

lemma blank_rune: "r \<in> set space_runes \<Longrightarrow> CHR '' '' \<in> set r \<Longrightarrow> r = [CHR '' '']"
  by (auto simp: space_runes_def)

lemma no_space_suffix:
  assumes "no_space w" "r \<in> set space_runes"
  shows "\<not> suffix r w"
proof
  assume s: "suffix r w"
  then obtain u where w: "w = u @ r" by (auto simp: suffix_def)
  have "r \<noteq> []" using assms(2) by auto
  then have "length u < length w" by (simp add: w)
  moreover have "\<forall>i < length w. lead_rune space_runes (drop i w) = 0"
    using assms(1) by (simp only: no_space_drop)
  ultimately have "lead_rune space_runes (drop (length u) w) = 0" by blast
  with w assms(2) show False by (auto simp: lead_space_0)
qed

lemma trail_word:
  assumes "is_word w" "x = [] \<or> last x = CHR '' ''"
  shows "lead_rune (map rev space_runes) (rev (x @ w)) = 0"
proof -
  have "\<not> suffix r (x @ w)" if r: "r \<in> set space_runes" for r
  proof
    assume "suffix r (x @ w)"
    then consider "suffix r w" | y where "r = y @ w" "suffix y x" "y \<noteq> []"
      by (metis append_Nil suffix_append suffix_order.refl)
    then show False
    proof cases
      case 1
      with assms r no_space_suffix show False by (auto simp: is_word_def)
    next
      case 2
      then have "last y = CHR '' ''" using assms(2) by (auto simp: suffix_def)
      with 2 have "CHR '' '' \<in> set r" by (metis Un_iff last_in_set set_append)
      with r have "r = [CHR '' '']" by (rule blank_rune)
      with 2 assms(1) show False by (cases y) (auto simp: is_word_def)
    qed
  qed
  then show ?thesis
    by (auto simp: lead_rune_0 suffix_to_prefix)
qed

lemma trim_space_words:
  assumes "\<forall>w \<in> set ws. is_word w" "ws \<noteq> []"
  shows "trim_space (join '' '' ws) = join '' '' ws"
proof -
  obtain vs w where ws: "ws = vs @ [w]" using assms(2) by (cases ws rule: rev_cases) auto
  have w: "is_word w" using assms(1) ws by simp
  have "lead_rune space_runes (join '' '' ws) = 0"
  proof (cases ws)
    case (Cons u us)
    then show ?thesis using assms(1) is_word_lead[of u]
      by (cases us) (auto simp: is_word_def no_space_lead)
  qed simp
  moreover have "lead_rune (map rev space_runes) (rev (join '' '' ws)) = 0"
  proof (cases "vs = []")
    case True
    then show ?thesis using trail_word[OF w, of "[]"] ws by simp
  next
    case False
    then have "join '' '' ws = (join '' '' vs @ '' '') @ w" by (simp add: ws join_append)
    then show ?thesis using trail_word[OF w, of "join '' '' vs @ '' ''"] by simp
  qed
  ultimately show ?thesis by (simp add: trim_space_id_iff)
qed

lemma trim_space_word: "is_word w \<Longrightarrow> trim_space w = w"
  using trim_space_words[of "[w]"] by simp

text \<open>Printable ASCII bytes other than the blank make words.\<close>

definition plain_char :: "char \<Rightarrow> bool" where
  "plain_char c \<longleftrightarrow> 32 < (of_char c :: nat) \<and> (of_char c :: nat) < 127"

lemma plain_not_rune: "r \<in> set space_runes \<Longrightarrow> \<not> plain_char (hd r)"
proof -
  have "list_all (\<lambda>r. \<not> plain_char (hd r)) space_runes"
    by (simp add: space_runes_def plain_char_def)
  then show "r \<in> set space_runes \<Longrightarrow> ?thesis" by (simp add: list_all_iff)
qed

lemma plain_lead: "plain_char c \<Longrightarrow> lead_rune space_runes (c # cs) = 0"
  unfolding lead_space_0
proof
  fix r assume "plain_char c" "r \<in> set space_runes"
  then show "\<not> prefix r (c # cs)"
    using plain_not_rune[of r] by (cases r) auto
qed

lemma plain_no_space: "list_all plain_char w \<Longrightarrow> no_space w"
  by (induction w) (auto simp: plain_lead)

lemma plain_word: "list_all plain_char w \<Longrightarrow> w \<noteq> [] \<Longrightarrow> is_word w"
  by (simp add: is_word_def plain_no_space)

end
