(* ===== verification/HttpMux.thy ===== *)
theory HttpMux
  imports GoSpace
begin

text \<open>
  What the program uses of Go's \<open>net/http\<close>: requests, responses, \<open>http.Error\<close>, basic
  authentication credentials and the routing of \<open>ServeMux\<close> (path cleaning, the redirect to the
  clean path, the redirect of \<open>/tree\<close> to \<open>/tree/\<close>, exact and subtree patterns).

  A request carries both the path as sent (\<open>URL.EscapedPath\<close>, which routing looks at) and the
  decoded path (\<open>URL.Path\<close>, which the handlers look at). The body is what \<open>io.ReadAll\<close>
  returns. Of a response the status, the body and the headers the program sets are kept.
\<close>

record http_request =
  req_method :: string
  esc_path :: string
  url_path :: string
  auth_cred :: "string option"
  accept_hdr :: string
  content_hdr :: string
  req_body :: "string result"

record http_response =
  status :: nat
  content_type :: string
  www_auth :: "string option"
  resp_body :: string

datatype http_outcome = Responded http_response | Moved string

definition http_error :: "string \<Rightarrow> nat \<Rightarrow> http_response" where
  "http_error msg code =
     \<lparr>status = code, content_type = ''text/plain; charset=utf-8'', www_auth = None,
      resp_body = msg @ [NL]\<rparr>"

section \<open>Basic authentication\<close>

text \<open>
  \<open>SetBasicAuth\<close> sends \<open>user:pass\<close>, \<open>BasicAuth\<close> cuts what it receives at the first
  colon. The base64 coding in between is its own inverse and is left out.
\<close>

definition set_basic_auth :: "string \<Rightarrow> string \<Rightarrow> string option" where
  "set_basic_auth user pass = Some (user @ CHR '':'' # pass)"

definition basic_auth :: "http_request \<Rightarrow> (string \<times> string) option" where
  "basic_auth r =
     (case auth_cred r of
        None \<Rightarrow> None
      | Some cs \<Rightarrow>
          (case index_of cs '':'' of
             None \<Rightarrow> None
           | Some i \<Rightarrow> Some (take i cs, drop (i + 1) cs)))"

lemma basic_auth_set:
  assumes "CHR '':'' \<notin> set user" "auth_cred r = set_basic_auth user pass"
  shows "basic_auth r = Some (user, pass)"
proof -
  have "takeWhile (\<lambda>x. x \<noteq> CHR '':'') (user @ CHR '':'' # pass) = user"
    using assms(1) by (subst takeWhile_append2) auto
  then show ?thesis using assms by (simp add: basic_auth_def set_basic_auth_def index_of_char)
qed

section \<open>Cleaning a path\<close>

fun clean_segs :: "string list \<Rightarrow> string list \<Rightarrow> string list" where
  "clean_segs acc [] = rev acc"
| "clean_segs acc (s # ss) =
     (if s = [] \<or> s = ''.'' then clean_segs acc ss
      else if s = ''..'' then clean_segs (tl acc) ss
      else clean_segs (s # acc) ss)"

definition clean_path :: "string \<Rightarrow> string" where
  "clean_path p0 =
     (let p = (case p0 of [] \<Rightarrow> ''/'' | c # cs \<Rightarrow> if c = CHR ''/'' then p0 else CHR ''/'' # p0);
          np = CHR ''/'' # join ''/'' (clean_segs [] (split_on (CHR ''/'') p))
      in if last p = CHR ''/'' \<and> np \<noteq> ''/'' then np @ ''/'' else np)"

section \<open>Matching a pattern\<close>

definition hex_val :: "char \<Rightarrow> nat option" where
  "hex_val c =
     (let n = of_char c :: nat
      in if 48 \<le> n \<and> n \<le> 57 then Some (n - 48)
         else if 97 \<le> n \<and> n \<le> 102 then Some (n - 87)
         else if 65 \<le> n \<and> n \<le> 70 then Some (n - 55)
         else None)"

text \<open>\<open>url.PathUnescape\<close>; \<open>None\<close> is its error.\<close>

fun percent_decode :: "string \<Rightarrow> string option" where
  "percent_decode [] = Some []"
| "percent_decode (c # cs) =
     (if c = CHR ''%'' then
        (case cs of
           a # b # rest \<Rightarrow>
             (case (hex_val a, hex_val b) of
                (Some x, Some y) \<Rightarrow> map_option ((#) (char_of (16 * x + y))) (percent_decode rest)
              | _ \<Rightarrow> None)
         | _ \<Rightarrow> None)
      else map_option ((#) c) (percent_decode cs))"

definition path_unescape :: "string \<Rightarrow> string" where
  "path_unescape s = (case percent_decode s of None \<Rightarrow> s | Some t \<Rightarrow> t)"

definition segs :: "string \<Rightarrow> string list" where
  "segs p = split_on (CHR ''/'') p"

text \<open>
  A pattern that ends in a slash matches its whole subtree, any other only itself. Segments are
  compared decoded.
\<close>

definition pattern_match :: "string \<Rightarrow> string \<Rightarrow> bool" where
  "pattern_match pat path =
     (if suffix ''/'' pat
      then (let ps = butlast (segs pat); xs = segs path
            in length ps < length xs \<and> map path_unescape (take (length ps) xs) = ps)
      else map path_unescape (segs path) = segs pat)"

definition exact_subtree :: "string \<Rightarrow> string \<Rightarrow> bool" where
  "exact_subtree pat path \<longleftrightarrow> pattern_match pat path \<and> length (segs pat) = length (segs path)"

section \<open>Routing\<close>

datatype route = ToPattern string | NotFound | RedirectTo string

text \<open>\<open>ServeMux.findHandler\<close> for patterns no two of which match the same path.\<close>

definition mux_route :: "string list \<Rightarrow> http_request \<Rightarrow> route" where
  "mux_route pats r =
     (let path = (if req_method r = ''CONNECT'' then esc_path r else clean_path (esc_path r));
          found = find (\<lambda>pat. pattern_match pat path) pats
      in if found = None \<and> \<not> suffix ''/'' path \<and> path \<noteq> []
            \<and> list_ex (\<lambda>pat. exact_subtree pat (path @ ''/'')) pats
         then RedirectTo (clean_path (url_path r) @ ''/'')
         else if path \<noteq> esc_path r then RedirectTo path
         else case found of None \<Rightarrow> NotFound | Some pat \<Rightarrow> ToPattern pat)"

definition not_found :: http_response where
  "not_found = http_error ''404 page not found'' 404"

section \<open>Lemmas\<close>

text \<open>A segment that cleaning and decoding leave alone.\<close>

definition plain_seg :: "string \<Rightarrow> bool" where
  "plain_seg s \<longleftrightarrow> s \<noteq> [] \<and> s \<noteq> ''.'' \<and> s \<noteq> ''..'' \<and> CHR ''/'' \<notin> set s \<and> CHR ''%'' \<notin> set s"

lemma percent_decode_id: "CHR ''%'' \<notin> set s \<Longrightarrow> percent_decode s = Some s"
  by (induction s) auto

lemma path_unescape_id: "CHR ''%'' \<notin> set s \<Longrightarrow> path_unescape s = s"
  by (simp add: path_unescape_def percent_decode_id)

lemma clean_segs_plain: "list_all plain_seg ss \<Longrightarrow> clean_segs acc ss = rev acc @ ss"
  by (induction acc ss rule: clean_segs.induct) (auto simp: plain_seg_def)

lemma clean_path_plain:
  assumes "ss \<noteq> []" "list_all plain_seg ss"
  shows "clean_path (CHR ''/'' # join ''/'' ss) = CHR ''/'' # join ''/'' ss"
proof -
  let ?j = "join ''/'' ss"
  have no: "\<forall>w \<in> set ss. CHR ''/'' \<notin> set w" using assms(2) by (auto simp: list_all_iff plain_seg_def)
  have sp: "split_on (CHR ''/'') (CHR ''/'' # ?j) = [] # ss"
    using split_on_join[OF assms(1) no] by simp
  obtain ts w where ss: "ss = ts @ [w]" using assms(1) by (cases ss rule: rev_cases) auto
  have w: "w \<noteq> []" "CHR ''/'' \<notin> set w" using assms(2) by (auto simp: ss plain_seg_def)
  have "\<exists>x. ?j = x @ w" by (cases "ts = []") (auto simp: ss join_append)
  then obtain x where x: "?j = x @ w" by blast
  have "last (CHR ''/'' # ?j) = last w" using w(1) by (simp add: x)
  moreover have "last w \<noteq> CHR ''/''" using w last_in_set by metis
  ultimately show ?thesis
    by (simp add: clean_path_def Let_def sp clean_segs_plain[OF assms(2)] del: split_on.simps)
qed

lemma segs_plain:
  "ss \<noteq> [] \<Longrightarrow> list_all plain_seg ss \<Longrightarrow> segs (CHR ''/'' # join ''/'' ss) = [] # ss"
  using split_on_join[of ss "CHR ''/''"]
  by (simp add: segs_def list_all_iff plain_seg_def)

lemma segs_subtree:
  assumes "ps \<noteq> []" "list_all plain_seg ps"
  shows "segs (CHR ''/'' # join ''/'' ps @ ''/'') = [] # ps @ [[]]"
proof -
  have "CHR ''/'' # join ''/'' ps @ ''/'' = join ''/'' ([] # ps @ [[]])"
    using assms(1) join_append[of "[] # ps" "[[]]" "''/''"] by (simp add: join_Cons)
  moreover have "split_on (CHR ''/'') (join ''/'' ([] # ps @ [[]])) = [] # ps @ [[]]"
    using assms(2) by (intro split_on_join) (auto simp: list_all_iff plain_seg_def)
  ultimately show ?thesis by (simp only: segs_def)
qed

text \<open>A clean path below a subtree pattern goes to that pattern.\<close>

lemma route_subtree:
  assumes path: "esc_path req = CHR ''/'' # join ''/'' (ps @ ss)"
    and pat: "pat = CHR ''/'' # join ''/'' ps @ ''/''"
    and ok: "list_all plain_seg (ps @ ss)" "ps \<noteq> []" "ss \<noteq> []"
  shows "mux_route (pat # pats) req = ToPattern pat"
proof -
  have clean: "clean_path (esc_path req) = esc_path req"
    unfolding path by (rule clean_path_plain) (use ok in auto)
  have s: "segs (esc_path req) = [] # ps @ ss"
    unfolding path by (rule segs_plain) (use ok in auto)
  have sp: "segs pat = [] # ps @ [[]]"
    unfolding pat by (rule segs_subtree) (use ok in auto)
  have u: "map path_unescape ps = ps"
    using ok by (intro map_idem_on) (auto simp: path_unescape_id list_all_iff plain_seg_def)
  have "suffix ''/'' pat" by (simp add: pat suffix_def)
  then have m: "pattern_match pat (esc_path req)"
    using ok u by (simp add: pattern_match_def s sp path_unescape_id butlast_append)
  show ?thesis by (simp add: mux_route_def clean m)
qed

end
