(* ===== verification/HttpHandler.thy ===== *)
theory HttpHandler
  imports HttpMux
begin

text \<open>
  \<open>internal/httphandler/handler.go\<close>: the two ASA-style endpoints, behind basic authentication,
  over any \<open>Runner\<close>. \<open>RunCommands\<close> returns output and error together, and may change its
  own state (the proxy's connection pool), so a runner takes and returns a state.
\<close>

type_synonym 's runner = "string list \<Rightarrow> 's \<Rightarrow> (string \<times> string option) \<times> 's"
type_synonym 's handler = "http_request \<Rightarrow> 's \<Rightarrow> http_outcome \<times> 's"

definition ok_text :: "string \<Rightarrow> http_response" where
  "ok_text out = \<lparr>status = 200, content_type = ''text/plain'', www_auth = None, resp_body = out\<rparr>"

definition run_and_answer :: "'s runner \<Rightarrow> string list \<Rightarrow> 's \<Rightarrow> http_outcome \<times> 's" where
  "run_and_answer run cmds s =
     (case run cmds s of
        ((out, Some err), s') \<Rightarrow> (Responded (http_error err 502), s')
      | ((out, None), s') \<Rightarrow> (Responded (ok_text out), s'))"

definition path_commands :: "string \<Rightarrow> string list" where
  "path_commands path =
     filter (\<lambda>cmd. cmd \<noteq> [])
       (map (\<lambda>p. trim_space (replace_all p ''+'' '' '')) (split_on (CHR ''/'') path))"

definition exec_handler :: "'s runner \<Rightarrow> 's handler" where
  "exec_handler run req s =
     (let path = trim_prefix (url_path req) ''/admin/exec/''
      in if path = [] then (Responded (http_error ''no command'' 400), s)
         else run_and_answer run (path_commands path) s)"

definition body_commands :: "string \<Rightarrow> string list" where
  "body_commands body = filter (\<lambda>cmd. cmd \<noteq> []) (map trim_space (split_on NL body))"

definition config_handler :: "'s runner \<Rightarrow> 's handler" where
  "config_handler run req s =
     (if req_method req \<noteq> ''POST'' then (Responded (http_error ''POST required'' 405), s)
      else case req_body req of
          Inl err \<Rightarrow> (Responded (http_error err 400), s)
        | Inr body \<Rightarrow> run_and_answer run (body_commands body) s)"

definition auth_middleware :: "string \<Rightarrow> string \<Rightarrow> 's handler \<Rightarrow> 's handler" where
  "auth_middleware user pass nxt req s =
     (case basic_auth req of
        Some (u, p) \<Rightarrow>
          if u \<noteq> user \<or> p \<noteq> pass
          then (Responded ((http_error ''Unauthorized'' 401)
                 \<lparr>www_auth := Some (''Basic realm='' @ [DQ] @ ''device'' @ [DQ])\<rparr>), s)
          else nxt req s
      | None \<Rightarrow>
          (Responded ((http_error ''Unauthorized'' 401)
             \<lparr>www_auth := Some (''Basic realm='' @ [DQ] @ ''device'' @ [DQ])\<rparr>), s))"

definition mux_patterns :: "string list" where
  "mux_patterns = [''/admin/exec/'', ''/admin/config'']"

definition mux_serve :: "'s runner \<Rightarrow> 's handler" where
  "mux_serve run req s =
     (case mux_route mux_patterns req of
        RedirectTo loc \<Rightarrow> (Moved loc, s)
      | NotFound \<Rightarrow> (Responded not_found, s)
      | ToPattern pat \<Rightarrow>
          if pat = ''/admin/exec/'' then exec_handler run req s else config_handler run req s)"

definition mux :: "string \<Rightarrow> string \<Rightarrow> 's runner \<Rightarrow> 's handler" where
  "mux user pass run = auth_middleware user pass (mux_serve run)"

section \<open>Authentication\<close>

definition authorized :: "string \<Rightarrow> string \<Rightarrow> http_request \<Rightarrow> bool" where
  "authorized user pass req \<longleftrightarrow> basic_auth req = Some (user, pass)"

lemma auth_middleware_authorized:
  "authorized user pass req \<Longrightarrow> auth_middleware user pass nxt req s = nxt req s"
  by (simp add: auth_middleware_def authorized_def)

text \<open>Without the right credentials no handler runs: the answer is 401, the runner untouched.\<close>

lemma mux_denies:
  assumes "\<not> authorized user pass req"
  shows "\<exists>resp. mux user pass run req s = (Responded resp, s) \<and> status resp = 401
           \<and> www_auth resp \<noteq> None"
  using assms
  by (auto simp: mux_def auth_middleware_def authorized_def http_error_def split: option.splits)

section \<open>The commands of a request\<close>

lemma path_commands_join:
  assumes "cmds \<noteq> []" "\<forall>c \<in> set cmds. CHR ''/'' \<notin> set c \<and> CHR ''+'' \<notin> set c \<and> trim_space c = c \<and> c \<noteq> []"
  shows "path_commands (join ''/'' (map (\<lambda>c. replace_all c '' '' ''+'') cmds)) = cmds"
proof -
  let ?p = "\<lambda>c. replace_all c '' '' ''+''"
  have "\<forall>w \<in> set (map ?p cmds). CHR ''/'' \<notin> set w"
    using assms(2) by (auto simp: replace_all_char split: if_splits)
  then have sp: "split_on (CHR ''/'') (join ''/'' (map ?p cmds)) = map ?p cmds"
    using assms(1) by (simp add: split_on_join)
  have "trim_space (replace_all (?p c) ''+'' '' '') = c" if "c \<in> set cmds" for c
  proof -
    have "map ((\<lambda>x. if x = CHR ''+'' then CHR '' '' else x) \<circ> (\<lambda>x. if x = CHR '' '' then CHR ''+'' else x)) c = c"
      using assms(2) that by (intro map_idem_on) auto
    then show ?thesis using assms(2) that by (simp add: replace_all_char)
  qed
  then have m: "map (\<lambda>p. trim_space (replace_all p ''+'' '' '')) (map ?p cmds) = cmds"
    by (simp add: map_idem_on)
  show ?thesis unfolding path_commands_def sp m using assms(2) by (simp add: filter_id_conv)
qed

lemma body_commands_join:
  assumes "cmds \<noteq> []" "\<forall>c \<in> set cmds. NL \<notin> set c \<and> trim_space c = c \<and> c \<noteq> []"
  shows "body_commands (join [NL] cmds) = cmds"
proof -
  have sp: "split_on NL (join [NL] cmds) = cmds" using assms by (simp add: split_on_join)
  have m: "map trim_space cmds = cmds" using assms(2) by (intro map_idem_on) auto
  show ?thesis unfolding body_commands_def sp m using assms(2) by (simp add: filter_id_conv)
qed

text \<open>No command that reaches a runner is blank or carries surrounding white space.\<close>

lemma path_commands_trimmed:
  "c \<in> set (path_commands path) \<Longrightarrow> c \<noteq> [] \<and> trim_space c = c"
  by (auto simp: path_commands_def)

lemma body_commands_trimmed:
  "c \<in> set (body_commands body) \<Longrightarrow> c \<noteq> [] \<and> trim_space c = c"
  by (auto simp: body_commands_def)

lemma trim_lead_set: "set (trim_lead rs s) \<subseteq> set s"
  using trim_lead_suffix set_mono_suffix by blast

lemma trim_space_set: "set (trim_space s) \<subseteq> set s"
  using trim_lead_set[of "map rev space_runes" "rev (trim_lead space_runes s)"]
    trim_lead_set[of space_runes s]
  by (auto simp: trim_space_def)

lemma body_commands_no_NL: "c \<in> set (body_commands body) \<Longrightarrow> NL \<notin> set c"
  using trim_space_set split_on_no_sep by (fastforce simp: body_commands_def)

section \<open>Routing the two endpoints\<close>

lemma route_config:
  assumes "esc_path req = ''/admin/config''"
  shows "mux_route mux_patterns req = ToPattern ''/admin/config''"
proof -
  have "clean_path ''/admin/config'' = ''/admin/config''" by code_simp
  moreover have "find (\<lambda>pat. pattern_match pat ''/admin/config'') mux_patterns = Some ''/admin/config''"
    by code_simp
  ultimately show ?thesis using assms by (simp add: mux_route_def)
qed

lemma route_exec:
  assumes "esc_path req = ''/admin/exec/'' @ join ''/'' ss" "ss \<noteq> []" "list_all plain_seg ss"
  shows "mux_route mux_patterns req = ToPattern ''/admin/exec/''"
proof -
  have "esc_path req = CHR ''/'' # join ''/'' ([''admin'', ''exec''] @ ss)"
    using assms(1,2) by (simp add: join_Cons)
  then show ?thesis unfolding mux_patterns_def
    by (rule route_subtree) (use assms(2,3) in \<open>simp_all add: plain_seg_def\<close>)
qed

section \<open>The runner contract\<close>

text \<open>
  What a handler may expect of a runner in a good state: the outputs of the commands one after
  the other, no error, and a good state again.
\<close>

locale cmd_runner =
  fixes run :: "'s runner"
    and good :: "'s \<Rightarrow> bool"
    and exec1 :: "string \<Rightarrow> string"
    and runs :: "string \<Rightarrow> bool"
  assumes run_good: "good s \<Longrightarrow> \<forall>c \<in> set cmds. runs c \<Longrightarrow>
      \<exists>s'. run cmds s = ((concat (map exec1 cmds), None), s') \<and> good s'"
begin

lemma answer_good:
  "good s \<Longrightarrow> \<forall>c \<in> set cmds. runs c \<Longrightarrow>
     \<exists>s'. run_and_answer run cmds s = (Responded (ok_text (concat (map exec1 cmds))), s') \<and> good s'"
  using run_good[of s cmds] by (auto simp: run_and_answer_def)

lemma post_config:
  assumes "good s" "authorized user pass req" "req_method req = ''POST''"
    and "esc_path req = ''/admin/config''" "req_body req = Inr body"
    and "\<forall>c \<in> set (body_commands body). runs c"
  shows "\<exists>s'. mux user pass run req s =
           (Responded (ok_text (concat (map exec1 (body_commands body)))), s') \<and> good s'"
  using answer_good[OF assms(1,6)] assms(2-5)
  by (simp add: mux_def auth_middleware_authorized mux_serve_def route_config config_handler_def)

lemma get_exec:
  assumes "good s" "authorized user pass req" "cmds \<noteq> []"
    and path: "esc_path req = ''/admin/exec/'' @ join ''/'' ss" "list_all plain_seg ss" "ss \<noteq> []"
    and url: "url_path req = ''/admin/exec/'' @ rest" "rest \<noteq> []" "path_commands rest = cmds"
    and "\<forall>c \<in> set cmds. runs c"
  shows "\<exists>s'. mux user pass run req s =
           (Responded (ok_text (concat (map exec1 cmds))), s') \<and> good s'"
proof -
  have "mux user pass run req s = run_and_answer run cmds s"
    using assms(2) url(2,3) path
    by (simp add: mux_def auth_middleware_authorized mux_serve_def route_exec exec_handler_def
        url(1) Let_def del: append.simps)
  then show ?thesis using answer_good[OF assms(1) assms(10)] by simp
qed

end

end
