(* ===== verification/Lifecycle.thy ===== *)
theory Lifecycle
  imports Prelude
begin

text \<open>
  The part every server shares: an address, the listener once there is one, and whether a
  protocol server has been created. The listener is an opaque value; what the network, the key
  generation and the protocol libraries return are arguments of the operations.
\<close>

record 'l endpoint =
  ep_addr :: string
  ep_listener :: "'l option"
  ep_serving :: bool

text \<open>What a blocking \<open>Serve\<close> returns: the library's closed error, another error, nil.\<close>

datatype served = ServedClosed | ServedError string | ServedNil

definition serve_error :: "served \<Rightarrow> string option" where
  "serve_error r = (case r of ServedError e \<Rightarrow> Some e | _ \<Rightarrow> None)"

definition new_endpoint :: "string \<Rightarrow> 'l endpoint" where
  "new_endpoint addr = \<lparr>ep_addr = addr, ep_listener = None, ep_serving = False\<rparr>"

definition set_listener :: "'l \<Rightarrow> 'l endpoint \<Rightarrow> 'l endpoint" where
  "set_listener ln s = s\<lparr>ep_listener := Some ln\<rparr>"

definition addr_of :: "('l \<Rightarrow> string) \<Rightarrow> 'l endpoint \<Rightarrow> string" where
  "addr_of laddr s = (case ep_listener s of Some ln \<Rightarrow> laddr ln | None \<Rightarrow> [])"

text \<open>Close of a server that has a protocol server: nil before \<open>ListenAndServe\<close>.\<close>

definition close_srv :: "string option \<Rightarrow> 'l endpoint \<Rightarrow> string option" where
  "close_srv srv_close s = (if ep_serving s then srv_close else None)"

text \<open>Close of a server that only has a listener.\<close>

definition close_listener :: "('l \<Rightarrow> string option) \<Rightarrow> 'l endpoint \<Rightarrow> string option" where
  "close_listener ln_close s = (case ep_listener s of Some ln \<Rightarrow> ln_close ln | None \<Rightarrow> None)"

text \<open>
  \<open>ListenAndServeTLS\<close> and its kin: certificate, protocol server, listener unless one was set,
  serve. \<open>tls\<close> is the error of the certificate, \<open>net_listen\<close> the network, \<open>srv\<close> what
  serving on a listener returns.
\<close>

definition listen_and_serve ::
  "string option \<Rightarrow> (string \<Rightarrow> 'l result) \<Rightarrow> ('l \<Rightarrow> served) \<Rightarrow> 'l endpoint \<Rightarrow>
     string option \<times> 'l endpoint" where
  "listen_and_serve tls net_listen srv s =
     (case tls of
        Some e \<Rightarrow> (Some e, s)
      | None \<Rightarrow>
          let s1 = s\<lparr>ep_serving := True\<rparr>
          in case ep_listener s1 of
              Some ln \<Rightarrow> (serve_error (srv ln), s1)
            | None \<Rightarrow>
                (case net_listen (ep_addr s1) of
                   Inl e \<Rightarrow> (Some e, s1\<lparr>ep_listener := None\<rparr>)
                 | Inr ln \<Rightarrow> (serve_error (srv ln), s1\<lparr>ep_listener := Some ln\<rparr>)))"

text \<open>A listener that was set is the one served; the network is asked only without one.\<close>

lemma listen_given:
  "listen_and_serve None net_listen srv (set_listener ln s) =
     (serve_error (srv ln), set_listener ln s\<lparr>ep_serving := True\<rparr>)"
  by (simp add: listen_and_serve_def set_listener_def)

lemma listen_nil_iff:
  "fst (listen_and_serve tls net_listen srv s) = None \<longleftrightarrow>
     tls = None \<and> (\<exists>ln. (ep_listener s = Some ln \<or> ep_listener s = None \<and> net_listen (ep_addr s) = Inr ln)
       \<and> serve_error (srv ln) = None)"
  by (auto simp: listen_and_serve_def Let_def split: option.splits sum.splits)

lemma addr_before: "addr_of laddr (new_endpoint a) = []"
  by (simp add: addr_of_def new_endpoint_def)

lemma addr_set: "addr_of laddr (set_listener ln s) = laddr ln"
  by (simp add: addr_of_def set_listener_def)

lemma addr_after:
  "fst (listen_and_serve tls net_listen srv s) = None \<Longrightarrow>
     \<exists>ln. addr_of laddr (snd (listen_and_serve tls net_listen srv s)) = laddr ln"
  by (auto simp: listen_and_serve_def addr_of_def Let_def split: option.splits sum.splits)

end
