(* ===== verification/Device.thy ===== *)
theory Device
  imports GoSpace "HOL-Library.AList"
begin

text \<open>
  \<open>internal/device/device.go\<close>: the emulated device. A device is a table from full command
  names to canned responses, loaded once from a directory of transcript files; \<open>Exec\<close> looks a
  command line up, first exactly and then as a word-wise abbreviation.

  The Go map is an association list with distinct keys. Go iterates over a map in an
  unspecified order, so \<open>exec_ord\<close> takes the order as an argument; \<open>exec\<close> is the run in
  table order, and \<open>exec_order_irrelevant\<close> shows that the order never matters.
\<close>

record device =
  hostname :: string
  username :: string
  password :: string
  commands :: "(string \<times> string) list"
  transcript_dir :: string

section \<open>Loading\<close>

text \<open>A directory entry, with what reading the file would return.\<close>

record dirent =
  ent_name :: string
  ent_is_dir :: bool
  ent_data :: "string result"

definition hostname_mark :: string where
  "hostname_mark = ''{{.Hostname}}''"

definition is_transcript :: "dirent \<Rightarrow> bool" where
  "is_transcript e \<longleftrightarrow> \<not> (ent_is_dir e \<or> \<not> suffix ''.txt'' (ent_name e))"

definition command_of_file :: "string \<Rightarrow> string" where
  "command_of_file name = replace_all (trim_suffix name ''.txt'') ''_'' '' ''"

fun load_entries :: "device \<Rightarrow> dirent list \<Rightarrow> device result" where
  "load_entries d [] = Inr d"
| "load_entries d (e # es) =
     (if \<not> is_transcript e then load_entries d es
      else case ent_data e of
          Inl err \<Rightarrow> Inl err
        | Inr data \<Rightarrow>
            load_entries
              (d\<lparr>commands := AList.update (command_of_file (ent_name e))
                  (replace_all data hostname_mark (hostname d)) (commands d)\<rparr>) es)"

definition load_transcripts :: "device \<Rightarrow> dirent list result \<Rightarrow> device result" where
  "load_transcripts d dir =
     (case dir of
        Inl err \<Rightarrow> Inl (''reading transcript dir: '' @ err)
      | Inr entries \<Rightarrow> load_entries d entries)"

definition new_device ::
  "string \<Rightarrow> string \<Rightarrow> string \<Rightarrow> string \<Rightarrow> dirent list result \<Rightarrow> device result" where
  "new_device host user pass dirname dir =
     load_transcripts
       \<lparr>hostname = host, username = user, password = pass, commands = [], transcript_dir = dirname\<rparr>
       dir"

definition wf_device :: "device \<Rightarrow> bool" where
  "wf_device d \<longleftrightarrow> distinct (map fst (commands d))"

section \<open>Running a command\<close>

definition prefix_match :: "string \<Rightarrow> string \<Rightarrow> bool" where
  "prefix_match input full =
     (let iw = go_fields input; fw = go_fields full
      in if length iw \<noteq> length fw then False
         else list_all (\<lambda>(i, f). prefix i f) (zip iw fw))"

definition ambiguous_msg :: "string \<Rightarrow> string" where
  "ambiguous_msg input = ''% Ambiguous command: '' @ [DQ] @ input @ [DQ, NL]"

definition unknown_msg :: "string \<Rightarrow> string" where
  "unknown_msg input = ''% Unknown command: '' @ [DQ] @ input @ [DQ, NL]"

text \<open>
  The loop over the table: \<open>None\<close> when a second abbreviated command turns up, otherwise the
  one found, the empty string standing for none as in the code.
\<close>

fun prefix_scan :: "string \<Rightarrow> string \<Rightarrow> string list \<Rightarrow> string option" where
  "prefix_scan input found [] = Some found"
| "prefix_scan input found (cmd # cmds) =
     (if prefix_match input cmd
      then (if found \<noteq> [] then None else prefix_scan input cmd cmds)
      else prefix_scan input found cmds)"

definition exec_ord :: "device \<Rightarrow> string list \<Rightarrow> string \<Rightarrow> string" where
  "exec_ord d ord raw =
     (let input = trim_space raw
      in if input = [] then []
         else case map_of (commands d) input of
             Some resp \<Rightarrow> resp
           | None \<Rightarrow>
               (case prefix_scan input [] ord of
                  None \<Rightarrow> ambiguous_msg input
                | Some m \<Rightarrow>
                    if m \<noteq> []
                    then (case map_of (commands d) m of Some resp \<Rightarrow> resp | None \<Rightarrow> [])
                    else unknown_msg input))"

definition exec :: "device \<Rightarrow> string \<Rightarrow> string" where
  "exec d raw = exec_ord d (map fst (commands d)) raw"

definition command_names :: "device \<Rightarrow> string list" where
  "command_names d = map fst (commands d)"

section \<open>The device's contract\<close>

text \<open>
  What the device promises, without a scan: blank input prints nothing, a full command prints
  its response, and an abbreviation prints the response of the one command it abbreviates, or
  a complaint when it abbreviates none or several.
\<close>

definition matches :: "device \<Rightarrow> string \<Rightarrow> string set" where
  "matches d input = {cmd \<in> set (command_names d). prefix_match input cmd}"

definition exec_spec :: "device \<Rightarrow> string \<Rightarrow> string" where
  "exec_spec d raw =
     (let input = trim_space raw
      in if input = [] then []
         else if input \<in> set (command_names d) then the (map_of (commands d) input)
         else if card (matches d input) = 0 then unknown_msg input
         else if card (matches d input) = 1
           then the (map_of (commands d) (the_elem (matches d input)))
         else ambiguous_msg input)"

section \<open>Abbreviations\<close>

lemma prefix_match_iff: "prefix_match input full \<longleftrightarrow> list_all2 prefix (go_fields input) (go_fields full)"
  by (auto simp: prefix_match_def Let_def list_all2_iff list_all_iff)

lemma prefix_match_refl [simp]: "prefix_match c c"
  by (simp add: prefix_match_iff list_all2_prefix_refl)

lemma prefix_match_trans: "prefix_match a b \<Longrightarrow> prefix_match b c \<Longrightarrow> prefix_match a c"
  by (auto simp: prefix_match_iff intro: list_all2_prefix_trans)

lemma prefix_match_nonblank: "prefix_match input cmd \<Longrightarrow> trim_space input \<noteq> [] \<Longrightarrow> cmd \<noteq> []"
  by (auto simp: prefix_match_iff simp flip: fields_blank)

section \<open>The scan\<close>

lemma prefix_scan_found:
  "found \<noteq> [] \<Longrightarrow> prefix_scan input found ord =
     (if filter (prefix_match input) ord = [] then Some found else None)"
  by (induction ord) auto

lemma prefix_scan_filter:
  "trim_space input \<noteq> [] \<Longrightarrow> prefix_scan input [] ord =
     (case filter (prefix_match input) ord of
        [] \<Rightarrow> Some [] | [cmd] \<Rightarrow> Some cmd | _ \<Rightarrow> None)"
  by (induction ord)
    (auto simp: prefix_scan_found prefix_match_nonblank split: list.splits)

lemma matches_filter:
  assumes "distinct ord" "set ord = set (command_names d)"
  shows "matches d input = set (filter (prefix_match input) ord)"
    and "card (matches d input) = length (filter (prefix_match input) ord)"
proof -
  show eq: "matches d input = set (filter (prefix_match input) ord)"
    using assms by (auto simp: matches_def)
  show "card (matches d input) = length (filter (prefix_match input) ord)"
    unfolding eq using assms by (intro distinct_card) simp
qed

lemma command_names_map_of: "cmd \<in> set (command_names d) \<longleftrightarrow> map_of (commands d) cmd \<noteq> None"
  by (simp add: command_names_def map_of_eq_None_iff)

lemma exec_order_irrelevant:
  assumes "distinct ord" "set ord = set (command_names d)"
  shows "exec_ord d ord raw = exec_spec d raw"
proof (cases "trim_space raw = [] \<or> trim_space raw \<in> set (command_names d)")
  case True
  then show ?thesis
    by (auto simp: exec_ord_def exec_spec_def Let_def command_names_map_of)
next
  case False
  let ?in = "trim_space raw"
  let ?F = "filter (prefix_match ?in) ord"
  from False have ne: "trim_space ?in \<noteq> []" and None: "map_of (commands d) ?in = None"
    by (auto simp: command_names_map_of)
  have known: "map_of (commands d) cmd \<noteq> None" if "cmd \<in> set ?F" for cmd
    using that assms(2) by (auto simp: command_names_map_of)
  note scan = exec_ord_def exec_spec_def Let_def prefix_scan_filter matches_filter[OF assms, of ?in]
  consider "?F = []" | cmd where "?F = [cmd]" | a b cs where "?F = a # b # cs"
    by (metis neq_Nil_conv)
  then show ?thesis
  proof cases
    case 1
    then show ?thesis using False None ne by (simp add: scan)
  next
    case 2
    then have cmd: "prefix_match ?in cmd" "cmd \<in> set ?F" by (auto simp: filter_eq_Cons_iff)
    then have "cmd \<noteq> []" using ne by (auto dest: prefix_match_nonblank)
    then show ?thesis using 2 False None ne known[OF cmd(2)] by (auto simp: scan)
  next
    case 3
    then have "card (matches d ?in) = Suc (Suc (length cs))"
      using matches_filter(2)[OF assms, of ?in] by simp
    then show ?thesis using 3 False None ne
      by (simp add: exec_ord_def exec_spec_def Let_def prefix_scan_filter)
  qed
qed

definition sample_device :: device where
  "sample_device = \<lparr>hostname = ''rtr'', username = ''admin'', password = ''admin'',
     commands = [(''show version'', ''v1''), (''show clock'', ''noon'')], transcript_dir = ''t''\<rparr>"

text \<open>The abbreviated command may be given by its words.\<close>

lemma exec_is_spec: "wf_device d \<Longrightarrow> exec d raw = exec_spec d raw"
  by (simp add: exec_def exec_order_irrelevant wf_device_def command_names_def)

lemma exec_abbreviation_is:
  assumes "wf_device d" "map_of (commands d) cmd = Some resp"
    and "list_all2 prefix ws (go_fields cmd)" "\<forall>w \<in> set ws. is_word w" "ws \<noteq> []"
    and only: "\<And>c. c \<in> set (command_names d) \<Longrightarrow> list_all2 prefix ws (go_fields c) \<Longrightarrow> c = cmd"
  shows "exec d (join '' '' ws) = resp"
proof -
  let ?in = "join '' '' ws"
  have t: "trim_space ?in = ?in" by (rule trim_space_words) (fact assms)+
  have f: "go_fields ?in = ws" by (rule fields_join) (fact assms)
  then have ne: "?in \<noteq> []" using assms(5) by force
  have cmd: "cmd \<in> set (command_names d)" using assms(2) by (simp add: command_names_map_of)
  have pm: "prefix_match ?in c \<longleftrightarrow> list_all2 prefix ws (go_fields c)" for c
    by (simp only: prefix_match_iff f)
  have "c \<in> matches d ?in \<longleftrightarrow> c = cmd" for c
    unfolding matches_def pm mem_Collect_eq using cmd assms(3) only by blast
  then have M: "matches d ?in = {cmd}" by blast
  show ?thesis
  proof (cases "?in \<in> set (command_names d)")
    case True
    then have "?in = cmd" by (rule only) (simp only: f list_all2_prefix_refl)
    then show ?thesis using True ne t assms(1,2) by (simp add: exec_is_spec exec_spec_def)
  next
    case False
    then show ?thesis using ne t assms(1,2) by (simp add: exec_is_spec exec_spec_def M)
  qed
qed

section \<open>What loading puts in the table\<close>

fun transcript_pairs :: "string \<Rightarrow> dirent list \<Rightarrow> (string \<times> string) list" where
  "transcript_pairs host [] = []"
| "transcript_pairs host (e # es) =
     (if is_transcript e
      then (case ent_data e of Inl _ \<Rightarrow> []
        | Inr data \<Rightarrow> [(command_of_file (ent_name e), replace_all data hostname_mark host)])
      else []) @ transcript_pairs host es"

lemma transcript_pairs_append:
  "transcript_pairs host (xs @ ys) = transcript_pairs host xs @ transcript_pairs host ys"
  by (induction xs) auto

lemma load_entries_frame [frame]:
  "load_entries d es = Inr d' \<Longrightarrow> hostname d' = hostname d \<and> username d' = username d
     \<and> password d' = password d \<and> transcript_dir d' = transcript_dir d"
  by (induction d es rule: load_entries.induct) (auto split: if_splits sum.splits)

lemma load_entries_wf: "wf_device d \<Longrightarrow> load_entries d es = Inr d' \<Longrightarrow> wf_device d'"
  by (induction d es rule: load_entries.induct)
    (auto simp: wf_device_def distinct_update split: if_splits sum.splits)

lemma new_device_wf: "new_device host user pass dirname dir = Inr d \<Longrightarrow> wf_device d"
  by (auto simp: new_device_def load_transcripts_def wf_device_def split: sum.splits
      dest: load_entries_wf[rotated])

lemma load_entries_table:
  "load_entries d es = Inr d' \<Longrightarrow>
     map_of (commands d') = map_of (commands d) ++ map_of (rev (transcript_pairs (hostname d) es))"
  by (induction d es rule: load_entries.induct)
    (auto simp: update_conv' map_add_def fun_eq_iff split: if_splits sum.splits option.splits)

text \<open>After \<open>New\<close>, each transcript answers its command, with the hostname filled in.\<close>

lemma new_device_answers:
  assumes new: "new_device host user pass dirname (Inr (before @ e # after)) = Inr d"
    and e: "is_transcript e" "ent_data e = Inr data" "command_of_file (ent_name e) = cmd"
    and last: "cmd \<notin> fst ` set (transcript_pairs host after)"
    and raw: "trim_space raw = cmd" "cmd \<noteq> []"
  shows "exec d raw = replace_all data hostname_mark host"
proof -
  let ?A = "transcript_pairs host after"
  let ?B = "transcript_pairs host before"
  let ?v = "replace_all data hostname_mark host"
  have "transcript_pairs host (before @ e # after) = ?B @ (cmd, ?v) # ?A"
    using e by (simp add: transcript_pairs_append)
  then have "map_of (commands d) = map_of (rev ?A @ (cmd, ?v) # rev ?B)"
    using new load_entries_table by (fastforce simp: new_device_def load_transcripts_def)
  moreover have "map_of (rev ?A) cmd = None" using last by (simp add: map_of_eq_None_iff)
  ultimately have "map_of (commands d) cmd = Some ?v" by (simp add: map_add_def)
  moreover have "wf_device d" using new by (rule new_device_wf)
  ultimately show ?thesis using raw
    by (simp add: exec_is_spec exec_spec_def command_names_map_of)
qed

text \<open>Loading fails exactly at the first transcript that cannot be read.\<close>

definition unreadable :: "dirent \<Rightarrow> bool" where
  "unreadable e \<longleftrightarrow> is_transcript e \<and> \<not> is_ok (ent_data e)"

lemma load_entries_eq:
  "load_entries d es =
     (case find unreadable es of
        Some e \<Rightarrow> Inl (projl (ent_data e))
      | None \<Rightarrow> Inr (d\<lparr>commands :=
          fold (\<lambda>(cmd, resp). AList.update cmd resp) (transcript_pairs (hostname d) es) (commands d)\<rparr>))"
  by (induction d es rule: load_entries.induct)
    (auto simp: unreadable_def split: sum.splits option.splits)

end
