(* ===== verification/SshUtil.thy ===== *)
theory SshUtil
  imports Lifecycle
begin

text \<open>
  \<open>internal/sshutil/sshutil.go\<close>: the scaffolding the SSH servers share (password callback,
  accept loop, per-connection channel loop, listener choice), and the requests and channel
  actions every SSH session handler speaks in. The SSH protocol engine itself is
  \<open>golang.org/x/crypto/ssh\<close>, which is not part of the repository: what arrives from it (accepted
  connections, channels, requests, input bytes) is an argument of the definitions.
\<close>

section \<open>Sessions as seen by a handler\<close>

record ssh_request =
  req_type :: string
  req_payload :: string
  req_want_reply :: bool

text \<open>
  What a handler does to its channel, in order: call \<open>Reply\<close>, write bytes, send the exit
  status, close. One \<open>Out\<close> is one call of \<open>Write\<close> or \<open>io.WriteString\<close>.
\<close>

datatype chan_act = Reply bool | Out string | ExitStatus string | CloseCh

definition exit_zero :: chan_act where
  "exit_zero = ExitStatus [CHR 0x00, CHR 0x00, CHR 0x00, CHR 0x00]"

fun written :: "chan_act list \<Rightarrow> string" where
  "written [] = []"
| "written (Out s # as) = s @ written as"
| "written (_ # as) = written as"

lemma written_append [simp]: "written (as @ bs) = written as @ written bs"
  by (induction as rule: written.induct) auto

lemma written_map_Out [simp]: "written (map Out ss) = concat ss"
  by (induction ss) auto

lemma written_exit_zero [simp]: "written (exit_zero # as) = written as"
  by (simp add: exit_zero_def)

section \<open>Password authentication\<close>

text \<open>\<open>None\<close> is the nil error of a successful login.\<close>

definition password_callback :: "string \<Rightarrow> string \<Rightarrow> string \<Rightarrow> string \<Rightarrow> string option" where
  "password_callback user pass conn_user p =
     (if conn_user = user \<and> p = pass then None else Some ''auth failed'')"

section \<open>The accept loop\<close>

text \<open>
  What successive calls of \<open>Accept\<close> return: a connection, or an error together with whether
  it is \<open>net.ErrClosed\<close>.
\<close>

datatype 'c accepted = Accepted 'c | AcceptError bool string

datatype serve_end = StillServing | ServeNil | ServeError string

fun serve :: "'c accepted list \<Rightarrow> 'c list \<times> serve_end" where
  "serve [] = ([], StillServing)"
| "serve (Accepted c # rest) = (let (cs, e) = serve rest in (c # cs, e))"
| "serve (AcceptError closed msg # rest) = ([], if closed then ServeNil else ServeError msg)"

section \<open>The channels of one connection\<close>

record 'ch new_channel =
  chan_type :: string
  chan_accept :: "'ch result"

datatype 'ch chan_fate = Rejected | AcceptFailed | Dispatched 'ch

text \<open>
  \<open>handleConn\<close>: \<open>None\<close> when the handshake fails, otherwise what happens to each channel
  the peer opens. Dispatched channels run the session handler concurrently.
\<close>

definition channel_fate :: "'ch new_channel \<Rightarrow> 'ch chan_fate" where
  "channel_fate nc =
     (if chan_type nc \<noteq> ''session'' then Rejected
      else case chan_accept nc of Inl _ \<Rightarrow> AcceptFailed | Inr ch \<Rightarrow> Dispatched ch)"

definition handle_conn :: "string option \<Rightarrow> 'ch new_channel list \<Rightarrow> 'ch chan_fate list option" where
  "handle_conn handshake_err chans =
     (case handshake_err of Some _ \<Rightarrow> None | None \<Rightarrow> Some (map channel_fate chans))"

section \<open>Choosing the listener\<close>

definition listen :: "'l option \<Rightarrow> 'l result \<Rightarrow> 'l result" where
  "listen given net_listen = (case given of Some ln \<Rightarrow> Inr ln | None \<Rightarrow> net_listen)"

text \<open>What the SSH servers' \<open>ListenAndServe\<close> share: listen unless a listener was set, serve.\<close>

definition ssh_listen_and_serve ::
  "(string \<Rightarrow> 'l result) \<Rightarrow> ('l \<Rightarrow> served) \<Rightarrow> 'l endpoint \<Rightarrow> string option \<times> 'l endpoint" where
  "ssh_listen_and_serve net_listen srv s =
     (case listen (ep_listener s) (net_listen (ep_addr s)) of
        Inl e \<Rightarrow> (Some e, s)
      | Inr ln \<Rightarrow> (serve_error (srv ln), s\<lparr>ep_listener := Some ln\<rparr>))"

section \<open>Lemmas\<close>

lemma serve_accepts:
  "serve (map Accepted cs @ AcceptError closed msg # rest) =
     (cs, if closed then ServeNil else ServeError msg)"
  by (induction cs) auto

lemma serve_nil_iff:
  "snd (serve evs) = ServeNil \<longleftrightarrow>
     (\<exists>cs msg rest. evs = map Accepted cs @ AcceptError True msg # rest)"
proof
  assume "snd (serve evs) = ServeNil"
  then show "\<exists>cs msg rest. evs = map Accepted cs @ AcceptError True msg # rest"
  proof (induction evs rule: serve.induct)
    case (2 c rest)
    then obtain cs msg r where "rest = map Accepted cs @ AcceptError True msg # r"
      by (auto simp: split_beta Let_def)
    then show ?case by (intro exI[of _ "c # cs"]) auto
  next
    case (3 closed msg rest)
    then have "AcceptError closed msg # rest = map Accepted [] @ AcceptError True msg # rest"
      by (auto split: if_splits)
    then show ?case by blast
  qed simp
qed (auto simp: serve_accepts)

end
