(* ===== verification/SshServer.thy ===== *)
theory SshServer
  imports Device SshUtil
begin

text \<open>
  \<open>internal/sshserver/server.go\<close>: the device behind SSH. An exec request runs the lines of
  its payload; a shell request starts the line-editing terminal session.
\<close>

section \<open>The server\<close>

definition ss_close :: "('l \<Rightarrow> string option) \<Rightarrow> 'l endpoint \<Rightarrow> string option" where
  "ss_close ln_close s = close_listener ln_close s"

definition ss_listen_and_serve ::
  "(string \<Rightarrow> 'l result) \<Rightarrow> ('l \<Rightarrow> served) \<Rightarrow> 'l endpoint \<Rightarrow> string option \<times> 'l endpoint" where
  "ss_listen_and_serve net_listen srv s = ssh_listen_and_serve net_listen srv s"

section \<open>The interactive session\<close>

definition prompt_of :: "device \<Rightarrow> string" where
  "prompt_of dev = hostname dev @ ''#''"

definition rubout :: string where
  "rubout = [CHR 0x08, CHR '' '', CHR 0x08]"

text \<open>
  One input byte: the writes it causes and the new line buffer, \<open>None\<close> when the session
  returns.
\<close>

definition pty_byte :: "device \<Rightarrow> string \<Rightarrow> char \<Rightarrow> string list \<times> string option" where
  "pty_byte dev line b =
     (if b = CR \<or> b = NL then
        (let cmd = trim_space line
         in if cmd = ''exit'' \<or> cmd = ''quit'' then ([[CR, NL]], None)
            else ([[CR, NL]] @ (if cmd \<noteq> [] then [exec dev cmd] else []) @ [prompt_of dev], Some []))
      else if b = CHR 0x7F \<or> b = CHR 0x08 then
        (if length line > 0 then ([rubout], Some (take (length line - 1) line)) else ([], Some line))
      else ([[b]], Some (line @ [b])))"

text \<open>The inner loop over the bytes of one read.\<close>

fun pty_bytes :: "device \<Rightarrow> string \<Rightarrow> string \<Rightarrow> string list \<times> string option" where
  "pty_bytes dev line [] = ([], Some line)"
| "pty_bytes dev line (b # bs) =
     (case pty_byte dev line b of
        (ws, None) \<Rightarrow> (ws, None)
      | (ws, Some line') \<Rightarrow> (let (ws', l) = pty_bytes dev line' bs in (ws @ ws', l)))"

text \<open>
  The outer loop: what each \<open>Read\<close> returns, until it fails (the end of the list) or the
  session returns.
\<close>

fun pty_reads :: "device \<Rightarrow> string \<Rightarrow> string list \<Rightarrow> string list" where
  "pty_reads dev line [] = []"
| "pty_reads dev line (chunk # chunks) =
     (case pty_bytes dev line chunk of
        (ws, None) \<Rightarrow> ws
      | (ws, Some line') \<Rightarrow> ws @ pty_reads dev line' chunks)"

definition interactive_session :: "device \<Rightarrow> string list \<Rightarrow> string list" where
  "interactive_session dev chunks = prompt_of dev # pty_reads dev [] chunks"

section \<open>The session handler\<close>

definition exec_payload :: "string \<Rightarrow> string" where
  "exec_payload payload = (if length payload > 4 then drop 4 payload else [])"

definition run_line :: "device \<Rightarrow> string \<Rightarrow> string" where
  "run_line dev line = (let cmd = trim_space line in if cmd \<noteq> [] then exec dev cmd else [])"

definition exec_lines :: "device \<Rightarrow> string \<Rightarrow> string" where
  "exec_lines dev exec_cmd = concat (map (run_line dev) (split_on NL exec_cmd))"

fun handle_session :: "device \<Rightarrow> ssh_request list \<Rightarrow> string list \<Rightarrow> chan_act list" where
  "handle_session dev [] chunks = [CloseCh]"
| "handle_session dev (req # reqs) chunks =
     (if req_type req = ''pty-req'' \<or> req_type req = ''window-change''
        then Reply True # handle_session dev reqs chunks
      else if req_type req = ''shell''
        then Reply True # map Out (interactive_session dev chunks) @ [CloseCh]
      else if req_type req = ''exec''
        then (let exec_cmd = exec_payload (req_payload req)
              in Reply True # (if exec_cmd \<noteq> [] then [Out (exec_lines dev exec_cmd)] else [])
                 @ [exit_zero, CloseCh])
      else Reply False # handle_session dev reqs chunks)"

section \<open>The terminal session\<close>

lemma pty_bytes_append:
  "pty_bytes dev line (xs @ ys) =
     (case pty_bytes dev line xs of
        (ws, None) \<Rightarrow> (ws, None)
      | (ws, Some line') \<Rightarrow> (let (ws', l) = pty_bytes dev line' ys in (ws @ ws', l)))"
  by (induction xs arbitrary: line) (auto simp: Let_def split: prod.splits option.splits)

text \<open>Reads deliver the input in pieces of any size; the writes do not depend on the pieces.\<close>

lemma pty_reads_concat: "pty_reads dev line chunks = fst (pty_bytes dev line (concat chunks))"
  by (induction chunks arbitrary: line)
    (auto simp: pty_bytes_append Let_def split: prod.splits option.splits)

lemma interactive_session_stream:
  "interactive_session dev chunks = prompt_of dev # fst (pty_bytes dev [] (concat chunks))"
  by (simp add: interactive_session_def pty_reads_concat)

definition is_control :: "char \<Rightarrow> bool" where
  "is_control b \<longleftrightarrow> b \<in> {CR, NL, CHR 0x7F, CHR 0x08}"

lemma pty_byte_plain: "\<not> is_control b \<Longrightarrow> pty_byte dev line b = ([[b]], Some (line @ [b]))"
  by (auto simp: pty_byte_def is_control_def)

lemma pty_bytes_plain:
  "list_all (\<lambda>b. \<not> is_control b) xs \<Longrightarrow>
     pty_bytes dev line xs = (map (\<lambda>b. [b]) xs, Some (line @ xs))"
  by (induction xs arbitrary: line) (auto simp: pty_byte_plain)

text \<open>Typing a byte and rubbing it out leaves the line as it was.\<close>

lemma pty_rubout:
  "\<not> is_control b \<Longrightarrow> pty_bytes dev line [b, CHR 0x08] = ([[b], rubout], Some line)"
  by (simp add: pty_byte_plain) (simp add: pty_byte_def)

text \<open>What the terminal shows for one typed line, and for a session of lines.\<close>

definition leaves :: "string \<Rightarrow> bool" where
  "leaves line \<longleftrightarrow> trim_space line = ''exit'' \<or> trim_space line = ''quit''"

lemma exec_blank: "trim_space cmd = [] \<Longrightarrow> exec dev cmd = []"
  by (simp add: exec_def exec_ord_def)

lemma exec_trim: "exec dev (trim_space cmd) = exec dev cmd"
  by (simp add: exec_def exec_ord_def)

lemma run_line_exec: "run_line dev line = exec dev line"
  by (simp add: run_line_def Let_def exec_trim exec_blank)

lemma pty_line:
  assumes "list_all (\<lambda>b. \<not> is_control b) line" "\<not> leaves line"
  shows "pty_bytes dev [] (line @ NL # rest) =
     (map (\<lambda>b. [b]) line @ [[CR, NL]] @ (if trim_space line \<noteq> [] then [exec dev line] else [])
        @ [prompt_of dev] @ fst (pty_bytes dev [] rest), snd (pty_bytes dev [] rest))"
  using assms
  by (simp add: pty_bytes_append pty_bytes_plain)
    (auto simp: pty_byte_def leaves_def Let_def exec_trim split: prod.splits)

fun typed_lines :: "string list \<Rightarrow> string" where
  "typed_lines [] = []"
| "typed_lines (l # ls) = l @ NL # typed_lines ls"

definition shown_line :: "device \<Rightarrow> string \<Rightarrow> string" where
  "shown_line dev line = line @ [CR, NL] @ exec dev line @ prompt_of dev"

lemma pty_lines:
  assumes "\<forall>l \<in> set ls. list_all (\<lambda>b. \<not> is_control b) l \<and> \<not> leaves l"
  shows "concat (fst (pty_bytes dev [] (typed_lines ls @ rest))) =
     concat (map (shown_line dev) ls) @ concat (fst (pty_bytes dev [] rest))"
  using assms
proof (induction ls)
  case (Cons l ls)
  have "concat (map (\<lambda>b. [b]) l) = l" by (induction l) auto
  with Cons show ?case by (simp add: pty_line shown_line_def exec_blank)
qed simp

lemma pty_exit:
  assumes "list_all (\<lambda>b. \<not> is_control b) line" "leaves line"
  shows "pty_bytes dev [] (line @ NL # rest) = (map (\<lambda>b. [b]) line @ [[CR, NL]], None)"
  using assms
  by (simp add: pty_bytes_append pty_bytes_plain) (auto simp: pty_byte_def leaves_def)

text \<open>A whole terminal session, however the input is cut into reads.\<close>

lemma interactive_session_lines:
  assumes ls: "\<forall>l \<in> set ls. list_all (\<lambda>b. \<not> is_control b) l \<and> \<not> leaves l"
    and bye: "list_all (\<lambda>b. \<not> is_control b) bye" "leaves bye"
    and input: "concat chunks = typed_lines ls @ bye @ NL # ignored"
  shows "concat (interactive_session dev chunks) =
     prompt_of dev @ concat (map (shown_line dev) ls) @ bye @ [CR, NL]"
proof -
  have "concat (map (\<lambda>b. [b]) bye) = bye" by (induction bye) auto
  then show ?thesis
    by (simp add: interactive_session_stream input pty_lines[OF ls] pty_exit[OF bye])
qed

section \<open>Exec sessions\<close>

lemma exec_lines_concat: "exec_lines dev cmds = concat (map (exec dev) (split_on NL cmds))"
  by (simp add: exec_lines_def run_line_exec[abs_def])

text \<open>A payload of several commands prints what the commands print one by one.\<close>

lemma exec_lines_join:
  "cmds \<noteq> [] \<Longrightarrow> \<forall>c \<in> set cmds. NL \<notin> set c \<Longrightarrow>
     exec_lines dev (join [NL] cmds) = concat (map (exec dev) cmds)"
  by (simp add: exec_lines_concat split_on_join)

lemma exec_lines_single: "NL \<notin> set cmd \<Longrightarrow> exec_lines dev cmd = exec dev cmd"
  using exec_lines_join[of "[cmd]"] by simp

lemma handle_session_exec:
  "req_type req = ''exec'' \<Longrightarrow>
     written (handle_session dev (req # reqs) chunks) = exec_lines dev (exec_payload (req_payload req))"
  by (simp add: exec_lines_concat Let_def exec_blank)

text \<open>
  Every request up to and including the one that starts the session is answered, none after it,
  and the channel is closed exactly once, last.
\<close>

definition starts :: "ssh_request \<Rightarrow> bool" where
  "starts req \<longleftrightarrow> req_type req = ''shell'' \<or> req_type req = ''exec''"

definition accepts :: "ssh_request \<Rightarrow> bool" where
  "accepts req \<longleftrightarrow> starts req \<or> req_type req = ''pty-req'' \<or> req_type req = ''window-change''"

fun replies :: "chan_act list \<Rightarrow> bool list" where
  "replies [] = []"
| "replies (Reply b # as) = b # replies as"
| "replies (_ # as) = replies as"

lemma replies_append [simp]: "replies (as @ bs) = replies as @ replies bs"
  by (induction as rule: replies.induct) auto

lemma replies_map_Out [simp]: "replies (map Out ss) = []"
  by (induction ss) auto

lemma replies_exit [simp]: "replies (exit_zero # as) = replies as"
  by (simp add: exit_zero_def)

fun up_to_start :: "ssh_request list \<Rightarrow> ssh_request list" where
  "up_to_start [] = []"
| "up_to_start (r # rs) = (if starts r then [r] else r # up_to_start rs)"

lemma handle_session_replies:
  "replies (handle_session dev reqs chunks) = map accepts (up_to_start reqs)"
  by (induction dev reqs chunks rule: handle_session.induct)
    (auto simp: starts_def accepts_def Let_def)

lemma handle_session_closes:
  "\<exists>as. handle_session dev reqs chunks = as @ [CloseCh] \<and> CloseCh \<notin> set as"
proof (induction dev reqs chunks rule: handle_session.induct)
  case (2 dev req reqs chunks)
  have Cons: "\<exists>as. Reply b # xs = as @ [CloseCh] \<and> CloseCh \<notin> set as"
    if "\<exists>as. xs = as @ [CloseCh] \<and> CloseCh \<notin> set as" for b xs
    using that by (metis append_Cons chan_act.distinct(5) set_ConsD)
  show ?case
    using 2 by (auto simp: Let_def exit_zero_def intro!: Cons)
qed simp

end
