(* ===== verification/HttpServer.thy ===== *)
theory HttpServer
  imports HttpHandler Lifecycle SshServer
begin

text \<open>
  \<open>internal/httpserver/server.go\<close> and \<open>internal/http3server/server.go\<close>: the device behind
  HTTPS and HTTP/3. Both run a command list on the device through the same handler. The theory
  also interprets the runner contract on the device, so that what the handlers promise holds of
  these servers.
\<close>

text \<open>\<open>deviceRunner.RunCommands\<close>: the builder collects what each command prints.\<close>

fun device_output :: "device \<Rightarrow> string \<Rightarrow> string list \<Rightarrow> string" where
  "device_output dev out [] = out"
| "device_output dev out (cmd # cmds) = device_output dev (out @ exec dev cmd) cmds"

definition device_runner :: "device \<Rightarrow> 's runner" where
  "device_runner dev cmds s = ((device_output dev [] cmds, None), s)"

definition http_mux :: "device \<Rightarrow> 's handler" where
  "http_mux dev = mux (username dev) (password dev) (device_runner dev)"

definition http_close :: "string option \<Rightarrow> 'l endpoint \<Rightarrow> string option" where
  "http_close srv_close s = close_srv srv_close s"

definition http_listen_and_serve_tls ::
  "string option \<Rightarrow> (string \<Rightarrow> 'l result) \<Rightarrow> ('l \<Rightarrow> served) \<Rightarrow> 'l endpoint \<Rightarrow>
     string option \<times> 'l endpoint" where
  "http_listen_and_serve_tls tls net_listen srv s = listen_and_serve tls net_listen srv s"

text \<open>HTTP/3 has its own copies, over a packet connection.\<close>

fun h3_device_output :: "device \<Rightarrow> string \<Rightarrow> string list \<Rightarrow> string" where
  "h3_device_output dev out [] = out"
| "h3_device_output dev out (cmd # cmds) = h3_device_output dev (out @ exec dev cmd) cmds"

definition h3_device_runner :: "device \<Rightarrow> 's runner" where
  "h3_device_runner dev cmds s = ((h3_device_output dev [] cmds, None), s)"

definition h3_mux :: "device \<Rightarrow> 's handler" where
  "h3_mux dev = mux (username dev) (password dev) (h3_device_runner dev)"

definition h3_close :: "string option \<Rightarrow> 'l endpoint \<Rightarrow> string option" where
  "h3_close srv_close s = close_srv srv_close s"

text \<open>The HTTP/3 library has no closed-error value: the text of the error is compared.\<close>

definition h3_served :: "string option \<Rightarrow> served" where
  "h3_served err =
     (case err of
        None \<Rightarrow> ServedNil
      | Some e \<Rightarrow> if e = ''server closed'' then ServedClosed else ServedError e)"

definition h3_listen_and_serve ::
  "string option \<Rightarrow> (string \<Rightarrow> 'l result) \<Rightarrow> ('l \<Rightarrow> string option) \<Rightarrow> 'l endpoint \<Rightarrow>
     string option \<times> 'l endpoint" where
  "h3_listen_and_serve tls net_listen srv s = listen_and_serve tls net_listen (h3_served \<circ> srv) s"

section \<open>The runner contract\<close>

lemma device_output_concat: "device_output dev out cmds = out @ concat (map (exec dev) cmds)"
  by (induction dev out cmds rule: device_output.induct) auto

lemma h3_device_output_concat: "h3_device_output dev out cmds = out @ concat (map (exec dev) cmds)"
  by (induction dev out cmds rule: h3_device_output.induct) auto

interpretation https_runner: cmd_runner "device_runner dev" "\<lambda>_. True" "exec dev" "\<lambda>_. True"
  for dev :: device
  by unfold_locales (simp add: device_runner_def device_output_concat)

interpretation h3_runner: cmd_runner "h3_device_runner dev" "\<lambda>_. True" "exec dev" "\<lambda>_. True"
  for dev :: device
  by unfold_locales (simp add: h3_device_runner_def h3_device_output_concat)

text \<open>
  The commands of a body, run one by one, print what the same text prints as an SSH exec payload.
\<close>

lemma exec_body_commands: "concat (map (exec dev) (body_commands body)) = exec_lines dev body"
proof -
  have nb: "(if trim_space c \<noteq> [] then exec dev c else []) = exec dev c" for c
    by (simp add: exec_blank)
  show ?thesis
    unfolding body_commands_def filter_map map_map comp_def exec_trim concat_map_filter nb
    by (simp add: exec_lines_concat)
qed

lemma http_post_config:
  assumes "authorized (username dev) (password dev) req" "req_method req = ''POST''"
    and "esc_path req = ''/admin/config''" "req_body req = Inr body"
  shows "http_mux dev req s = (Responded (ok_text (exec_lines dev body)), s)"
proof -
  have "http_mux dev req s = run_and_answer (device_runner dev) (body_commands body) s"
    using assms by (simp add: http_mux_def mux_def auth_middleware_authorized mux_serve_def
        route_config config_handler_def)
  then show ?thesis
    by (simp add: run_and_answer_def device_runner_def device_output_concat exec_body_commands)
qed

lemma h3_runner_eq: "h3_device_runner dev = device_runner dev"
  by (simp add: fun_eq_iff h3_device_runner_def device_runner_def device_output_concat
      h3_device_output_concat)

lemma h3_is_https: "h3_mux dev = http_mux dev"
  by (simp add: h3_mux_def http_mux_def h3_runner_eq)

end
