(* ===== verification/GoNumbers.thy ===== *)
theory GoNumbers
  imports GoStrings
begin

text \<open>
  Decimal numbers: \<open>strconv.Atoi\<close> reads back what \<open>%d\<close> prints, and what \<open>%d\<close> prints is
  made of digits only.
\<close>

definition is_digit :: "char \<Rightarrow> bool" where
  "is_digit c \<longleftrightarrow> digit_val c \<noteq> None"

lemma of_char_digit: "d < 10 \<Longrightarrow> (of_char (digit_char d) :: nat) = 48 + d"
  by (simp add: digit_char_def of_char_of)

lemma digit_val_char [simp]: "d < 10 \<Longrightarrow> digit_val (digit_char d) = Some d"
  by (simp add: digit_val_def of_char_digit)

lemma digits_val_append:
  "digits_val acc (xs @ ys) = (case digits_val acc xs of None \<Rightarrow> None | Some m \<Rightarrow> digits_val m ys)"
  by (induction acc xs rule: digits_val.induct) (auto split: option.splits)

lemma digits_val_dec: "digits_val 0 (dec n) = Some n"
proof (induction n rule: dec.induct)
  case (1 n)
  then show ?case
    by (subst dec.simps) (auto simp: digits_val_append)
qed

lemma dec_not_Nil [simp]: "dec n \<noteq> []"
  by (subst dec.simps) auto

lemma is_digit_char [simp]: "d < 10 \<Longrightarrow> is_digit (digit_char d)"
  by (simp add: is_digit_def)

lemma dec_digits: "list_all is_digit (dec n)"
proof (induction n rule: dec.induct)
  case (1 n)
  then show ?case
    by (subst dec.simps) auto
qed

lemma digits_val_digits: "list_all is_digit ds \<Longrightarrow> \<exists>n. digits_val acc ds = Some n"
  by (induction acc ds rule: digits_val.induct) (auto simp: is_digit_def)

lemma not_digit [simp]:
  "\<not> is_digit (CHR ''-'')" "\<not> is_digit (CHR ''+'')" "\<not> is_digit (CHR ''#'')" "\<not> is_digit (CHR 0x0A)"
  "\<not> is_digit (CHR '' '')" "\<not> is_digit (CHR ''<'')" "\<not> is_digit (CHR ''>'')" "\<not> is_digit (CHR '':'')"
  by (simp_all add: is_digit_def digit_val_def)

lemma dec_no: "\<not> is_digit c \<Longrightarrow> c \<notin> set (dec n)"
  using dec_digits[of n] by (auto simp: list_all_iff)

lemma atoi_digits:
  "list_all is_digit ds \<Longrightarrow> ds \<noteq> [] \<Longrightarrow>
     atoi ds = (case digits_val 0 ds of None \<Rightarrow> None
       | Some n \<Rightarrow> if int64_range (int n) then Some (int n) else None)"
proof -
  assume ds: "list_all is_digit ds" "ds \<noteq> []"
  then obtain c cs where c: "ds = c # cs" "is_digit c" by (cases ds) auto
  then have "c \<noteq> CHR ''-''" "c \<noteq> CHR ''+''" by auto
  then show ?thesis by (auto simp: atoi_def c(1) Let_def split: option.splits)
qed

lemma atoi_dec: "n < 2 ^ 63 \<Longrightarrow> atoi (dec n) = Some (int n)"
proof -
  assume n: "n < 2 ^ 63"
  then have "int n < 2 ^ 63" by (metis of_nat_less_iff of_nat_numeral of_nat_power)
  then show ?thesis
    by (simp add: atoi_digits dec_digits digits_val_dec int64_range_def)
qed

lemma dec_inject: "dec m = dec n \<longleftrightarrow> m = n"
  by (metis digits_val_dec option.inject)

end
