(* ===== verification/NetconfFraming.thy ===== *)
theory NetconfFraming
  imports GoNumbers
begin

text \<open>
  \<open>internal/netconfserver/server.go\<close>, the framing half: the end-of-message delimiter of the
  hello exchange and the chunked framing of RFC 6242.

  A reader is a function from the bytes still to come to a result and the bytes left over; the
  end of the list is the end of the stream. \<open>MakeslicePanic\<close> is the run-time panic of
  \<open>make([]byte, size)\<close> for a size above what the Go run time can address.
\<close>

datatype frame_err =
    Eof
  | UnexpectedEof
  | Expected char char
  | BadChunkSize string
  | MakeslicePanic
  | HelloTooLarge

type_synonym 'a read = "(frame_err + 'a) \<times> string"

section \<open>The end-of-message delimiter\<close>

definition eom :: string where
  "eom = '']]>]]>''"

definition hello_limit :: nat where
  "hello_limit = 1048576"

text \<open>The reply is the bytes read and the error, which can come together.\<close>

fun read_eom_loop :: "string \<Rightarrow> string \<Rightarrow> (string \<times> frame_err option) \<times> string" where
  "read_eom_loop buf [] = ((buf, Some Eof), [])"
| "read_eom_loop buf (c # cs) =
     (let buf' = buf @ [c]
      in if length buf' \<ge> length eom \<and> drop (length buf' - length eom) buf' = eom
           then ((take (length buf' - length eom) buf', None), cs)
         else if length buf' > hello_limit then (([], Some HelloTooLarge), cs)
         else read_eom_loop buf' cs)"

definition read_eom :: "string \<Rightarrow> (string \<times> frame_err option) \<times> string" where
  "read_eom s = read_eom_loop [] s"

section \<open>Chunked framing\<close>

definition max_alloc :: nat where
  "max_alloc = 2 ^ 48"

fun expect :: "char \<Rightarrow> string \<Rightarrow> unit read" where
  "expect ch [] = (Inl Eof, [])"
| "expect ch (c # cs) = (if c \<noteq> ch then (Inl (Expected ch c), cs) else (Inr (), cs))"

text \<open>The loop that collects the chunk length up to the line feed.\<close>

fun read_num :: "string \<Rightarrow> string read" where
  "read_num [] = (Inl Eof, [])"
| "read_num (c # cs) =
     (if c = NL then (Inr [], cs)
      else (case read_num cs of
              (Inl e, r) \<Rightarrow> (Inl e, r)
            | (Inr num, r) \<Rightarrow> (Inr (c # num), r)))"

text \<open>\<open>io.ReadFull\<close> into a buffer of \<open>n\<close> bytes.\<close>

definition read_full :: "nat \<Rightarrow> string \<Rightarrow> string read" where
  "read_full n s =
     (if n \<le> length s then (Inr (take n s), drop n s)
      else (Inl (if s = [] then Eof else UnexpectedEof), []))"

lemma expect_shorter: "expect ch s = (Inr u, s') \<Longrightarrow> length s' < length s"
  by (cases s) (auto split: if_splits)

lemma read_num_shorter: "read_num s = (Inr num, s') \<Longrightarrow> length s' < length s"
  by (induction s arbitrary: num s') (auto split: if_splits prod.splits sum.splits)

lemma read_full_shorter: "read_full n s = (Inr chunk, s') \<Longrightarrow> length s' \<le> length s"
  by (auto simp: read_full_def split: if_splits)

function read_chunks :: "string \<Rightarrow> string \<Rightarrow> string read" where
  "read_chunks msg s =
     (case expect NL s of (Inl e, r) \<Rightarrow> (Inl e, r) | (Inr _, s1) \<Rightarrow>
      (case expect (CHR ''#'') s1 of (Inl e, r) \<Rightarrow> (Inl e, r) | (Inr _, s2) \<Rightarrow>
       (case read_num s2 of (Inl e, r) \<Rightarrow> (Inl e, r) | (Inr num, s3) \<Rightarrow>
        if num = ''#'' then (Inr msg, s3)
        else case atoi num of
            None \<Rightarrow> (Inl (BadChunkSize num), s3)
          | Some n \<Rightarrow>
              if n < 1 then (Inl (BadChunkSize num), s3)
              else if n > int max_alloc then (Inl MakeslicePanic, s3)
              else case read_full (nat n) s3 of
                  (Inl e, r) \<Rightarrow> (Inl e, r)
                | (Inr chunk, s4) \<Rightarrow> read_chunks (msg @ chunk) s4)))"
  by pat_completeness auto

termination
  by (relation "measure (\<lambda>(msg, s). length s)")
    (auto dest!: expect_shorter[OF sym] read_num_shorter[OF sym] read_full_shorter[OF sym])

declare read_chunks.simps [simp del]

definition read_chunked :: "string \<Rightarrow> string read" where
  "read_chunked s = read_chunks [] s"

definition write_chunked :: "string \<Rightarrow> string" where
  "write_chunked data = [NL, CHR ''#''] @ dec (length data) @ [NL] @ data @ [NL, CHR ''#'', CHR ''#'', NL]"

section \<open>The hello reader\<close>

lemma length_eom: "length eom = 6"
  by (simp add: eom_def)

lemma suffix_at:
  assumes "length eom \<le> length b" "drop (length b - length eom) b = eom"
  shows "prefix eom (drop (length b - length eom) (b @ cs))"
  using assms by simp

lemma suffix_at_conv:
  assumes "length eom \<le> length b"
  shows "drop (length b - length eom) b = eom \<longleftrightarrow> prefix eom (drop (length b - length eom) (b @ cs))"
proof -
  have "length (drop (length b - length eom) b) = length eom" using assms by simp
  then have "prefix eom (drop (length b - length eom) b @ cs)
      \<longleftrightarrow> drop (length b - length eom) b = eom"
    by (auto simp: prefix_def)
  then show ?thesis using assms by simp
qed

text \<open>
  Where the delimiter first ends, given that it does not end within \<open>buf\<close>: with the next
  character, or later.
\<close>

lemma delimiter_ends_here:
  assumes "length eom \<le> length b" "drop (length b - length eom) b = eom"
    and ge: "\<And>i. index_of (b @ cs) eom = Some i \<Longrightarrow> length b \<le> i + length eom"
  shows "index_of (b @ cs) eom = Some (length b - length eom)"
proof -
  let ?j = "length b - length eom"
  have p: "prefix eom (drop ?j (b @ cs))" using suffix_at[OF assms(1,2)] .
  have "?j \<le> length (b @ cs)" by simp
  with p have "index_of (b @ cs) eom \<noteq> None" unfolding index_of_None by blast
  then obtain i where i: "index_of (b @ cs) eom = Some i" by blast
  have "i \<le> ?j" using index_of_first[OF i, of ?j] p by force
  moreover have "?j \<le> i" using ge[OF i] by simp
  ultimately show ?thesis using i by simp
qed

lemma delimiter_ends_later:
  assumes "\<not> (length eom \<le> length b \<and> drop (length b - length eom) b = eom)"
    and i: "index_of (b @ cs) eom = Some i" and ge: "length b \<le> i + length eom"
  shows "length b < i + length eom"
proof (rule ccontr)
  assume "\<not> length b < i + length eom"
  then have eq: "length b = i + length eom" using ge by simp
  from index_of_Some[OF i] have "prefix eom (drop i (b @ cs))" by (metis take_is_prefix)
  then show False using assms(1) eq suffix_at_conv[of b cs] by simp
qed

lemma read_eom_loop_spec:
  assumes "length buf \<le> hello_limit"
    and "\<And>i. index_of (buf @ s) eom = Some i \<Longrightarrow> length buf < i + length eom"
  shows "read_eom_loop buf s =
     (case index_of (buf @ s) eom of
        Some i \<Rightarrow>
          if i + length eom \<le> Suc hello_limit
          then ((take i (buf @ s), None), drop (i + length eom) (buf @ s))
          else (([], Some HelloTooLarge), drop (Suc hello_limit) (buf @ s))
      | None \<Rightarrow>
          if length (buf @ s) \<le> hello_limit then ((buf @ s, Some Eof), [])
          else (([], Some HelloTooLarge), drop (Suc hello_limit) (buf @ s)))"
  using assms
proof (induction buf s rule: read_eom_loop.induct)
  case (1 buf)
  have "index_of buf eom = None"
    using 1(2) index_of_Some[of buf eom] by (cases "index_of buf eom") auto
  then show ?case using 1(1) by simp
next
  case (2 buf c cs)
  let ?b = "buf @ [c]"
  let ?j = "length ?b - length eom"
  have i_ge: "length ?b \<le> i + length eom" if "index_of (buf @ c # cs) eom = Some i" for i
    using 2(3)[OF that] by simp
  show ?case
  proof (cases "length ?b \<ge> length eom \<and> drop ?j ?b = eom")
    case True
    then have i: "index_of (buf @ c # cs) eom = Some ?j"
      using delimiter_ends_here[of ?b cs] i_ge by simp
    then show ?thesis using True i 2(2) by (simp add: length_eom)
  next
    case False
    have i_gt: "length ?b < i + length eom" if "index_of (buf @ c # cs) eom = Some i" for i
      using delimiter_ends_later[OF False, of cs i] i_ge[OF that] that by simp
    show ?thesis
    proof (cases "length ?b > hello_limit")
      case True
      then have l: "length buf = hello_limit" using 2(2) by simp
      have "read_eom_loop buf (c # cs) = (([], Some HelloTooLarge), cs)"
        using False True by (simp add: Let_def)
      moreover have "drop (Suc hello_limit) (buf @ c # cs) = cs" using l by simp
      moreover have "\<not> i + length eom \<le> Suc hello_limit"
        if "index_of (buf @ c # cs) eom = Some i" for i
        using i_gt[OF that] l by simp
      ultimately show ?thesis using l by (simp split: option.split)
    next
      case le: False
      have step: "read_eom_loop buf (c # cs) = read_eom_loop ?b cs"
        by (simp only: read_eom_loop.simps Let_def if_not_P[OF False] if_not_P[OF le])
      have app: "(buf @ [c]) @ cs = buf @ c # cs" by simp
      note IH = 2(1)[OF refl False le, unfolded app]
      show ?thesis unfolding step by (rule IH) (use le i_gt in auto)
    qed
  qed
qed

lemma read_eom_eq:
  "read_eom s =
     (case index_of s eom of
        Some i \<Rightarrow>
          if i + length eom \<le> Suc hello_limit then ((take i s, None), drop (i + length eom) s)
          else (([], Some HelloTooLarge), drop (Suc hello_limit) s)
      | None \<Rightarrow>
          if length s \<le> hello_limit then ((s, Some Eof), [])
          else (([], Some HelloTooLarge), drop (Suc hello_limit) s))"
proof -
  have "length [] < i + length eom" for i by (simp add: eom_def)
  from read_eom_loop_spec[of "[]" s, OF _ this] show ?thesis
    unfolding read_eom_def append_Nil by simp
qed

section \<open>The language of chunked messages\<close>

text \<open>
  A message on the wire is a list of chunks, each with the text of its length. Any text that
  \<open>Atoi\<close> reads as the length is accepted.
\<close>

definition chunk_wire :: "string \<times> string \<Rightarrow> string" where
  "chunk_wire ch = [NL, CHR ''#''] @ fst ch @ [NL] @ snd ch"

definition frame_wire :: "(string \<times> string) list \<Rightarrow> string" where
  "frame_wire chs = concat (map chunk_wire chs) @ [NL, CHR ''#'', CHR ''#'', NL]"

definition good_chunk :: "string \<times> string \<Rightarrow> bool" where
  "good_chunk ch \<longleftrightarrow> NL \<notin> set (fst ch) \<and> atoi (fst ch) = Some (int (length (snd ch)))
     \<and> snd ch \<noteq> [] \<and> length (snd ch) \<le> max_alloc"

lemma expect_Inr: "expect ch s = (Inr u, s') \<longleftrightarrow> s = ch # s'"
  by (cases s) auto

lemma read_num_Inr: "read_num s = (Inr num, s') \<longleftrightarrow> NL \<notin> set num \<and> s = num @ NL # s'"
proof (induction s arbitrary: num)
  case (Cons c cs)
  then show ?case
    by (cases num; cases "read_num cs" rule: prod.exhaust; cases "fst (read_num cs)") auto
qed simp

lemma read_full_Inr:
  "read_full n s = (Inr chunk, s') \<longleftrightarrow> length chunk = n \<and> s = chunk @ s'"
  by (auto simp: read_full_def)

lemma atoi_hash: "atoi ''#'' = None"
  by code_simp

lemma read_chunks_end:
  "read_chunks msg ([NL, CHR ''#'', CHR ''#'', NL] @ rest) = (Inr msg, rest)"
  by (subst read_chunks.simps) simp

lemma read_chunks_chunk:
  assumes "good_chunk ch"
  shows "read_chunks msg (chunk_wire ch @ s) = read_chunks (msg @ snd ch) s"
proof -
  obtain num c where ch: "ch = (num, c)" by (cases ch)
  have num: "num \<noteq> ''#''" using assms atoi_hash by (auto simp: good_chunk_def ch)
  have rn: "read_num (num @ NL # c @ s) = (Inr num, c @ s)"
    using assms by (simp add: read_num_Inr good_chunk_def ch)
  have rf: "read_full (length c) (c @ s) = (Inr c, s)" by (simp add: read_full_Inr)
  have c: "\<not> int (length c) < 1" "\<not> int (length c) > int max_alloc"
    using assms by (auto simp: good_chunk_def ch Suc_le_eq)
  have a: "atoi num = Some (int (length c))" using assms by (simp add: good_chunk_def ch)
  show ?thesis
    by (subst read_chunks.simps) (simp add: chunk_wire_def ch rn num a c rf del: of_nat_less_iff of_nat_less_1_iff)
qed

lemma read_chunks_frame:
  "list_all good_chunk chs \<Longrightarrow>
     read_chunks msg (frame_wire chs @ rest) = (Inr (msg @ concat (map snd chs)), rest)"
proof (induction chs arbitrary: msg)
  case Nil
  then show ?case using read_chunks_end by (simp add: frame_wire_def)
next
  case (Cons ch chs)
  then show ?case
    using read_chunks_chunk[of ch msg "frame_wire chs @ rest"] by (simp add: frame_wire_def)
qed

lemma read_chunks_accepts:
  "read_chunks msg s = (Inr out, rest) \<Longrightarrow>
     \<exists>chs. s = frame_wire chs @ rest \<and> list_all good_chunk chs \<and> out = msg @ concat (map snd chs)"
proof (induction msg s arbitrary: out rule: read_chunks.induct)
  case (1 msg s)
  from "1.prems" obtain s3 num where s: "s = NL # CHR ''#'' # num @ NL # s3" "NL \<notin> set num"
    and k: "(if num = ''#'' then (Inr msg, s3)
        else case atoi num of
            None \<Rightarrow> (Inl (BadChunkSize num), s3)
          | Some n \<Rightarrow>
              if n < 1 then (Inl (BadChunkSize num), s3)
              else if n > int max_alloc then (Inl MakeslicePanic, s3)
              else case read_full (nat n) s3 of
                  (Inl e, r) \<Rightarrow> (Inl e, r)
                | (Inr chunk, s4) \<Rightarrow> read_chunks (msg @ chunk) s4) = (Inr out, rest)"
    by (subst (asm) read_chunks.simps)
      (auto simp: expect_Inr read_num_Inr split: prod.splits sum.splits)
  show ?case
  proof (cases "num = ''#''")
    case True
    then show ?thesis using k s by (intro exI[of _ "[]"]) (simp add: frame_wire_def)
  next
    case False
    with k obtain n chunk s4 where n: "atoi num = Some n" "\<not> n < 1" "\<not> n > int max_alloc"
      and f: "read_full (nat n) s3 = (Inr chunk, s4)" and r: "read_chunks (msg @ chunk) s4 = (Inr out, rest)"
      by (auto split: option.splits if_splits prod.splits sum.splits)
    have c: "length chunk = nat n" "s3 = chunk @ s4" using f by (auto simp: read_full_Inr)
    have e1: "(Inr (), CHR ''#'' # num @ NL # s3) = expect NL s"
      and e2: "(Inr (), num @ NL # s3) = expect (CHR ''#'') (CHR ''#'' # num @ NL # s3)"
      and e3: "(Inr num, s3) = read_num (num @ NL # s3)"
      using s by (auto simp: read_num_Inr[THEN iffD2])
    from "1.IH"[OF e1 refl e2 refl e3 refl False n f[symmetric] refl r]
    obtain chs where IH: "s4 = frame_wire chs @ rest" "list_all good_chunk chs"
      "out = (msg @ chunk) @ concat (map snd chs)" by blast
    have "good_chunk (num, chunk)" using s c n by (auto simp: good_chunk_def)
    then show ?thesis using IH s c
      by (intro exI[of _ "(num, chunk) # chs"]) (simp add: frame_wire_def chunk_wire_def)
  qed
qed

lemma read_chunked_accepts_iff:
  "read_chunked s = (Inr msg, rest) \<longleftrightarrow>
     (\<exists>chs. s = frame_wire chs @ rest \<and> list_all good_chunk chs \<and> msg = concat (map snd chs))"
  using read_chunks_accepts[of "[]" s msg rest] read_chunks_frame[of _ "[]" rest]
  by (auto simp: read_chunked_def)

section \<open>Writing and reading back\<close>

lemma write_chunked_frame: "write_chunked data = frame_wire [(dec (length data), data)]"
  by (simp add: write_chunked_def frame_wire_def chunk_wire_def)

lemma written_good: "data \<noteq> [] \<Longrightarrow> length data \<le> max_alloc \<Longrightarrow> good_chunk (dec (length data), data)"
  by (simp add: good_chunk_def dec_no atoi_dec max_alloc_def)

lemma chunked_read_write:
  assumes "data \<noteq> []" "length data \<le> max_alloc"
  shows "read_chunked (write_chunked data @ rest) = (Inr data, rest)"
  using written_good[OF assms] read_chunks_frame[of "[(dec (length data), data)]" "[]" rest]
  by (simp add: read_chunked_def write_chunked_frame)

lemma write_empty_rejected:
  "read_chunked (write_chunked [] @ rest) = (Inl (BadChunkSize ''0''), NL # ''##'' @ NL # rest)"
proof -
  have a: "atoi ''0'' = Some 0" by code_simp
  have d: "dec 0 = ''0''" by code_simp
  show ?thesis
    by (simp add: read_chunked_def write_chunked_def d, subst read_chunks.simps) (simp add: a)
qed

text \<open>A length that no allocation can satisfy stops the process instead of the session.\<close>

lemma oversized_chunk_panics:
  assumes "max_alloc < n" "n < 2 ^ 63"
  shows "read_chunked ([NL, CHR ''#''] @ dec n @ NL # rest) = (Inl MakeslicePanic, rest)"
proof -
  have rn: "read_num (dec n @ NL # rest) = (Inr (dec n), rest)"
    by (simp add: read_num_Inr dec_no)
  have "dec n \<noteq> ''#''" using atoi_dec[OF assms(2)] atoi_hash by force
  then show ?thesis using assms
    by (simp add: read_chunked_def, subst read_chunks.simps) (simp add: rn atoi_dec max_alloc_def)
qed

end
