(* ===== verification/GoUtf8.thy ===== *)
theory GoUtf8
  imports GoStrings
begin

text \<open>
  \<open>unicode/utf8.DecodeRune\<close> and, on top of it, \<open>encoding/xml.EscapeText\<close>. A code point is
  a \<open>nat\<close>; an invalid byte decodes to U+FFFD with width 1, as in Go.
\<close>

abbreviation byte_of :: "char \<Rightarrow> nat" where "byte_of \<equiv> of_char"

definition rune_error :: nat where "rune_error = 0xFFFD"

definition within :: "nat \<Rightarrow> nat \<Rightarrow> nat \<Rightarrow> bool" where
  "within lo hi b \<longleftrightarrow> lo \<le> b \<and> b \<le> hi"

text \<open>The length a first byte announces and the range of its second byte; \<open>None\<close>: invalid.\<close>

definition first_byte :: "nat \<Rightarrow> (nat \<times> nat \<times> nat) option" where
  "first_byte b =
     (if within 0xC2 0xDF b then Some (2, 0x80, 0xBF)
      else if b = 0xE0 then Some (3, 0xA0, 0xBF)
      else if b = 0xED then Some (3, 0x80, 0x9F)
      else if within 0xE1 0xEF b then Some (3, 0x80, 0xBF)
      else if b = 0xF0 then Some (4, 0x90, 0xBF)
      else if within 0xF1 0xF3 b then Some (4, 0x80, 0xBF)
      else if b = 0xF4 then Some (4, 0x80, 0x8F)
      else None)"

definition decode_rune :: "string \<Rightarrow> nat \<times> nat" where
  "decode_rune s =
     (case s of
        [] \<Rightarrow> (rune_error, 0)
      | c # cs \<Rightarrow>
          let b0 = byte_of c
          in if b0 < 0x80 then (b0, 1)
             else case first_byte b0 of
                 None \<Rightarrow> (rune_error, 1)
               | Some (sz, lo, hi) \<Rightarrow>
                   if length s < sz then (rune_error, 1)
                   else let b1 = byte_of (cs ! 0)
                     in if \<not> within lo hi b1 then (rune_error, 1)
                     else if sz \<le> 2 then ((b0 mod 32) * 64 + b1 mod 64, 2)
                     else let b2 = byte_of (cs ! 1)
                       in if \<not> within 0x80 0xBF b2 then (rune_error, 1)
                       else if sz \<le> 3 then ((b0 mod 16) * 4096 + (b1 mod 64) * 64 + b2 mod 64, 3)
                       else let b3 = byte_of (cs ! 2)
                         in if \<not> within 0x80 0xBF b3 then (rune_error, 1)
                         else ((b0 mod 8) * 262144 + (b1 mod 64) * 4096 + (b2 mod 64) * 64 + b3 mod 64, 4))"

lemma decode_rune_ascii: "byte_of c < 0x80 \<Longrightarrow> decode_rune (c # cs) = (byte_of c, 1)"
  by (simp add: decode_rune_def)

lemma decode_rune_width: "0 < snd (decode_rune (c # cs))"
  by (auto simp: decode_rune_def Let_def split: option.splits prod.splits)

section \<open>Escaping text for XML\<close>

definition xml_char :: "nat \<Rightarrow> bool" where
  "xml_char r \<longleftrightarrow> r = 0x09 \<or> r = 0x0A \<or> r = 0x0D \<or> within 0x20 0xD7FF r
     \<or> within 0xE000 0xFFFD r \<or> within 0x10000 0x10FFFF r"

text \<open>The replacement of a code point of the given width, \<open>None\<close> where it is kept.\<close>

definition xml_esc :: "nat \<Rightarrow> nat \<Rightarrow> string option" where
  "xml_esc r width =
     (if r = 0x22 then Some ''&#34;''
      else if r = 0x27 then Some ''&#39;''
      else if r = 0x26 then Some ''&amp;''
      else if r = 0x3C then Some ''&lt;''
      else if r = 0x3E then Some ''&gt;''
      else if r = 0x09 then Some ''&#x9;''
      else if r = 0x0A then Some ''&#xA;''
      else if r = 0x0D then Some ''&#xD;''
      else if \<not> xml_char r \<or> (r = rune_error \<and> width = 1) then Some [CHR 0xEF, CHR 0xBF, CHR 0xBD]
      else None)"

function xml_escape :: "string \<Rightarrow> string" where
  "xml_escape s =
     (case s of [] \<Rightarrow> []
      | c # cs \<Rightarrow>
          let (r, width) = decode_rune s
          in (case xml_esc r width of None \<Rightarrow> take width s | Some e \<Rightarrow> e) @ xml_escape (drop width s))"
  by pat_completeness auto
termination
proof (relation "measure length")
  fix s c cs x and r width :: nat
  assume "s = c # cs" "x = decode_rune s" "(r, width) = x"
  then show "(drop width s, s) \<in> measure length"
    using decode_rune_width[of c cs] by (auto simp: prod_eq_iff)
qed auto

declare xml_escape.simps [simp del]

lemma xml_escape_Nil [simp]: "xml_escape [] = []"
  by (simp add: xml_escape.simps)

lemma xml_escape_ascii:
  assumes "byte_of c < 0x80"
  shows "xml_escape (c # cs) =
     (case xml_esc (byte_of c) 1 of None \<Rightarrow> [c] | Some e \<Rightarrow> e) @ xml_escape cs"
  by (subst xml_escape.simps) (simp add: decode_rune_ascii[OF assms] Let_def split: option.split)

text \<open>Bytes that are markup in XML.\<close>

definition xml_markup :: "char set" where
  "xml_markup = {CHR ''<'', CHR ''>'', CHR 0x22, CHR 0x27}"

lemma byte_of_inject: "byte_of c = byte_of d \<longleftrightarrow> c = d"
  by (simp add: of_char_eq_iff)

lemma byte_of_markup: "c \<in> xml_markup \<longleftrightarrow> byte_of c = 0x22 \<or> byte_of c = 0x27 \<or> byte_of c = 0x3C \<or> byte_of c = 0x3E"
proof -
  have "byte_of (CHR ''<'') = 0x3C" "byte_of (CHR ''>'') = 0x3E" "byte_of (CHR 0x22) = 0x22"
    "byte_of (CHR 0x27) = 0x27" by simp_all
  then show ?thesis unfolding xml_markup_def insert_iff empty_iff
    by (metis byte_of_inject)
qed

text \<open>Escaped text contains no markup: neither a tag nor a quoted attribute can start in it.\<close>

lemma first_byte_cases:
  "first_byte b = Some (sz, lo, hi) \<Longrightarrow> 0xC2 \<le> b \<and> 0x80 \<le> lo \<and> (sz = 2 \<or> sz = 3 \<or> sz = 4)"
  by (auto simp: first_byte_def within_def split: if_splits)

lemma decode_rune_kept:
  assumes "decode_rune (c # cs) = (r, w)"
  shows "w = 1 \<and> (r = byte_of c \<or> r = rune_error) \<or> (\<forall>x \<in> set (take w (c # cs)). 0x80 \<le> byte_of x)"
proof (cases "w = 1")
  case True
  then show ?thesis using assms
    by (auto simp: decode_rune_def Let_def split: if_splits option.splits prod.splits)
next
  case False
  then obtain sz lo hi where fb: "first_byte (byte_of c) = Some (sz, lo, hi)" and l: "sz \<le> length (c # cs)"
    and w1: "within lo hi (byte_of (cs ! 0))" and w: "w = sz"
    and w2: "sz > 2 \<Longrightarrow> within 0x80 0xBF (byte_of (cs ! 1))"
    and w3: "sz > 3 \<Longrightarrow> within 0x80 0xBF (byte_of (cs ! 2))"
    using assms first_byte_cases[of "byte_of c"]
    by (auto simp: decode_rune_def Let_def not_le split: if_splits option.splits prod.splits)
  have "0x80 \<le> byte_of ((c # cs) ! i)" if "i < w" for i
  proof -
    have "i = 0 \<or> i = 1 \<or> i = 2 \<or> i = 3" using that w first_byte_cases[OF fb] by auto
    then show ?thesis
      using first_byte_cases[OF fb] w1 w2 w3 that w by (auto simp: within_def numeral_2_eq_2 numeral_3_eq_3)
  qed
  then show ?thesis using l w by (auto simp: in_set_conv_nth)
qed

lemma xml_esc_safe: "xml_esc r w = Some e \<Longrightarrow> x \<in> set e \<Longrightarrow> x \<notin> xml_markup"
  by (auto simp: xml_esc_def xml_markup_def split: if_splits)

lemma xml_escape_no_markup: "xml_markup \<inter> set (xml_escape s) = {}"
proof (induction s rule: xml_escape.induct)
  case (1 s)
  show ?case
  proof (cases s)
    case (Cons c cs)
    obtain r w where d: "decode_rune s = (r, w)" by fastforce
    have step: "xml_escape s = (case xml_esc r w of None \<Rightarrow> take w s | Some e \<Rightarrow> e) @ xml_escape (drop w s)"
      by (subst xml_escape.simps) (simp only: Cons list.case d[unfolded Cons] Let_def prod.case)
    have "x \<notin> xml_markup" if k: "xml_esc r w = None" "x \<in> set (take w s)" for x
    proof
      assume m: "x \<in> xml_markup"
      then have lt: "byte_of x < 0x80" by (auto simp: byte_of_markup)
      then have "w = 1 \<and> (r = byte_of c \<or> r = rune_error)"
        using decode_rune_kept[OF d[unfolded Cons]] k(2) Cons by force
      moreover from this have "x = c" using k(2) Cons by simp
      ultimately show False using k(1) m by (auto simp: xml_esc_def byte_of_markup split: if_splits)
    qed
    then show ?thesis
      using "1.IH"[OF Cons refl d[symmetric]] xml_esc_safe by (auto simp: step split: option.splits)
  qed simp
qed

end
