(* ===== verification/NetconfServer.thy ===== *)
theory NetconfServer
  imports NetconfFraming GoUtf8 SshServer
begin

text \<open>
  \<open>internal/netconfserver/server.go\<close>, the protocol half: the hello exchange, the loop over
  chunked requests, the dispatch of \<open>get\<close>, \<open>edit-config\<close>, \<open>commit\<close> and
  \<open>close-session\<close>, and the requests a client builds.

  \<open>encoding/xml.Unmarshal\<close> is the argument \<open>um\<close>: it returns the fields filled so far and
  the error, as the code uses both. \<open>wok k\<close> says whether the \<open>k\<close>-th write of a session
  succeeds.
\<close>

record rpc_msg =
  message_id :: string
  rpc_inner :: string

type_synonym unmarshal = "string \<Rightarrow> rpc_msg \<times> string option"

abbreviation base_ns :: string where
  "base_ns \<equiv> ''urn:ietf:params:xml:ns:netconf:base:1.0''"

definition quoted :: "string \<Rightarrow> string" where
  "quoted s = [DQ] @ s @ [DQ]"

definition server_hello :: string where
  "server_hello =
     ''<?xml version='' @ quoted ''1.0'' @ '' encoding='' @ quoted ''UTF-8'' @ ''?>'' @ [NL]
     @ ''<hello xmlns='' @ quoted base_ns @ ''>'' @ [NL]
     @ ''  <capabilities>'' @ [NL]
     @ ''    <capability>urn:ietf:params:netconf:base:1.1</capability>'' @ [NL]
     @ ''    <capability>urn:ietf:params:netconf:capability:writable-running:1.0</capability>'' @ [NL]
     @ ''  </capabilities>'' @ [NL]
     @ ''  <session-id>1</session-id>'' @ [NL]
     @ ''</hello>''"

definition client_hello :: string where
  "client_hello =
     ''<?xml version='' @ quoted ''1.0'' @ '' encoding='' @ quoted ''UTF-8'' @ ''?>'' @ [NL]
     @ ''<hello xmlns='' @ quoted base_ns @ ''>'' @ [NL]
     @ ''  <capabilities>'' @ [NL]
     @ ''    <capability>urn:ietf:params:netconf:base:1.1</capability>'' @ [NL]
     @ ''  </capabilities>'' @ [NL]
     @ ''</hello>''"

section \<open>Replies\<close>

definition reply_open :: "string \<Rightarrow> string" where
  "reply_open msg_id = ''<rpc-reply message-id='' @ quoted msg_id @ '' xmlns='' @ quoted base_ns @ ''>''"

definition rpc_ok :: "string \<Rightarrow> string" where
  "rpc_ok msg_id = reply_open msg_id @ ''<ok/></rpc-reply>''"

definition rpc_error :: "string \<Rightarrow> string \<Rightarrow> string \<Rightarrow> string" where
  "rpc_error msg_id tag msg =
     reply_open msg_id @ ''<rpc-error><error-tag>'' @ tag @ ''</error-tag><error-message>''
     @ msg @ ''</error-message></rpc-error></rpc-reply>''"

section \<open>Extracting the command\<close>

definition extract_filter :: "string \<Rightarrow> string" where
  "extract_filter inner =
     (case index_of inner ''>'' of
        None \<Rightarrow> ''show version''
      | Some start \<Rightarrow>
     (case index_of inner ''<filter'' of
        None \<Rightarrow> ''show version''
      | Some filter_start \<Rightarrow>
     (case index_of (drop filter_start inner) ''>'' of
        None \<Rightarrow> ''show version''
      | Some gt \<Rightarrow>
     (let content_start = gt + (filter_start + 1)
      in case index_of (drop content_start inner) ''</filter>'' of
        None \<Rightarrow> ''show version''
      | Some filter_end \<Rightarrow> trim_space (take filter_end (drop content_start inner))))))"

definition extract_config :: "string \<Rightarrow> string" where
  "extract_config inner =
     (case index_of inner ''<cli>'' of
        None \<Rightarrow> []
      | Some i \<Rightarrow>
     (let cli_start = i + 5
      in case index_of (drop cli_start inner) ''</cli>'' of
        None \<Rightarrow> []
      | Some cli_end \<Rightarrow> trim_space (take cli_end (drop cli_start inner))))"

section \<open>Dispatch\<close>

definition handle_get :: "device \<Rightarrow> string \<Rightarrow> string \<Rightarrow> string" where
  "handle_get dev msg_id inner =
     (let cmd = extract_filter inner; out = exec dev cmd
      in reply_open msg_id @ ''<data>'' @ xml_escape out @ ''</data></rpc-reply>'')"

text \<open>
  The output of the configuration commands is dropped, and running them does not change the
  device: its table is only written while it is loaded.
\<close>

definition handle_edit_config :: "device \<Rightarrow> string \<Rightarrow> string \<Rightarrow> string" where
  "handle_edit_config dev msg_id inner =
     (let cmd = extract_config inner; _ = (if cmd \<noteq> [] then exec dev cmd else [])
      in rpc_ok msg_id)"

definition dispatch :: "unmarshal \<Rightarrow> device \<Rightarrow> string \<Rightarrow> string" where
  "dispatch um dev msg =
     (case um msg of
        (rpc, Some err) \<Rightarrow> rpc_error (message_id rpc) ''malformed-message'' err
      | (rpc, None) \<Rightarrow>
          (let inner = trim_space (rpc_inner rpc)
           in if prefix ''<get'' inner then handle_get dev (message_id rpc) inner
              else if prefix ''<edit-config'' inner then handle_edit_config dev (message_id rpc) inner
              else if prefix ''<commit'' inner then rpc_ok (message_id rpc)
              else if prefix ''<close-session'' inner then rpc_ok (message_id rpc)
              else rpc_error (message_id rpc) ''operation-not-supported'' ''unknown operation''))"

section \<open>The session\<close>

text \<open>A panic in a session goroutine ends the process, not only the session.\<close>

datatype session_end = Returned | Crashed

definition end_of :: "frame_err \<Rightarrow> session_end" where
  "end_of e = (if e = MakeslicePanic then Crashed else Returned)"

lemma read_chunked_shorter: "read_chunked s = (Inr msg, s') \<Longrightarrow> length s' < length s"
  by (auto simp: read_chunked_accepts_iff frame_wire_def)

text \<open>The replies written, and how the session ended.\<close>

function session_loop ::
  "unmarshal \<Rightarrow> device \<Rightarrow> (nat \<Rightarrow> bool) \<Rightarrow> nat \<Rightarrow> string \<Rightarrow> string list \<times> session_end" where
  "session_loop um dev wok k s =
     (case read_chunked s of
        (Inl e, _) \<Rightarrow> ([], end_of e)
      | (Inr msg, s') \<Rightarrow>
          let reply = dispatch um dev msg
          in if \<not> wok k then ([], Returned)
             else if contains msg ''<close-session'' then ([write_chunked reply], Returned)
             else (let (out, e) = session_loop um dev wok (Suc k) s' in (write_chunked reply # out, e)))"
  by pat_completeness auto
termination
  by (relation "measure (\<lambda>(um, dev, wok, k, s). length s)") (auto dest: read_chunked_shorter[OF sym])

declare session_loop.simps [simp del]

definition run_session ::
  "unmarshal \<Rightarrow> device \<Rightarrow> (nat \<Rightarrow> bool) \<Rightarrow> string \<Rightarrow> string list \<times> session_end" where
  "run_session um dev wok s =
     (if \<not> wok 0 then ([], Returned)
      else case read_eom s of
          ((_, Some _), _) \<Rightarrow> ([server_hello @ [NL] @ eom], Returned)
        | ((_, None), s') \<Rightarrow>
            (let (out, e) = session_loop um dev wok 1 s'
             in ((server_hello @ [NL] @ eom) # out, e)))"

fun nc_handle_session ::
  "unmarshal \<Rightarrow> device \<Rightarrow> (nat \<Rightarrow> bool) \<Rightarrow> string \<Rightarrow> ssh_request list \<Rightarrow> chan_act list \<times> session_end" where
  "nc_handle_session um dev wok s [] = ([CloseCh], Returned)"
| "nc_handle_session um dev wok s (req # reqs) =
     (let refuse = (let (as, e) = nc_handle_session um dev wok s reqs
                    in ((if req_want_reply req then [Reply False] else []) @ as, e))
      in if req_type req = ''subsystem'' then
           (let name = (if length (req_payload req) \<ge> 4 then drop 4 (req_payload req) else [])
            in if name \<noteq> ''netconf'' then refuse
               else (let (out, e) = run_session um dev wok s
                     in ((if req_want_reply req then [Reply True] else []) @ map Out out @ [CloseCh], e)))
         else refuse)"

definition nc_close :: "('l \<Rightarrow> string option) \<Rightarrow> 'l endpoint \<Rightarrow> string option" where
  "nc_close ln_close s = close_listener ln_close s"

definition nc_listen_and_serve ::
  "(string \<Rightarrow> 'l result) \<Rightarrow> ('l \<Rightarrow> served) \<Rightarrow> 'l endpoint \<Rightarrow> string option \<times> 'l endpoint" where
  "nc_listen_and_serve net_listen srv s = ssh_listen_and_serve net_listen srv s"

section \<open>What a client sends\<close>

definition rpc_open :: "int \<Rightarrow> string" where
  "rpc_open i = ''<rpc message-id='' @ quoted (dec_int i) @ '' xmlns='' @ quoted base_ns @ ''>''"

definition get_body :: "string \<Rightarrow> string" where
  "get_body cmd = ''<get><filter type='' @ quoted ''cli'' @ ''>'' @ cmd @ ''</filter></get>''"

definition edit_body :: "string \<Rightarrow> string" where
  "edit_body cmds =
     ''<edit-config><target><running/></target><config><cli>'' @ cmds @ ''</cli></config></edit-config>''"

definition get_rpc :: "int \<Rightarrow> string \<Rightarrow> string" where
  "get_rpc i cmd = rpc_open i @ get_body cmd @ ''</rpc>''"

definition edit_config_rpc :: "int \<Rightarrow> string \<Rightarrow> string" where
  "edit_config_rpc i cmds = rpc_open i @ edit_body cmds @ ''</rpc>''"

definition commit_rpc :: "int \<Rightarrow> string" where
  "commit_rpc i = rpc_open i @ ''<commit/></rpc>''"

definition close_session_rpc :: "int \<Rightarrow> string" where
  "close_session_rpc i = rpc_open i @ ''<close-session/></rpc>''"

section \<open>Searching for a tag\<close>

lemma index_of_skip:
  "c \<notin> set w \<Longrightarrow> index_of (w @ s) (c # t) = map_option ((+) (length w)) (index_of s (c # t))"
  by (induction w; cases "index_of s (c # t)") auto

lemma contains_skip: "c \<notin> set w \<Longrightarrow> contains (w @ s) (c # t) \<longleftrightarrow> contains s (c # t)"
  by (simp add: contains_def index_of_skip)

lemma contains_Cons: "contains (a # s) sub \<longleftrightarrow> prefix sub (a # s) \<or> contains s sub"
  by (auto simp: contains_def)

lemma contains_Nil: "contains [] (c # t) \<longleftrightarrow> False"
  by (simp add: contains_def)

lemma lt_not_in_dec: "CHR ''<'' \<notin> set (dec_int i)"
  by (auto simp: dec_int_def dec_no)

lemma extract_filter_get:
  assumes "CHR ''<'' \<notin> set cmd"
  shows "extract_filter (get_body cmd) = trim_space cmd"
proof -
  let ?tail = "''</filter></get>''"
  let ?rest = "''<filter type='' @ quoted ''cli'' @ ''>'' @ cmd @ ?tail"
  have 1: "index_of (get_body cmd) ''>'' = Some 4"
    by (simp add: get_body_def)
  have 2: "index_of (get_body cmd) ''<filter'' = Some 5"
    by (simp add: get_body_def)
  have 3: "index_of (drop 5 (get_body cmd)) ''>'' = Some 18"
    by (simp add: get_body_def quoted_def)
  have d: "drop (18 + (5 + 1)) (get_body cmd) = cmd @ ?tail"
    by (simp add: get_body_def quoted_def)
  have 4: "index_of (cmd @ ?tail) ''</filter>'' = Some (length cmd)"
    using index_of_skip[OF assms, of ?tail "''/filter>''"] by simp
  show ?thesis
    by (simp only: extract_filter_def 1 2 3 option.case Let_def d 4) simp
qed

lemma extract_config_edit:
  assumes "CHR ''<'' \<notin> set cmds"
  shows "extract_config (edit_body cmds) = trim_space cmds"
proof -
  let ?tail = "''</cli></config></edit-config>''"
  have 1: "index_of (edit_body cmds) ''<cli>'' = Some 48"
    by (simp add: edit_body_def)
  have d: "drop (48 + 5) (edit_body cmds) = cmds @ ?tail"
    by (simp add: edit_body_def)
  have 2: "index_of (cmds @ ?tail) ''</cli>'' = Some (length cmds)"
    using index_of_skip[OF assms, of ?tail "''/cli>''"] by simp
  show ?thesis
    by (simp only: extract_config_def 1 option.case Let_def d 2) simp
qed

section \<open>Sessions\<close>

text \<open>Requests are answered one by one, in order, however each is cut into chunks.\<close>

abbreviation body_of :: "(string \<times> string) list \<Rightarrow> string" where
  "body_of chs \<equiv> concat (map snd chs)"

definition answer :: "unmarshal \<Rightarrow> device \<Rightarrow> (string \<times> string) list \<Rightarrow> string" where
  "answer um dev chs = write_chunked (dispatch um dev (body_of chs))"

lemma read_frame: "list_all good_chunk chs \<Longrightarrow> read_chunked (frame_wire chs @ s) = (Inr (body_of chs), s)"
  using read_chunked_accepts_iff by blast

lemma session_step:
  assumes "list_all good_chunk chs" "wok k" "\<not> contains (body_of chs) ''<close-session''"
  shows "session_loop um dev wok k (frame_wire chs @ s) =
     (answer um dev chs # fst (session_loop um dev wok (Suc k) s), snd (session_loop um dev wok (Suc k) s))"
  using assms by (subst session_loop.simps) (simp add: read_frame Let_def answer_def split: prod.split)

lemma session_last:
  assumes "list_all good_chunk chs" "wok k" "contains (body_of chs) ''<close-session''"
  shows "session_loop um dev wok k (frame_wire chs @ s) = ([answer um dev chs], Returned)"
  using assms by (subst session_loop.simps) (simp add: read_frame Let_def answer_def)

abbreviation all_ok :: "nat \<Rightarrow> bool" where
  "all_ok \<equiv> \<lambda>_. True"

lemma session_steps:
  assumes "\<forall>chs \<in> set chss. list_all good_chunk chs \<and> \<not> contains (body_of chs) ''<close-session''"
  shows "session_loop um dev all_ok k (concat (map frame_wire chss) @ s) =
     (map (answer um dev) chss @ fst (session_loop um dev all_ok (k + length chss) s),
      snd (session_loop um dev all_ok (k + length chss) s))"
  using assms
proof (induction chss arbitrary: k)
  case (Cons chs chss)
  then show ?case by (simp add: session_step)
qed simp

definition hello_ok :: "string \<Rightarrow> bool" where
  "hello_ok h \<longleftrightarrow> index_of (h @ eom) eom = Some (length h) \<and> length h + length eom \<le> Suc hello_limit"

lemma index_of_prefix:
  assumes "index_of a sub = Some i"
  shows "index_of (a @ b) sub = Some i"
proof -
  have i: "i + length sub \<le> length a" "take (length sub) (drop i a) = sub"
    using index_of_Some[OF assms] by auto
  have "\<not> prefix sub (drop j (a @ b))" if "j < i" for j
  proof
    assume "prefix sub (drop j (a @ b))"
    then have "take (length sub) (drop j (a @ b)) = sub" by (rule prefix_takeI)
    then have "take (length sub) (drop j a) = sub" using that i(1) by simp
    then show False using index_of_first[OF assms that] by (metis take_is_prefix)
  qed
  moreover have "a @ b = take i a @ sub @ drop (i + length sub) a @ b"
    using i by (metis append.assoc append_take_drop_id drop_drop add.commute)
  moreover have "length (take i a) = i" using i(1) by simp
  ultimately show ?thesis
    using index_of_at[of "take i a" sub "drop (i + length sub) a @ b"] by metis
qed

lemma read_eom_hello: "hello_ok h \<Longrightarrow> read_eom (h @ eom @ s) = ((h, None), s)"
proof -
  assume h: "hello_ok h"
  then have "index_of ((h @ eom) @ s) eom = Some (length h)"
    unfolding hello_ok_def using index_of_prefix by blast
  then show ?thesis using h by (simp add: read_eom_eq hello_ok_def)
qed

lemma run_session_pipelined:
  assumes "hello_ok h"
    and "\<forall>chs \<in> set chss. list_all good_chunk chs \<and> \<not> contains (body_of chs) ''<close-session''"
    and "list_all good_chunk bye" "contains (body_of bye) ''<close-session''"
  shows "run_session um dev all_ok (h @ eom @ concat (map frame_wire chss) @ frame_wire bye @ ignored) =
     ((server_hello @ [NL] @ eom) # map (answer um dev) (chss @ [bye]), Returned)"
proof -
  have "session_loop um dev all_ok (Suc 0) (concat (map frame_wire chss) @ frame_wire bye @ ignored) =
      (map (answer um dev) (chss @ [bye]), Returned)"
    using session_steps[OF assms(2)] session_last[OF assms(3) _ assms(4)] by simp
  then show ?thesis by (simp add: run_session_def read_eom_hello[OF assms(1)])
qed

section \<open>Requests of a client\<close>

lemma hello_client: "hello_ok (client_hello @ [NL])"
proof -
  have "CHR '']'' \<notin> set (client_hello @ [NL])" by (simp add: client_hello_def quoted_def)
  from index_of_skip[OF this, of eom "'']>]]>''"]
  have "index_of ((client_hello @ [NL]) @ eom) eom = Some (length (client_hello @ [NL]))"
    by (simp add: eom_def)
  moreover have "length (client_hello @ [NL]) + length eom \<le> Suc hello_limit"
    by (simp add: client_hello_def quoted_def eom_def hello_limit_def)
  ultimately show ?thesis by (simp only: hello_ok_def)
qed

definition rpc_fields :: "int \<Rightarrow> string \<Rightarrow> rpc_msg" where
  "rpc_fields i body = \<lparr>message_id = dec_int i, rpc_inner = body\<rparr>"

lemma trim_space_tagged:
  "trim_space (CHR ''<'' # s @ ''>'') = CHR ''<'' # s @ ''>''"
proof -
  have l: "\<forall>r \<in> set space_runes. last r \<noteq> CHR ''>''"
    by (simp add: space_runes_def)
  have "\<not> prefix (rev r) (CHR ''>'' # t)" if "r \<in> set space_runes" for r t
    using l that by (cases r rule: rev_cases) auto
  then have "lead_rune (map rev space_runes) (CHR ''>'' # rev s @ ''<'') = 0"
    by (subst lead_rune_0) auto
  moreover have "lead_rune space_runes (CHR ''<'' # s @ ''>'') = 0"
    by (rule plain_lead) (simp add: plain_char_def)
  ultimately show ?thesis by (simp add: trim_space_id_iff)
qed

lemma trim_get_body: "trim_space (get_body cmd) = get_body cmd"
  using trim_space_tagged[of "''get><filter type='' @ quoted ''cli'' @ ''>'' @ cmd @ ''</filter></get''"]
  by (simp add: get_body_def)

lemma trim_edit_body: "trim_space (edit_body cmds) = edit_body cmds"
  using trim_space_tagged[of "''edit-config><target><running/></target><config><cli>'' @ cmds
    @ ''</cli></config></edit-config''"]
  by (simp add: edit_body_def)

definition data_reply :: "int \<Rightarrow> string \<Rightarrow> string" where
  "data_reply i out = reply_open (dec_int i) @ ''<data>'' @ xml_escape out @ ''</data></rpc-reply>''"

text \<open>
  \<open>um\<close> reads a request of this client: the message id and the inner XML of a well-formed
  \<open>rpc\<close> element with that attribute, no error.
\<close>

definition reads_rpc :: "unmarshal \<Rightarrow> int \<Rightarrow> string \<Rightarrow> bool" where
  "reads_rpc um i body \<longleftrightarrow> um (rpc_open i @ body @ ''</rpc>'') = (rpc_fields i body, None)"

lemma dispatch_get:
  assumes "reads_rpc um i (get_body cmd)" "CHR ''<'' \<notin> set cmd"
  shows "dispatch um dev (get_rpc i cmd) = data_reply i (exec dev cmd)"
proof -
  have "prefix ''<get'' (get_body cmd)" by (simp add: get_body_def)
  then show ?thesis using assms
    by (simp add: dispatch_def reads_rpc_def get_rpc_def rpc_fields_def trim_get_body handle_get_def
        extract_filter_get exec_trim data_reply_def Let_def)
qed

lemma dispatch_edit:
  assumes "reads_rpc um i (edit_body cmds)"
  shows "dispatch um dev (edit_config_rpc i cmds) = rpc_ok (dec_int i)"
proof -
  have "prefix ''<edit-config'' (edit_body cmds)" "\<not> prefix ''<get'' (edit_body cmds)"
    by (simp_all add: edit_body_def)
  then show ?thesis using assms
    by (simp add: dispatch_def reads_rpc_def edit_config_rpc_def rpc_fields_def trim_edit_body
        handle_edit_config_def Let_def)
qed

lemma dispatch_commit:
  assumes "reads_rpc um i ''<commit/>''"
  shows "dispatch um dev (commit_rpc i) = rpc_ok (dec_int i)"
  using assms trim_space_tagged[of "''commit/''"]
  by (simp add: dispatch_def reads_rpc_def commit_rpc_def rpc_fields_def Let_def)

lemma dispatch_close:
  assumes "reads_rpc um i ''<close-session/>''"
  shows "dispatch um dev (close_session_rpc i) = rpc_ok (dec_int i)"
  using assms trim_space_tagged[of "''close-session/''"]
  by (simp add: dispatch_def reads_rpc_def close_session_rpc_def rpc_fields_def Let_def)

lemma not_contains_rpc_open:
  "contains (rpc_open i @ s) ''<close-session'' \<longleftrightarrow> contains s ''<close-session''"
  by (simp add: rpc_open_def quoted_def contains_Cons contains_skip lt_not_in_dec)

lemma get_rpc_stays:
  "CHR ''<'' \<notin> set cmd \<Longrightarrow> \<not> contains (get_rpc i cmd) ''<close-session''"
  by (simp add: get_rpc_def get_body_def not_contains_rpc_open quoted_def contains_Cons contains_skip
      contains_Nil)

lemma close_rpc_leaves: "contains (close_session_rpc i) ''<close-session''"
  by (simp add: close_session_rpc_def not_contains_rpc_open contains_Cons)

text \<open>
  A get whose filter only mentions the text of the close request ends the session.
\<close>

lemma filter_closes_session:
  "contains (get_rpc i (a @ ''<close-session'' @ b)) ''<close-session''"
proof -
  have "get_rpc i (a @ ''<close-session'' @ b) =
      (rpc_open i @ ''<get><filter type='' @ quoted ''cli'' @ ''>'' @ a) @ ''<close-session''
        @ b @ ''</filter></get></rpc>''"
    by (simp add: get_rpc_def get_body_def)
  then show ?thesis unfolding contains_sublist by (metis sublist_appendI)
qed

end
