(* ===== verification/CommandPath.thy ===== *)
theory CommandPath
  imports Device
begin

text \<open>
  What RESTCONF and gNMI share: a command line is turned into a path of words by the client and
  back into a command line by the server. The contract of such a pair is a locale; both servers
  interpret it.
\<close>

text \<open>A command written with single blanks between its words.\<close>

definition normal_cmd :: "string \<Rightarrow> bool" where
  "normal_cmd cmd \<longleftrightarrow> join '' '' (go_fields cmd) = cmd"

lemma normal_cmd_join: "\<forall>w \<in> set ws. is_word w \<Longrightarrow> normal_cmd (join '' '' ws)"
  by (simp add: normal_cmd_def fields_join)

lemma normal_cmd_trim: "normal_cmd cmd \<Longrightarrow> trim_space cmd = cmd"
proof -
  assume n: "normal_cmd cmd"
  show ?thesis
  proof (cases "go_fields cmd = []")
    case True
    then show ?thesis using n by (simp add: normal_cmd_def)
  next
    case False
    have "trim_space (join '' '' (go_fields cmd)) = join '' '' (go_fields cmd)"
      by (rule trim_space_words) (use False fields_words in auto)
    then show ?thesis using n by (simp only: normal_cmd_def)
  qed
qed

locale command_path =
  fixes to_path :: "string \<Rightarrow> 'p"
    and from_path :: "'p \<Rightarrow> string"
    and carried :: "string \<Rightarrow> bool"
  assumes path_roundtrip: "carried cmd \<Longrightarrow> from_path (to_path cmd) = join '' '' (go_fields cmd)"
begin

lemma normal_roundtrip: "carried cmd \<Longrightarrow> normal_cmd cmd \<Longrightarrow> from_path (to_path cmd) = cmd"
  by (simp add: path_roundtrip normal_cmd_def)

lemma exec_path: "carried cmd \<Longrightarrow> normal_cmd cmd \<Longrightarrow> exec dev (from_path (to_path cmd)) = exec dev cmd"
  by (simp add: normal_roundtrip)

lemma to_path_inject:
  "carried a \<Longrightarrow> carried b \<Longrightarrow> normal_cmd a \<Longrightarrow> normal_cmd b \<Longrightarrow> to_path a = to_path b \<longleftrightarrow> a = b"
  by (metis normal_roundtrip)

end

end
