(* ===== verification/GoJson.thy ===== *)
theory GoJson
  imports GoUtf8 HttpMux
begin

text \<open>
  \<open>encoding/json\<close>'s quoted strings, with the HTML escaping \<open>json.Encoder\<close> does by default,
  and a reader of such strings that shows what a client gets back.
\<close>

definition hex_digit :: "nat \<Rightarrow> char" where
  "hex_digit d = (if d < 10 then char_of (48 + d) else char_of (87 + d))"

text \<open>The replacement of a code point of the given width, \<open>None\<close> where it is kept.\<close>

definition json_esc :: "nat \<Rightarrow> nat \<Rightarrow> string option" where
  "json_esc r width =
     (if r < 0x80 then
        (if r = 0x5C \<or> r = 0x22 then Some [CHR 0x5C, char_of r]
         else if r = 0x08 then Some [CHR 0x5C, CHR ''b'']
         else if r = 0x0C then Some [CHR 0x5C, CHR ''f'']
         else if r = 0x0A then Some [CHR 0x5C, CHR ''n'']
         else if r = 0x0D then Some [CHR 0x5C, CHR ''r'']
         else if r = 0x09 then Some [CHR 0x5C, CHR ''t'']
         else if r < 0x20 \<or> r = 0x26 \<or> r = 0x3C \<or> r = 0x3E
           then Some [CHR 0x5C, CHR ''u'', CHR ''0'', CHR ''0'', hex_digit (r div 16), hex_digit (r mod 16)]
         else None)
      else if r = rune_error \<and> width = 1 then Some (CHR 0x5C # ''ufffd'')
      else if r = 0x2028 \<or> r = 0x2029 then Some (CHR 0x5C # ''u202'' @ [hex_digit (r mod 16)])
      else None)"

function json_escape :: "string \<Rightarrow> string" where
  "json_escape s =
     (case s of [] \<Rightarrow> []
      | c # cs \<Rightarrow>
          let (r, width) = decode_rune s
          in (case json_esc r width of None \<Rightarrow> take width s | Some e \<Rightarrow> e) @ json_escape (drop width s))"
  by pat_completeness auto
termination
proof (relation "measure length")
  fix s c cs x and r width :: nat
  assume "s = c # cs" "x = decode_rune s" "(r, width) = x"
  then show "(drop width s, s) \<in> measure length"
    using decode_rune_width[of c cs] by (auto simp: prod_eq_iff)
qed auto

declare json_escape.simps [simp del]

definition json_string :: "string \<Rightarrow> string" where
  "json_string s = [DQ] @ json_escape s @ [DQ]"

section \<open>Reading a string\<close>

definition json_unesc :: "char \<Rightarrow> char option" where
  "json_unesc c =
     (if c = CHR 0x5C \<or> c = DQ \<or> c = CHR ''/'' then Some c
      else if c = CHR ''b'' then Some (CHR 0x08)
      else if c = CHR ''f'' then Some (CHR 0x0C)
      else if c = CHR ''n'' then Some NL
      else if c = CHR ''r'' then Some CR
      else if c = CHR ''t'' then Some (CHR 0x09)
      else None)"

definition push :: "char \<Rightarrow> (string \<times> string) option \<Rightarrow> (string \<times> string) option" where
  "push c r = (case r of None \<Rightarrow> None | Some (s, rest) \<Rightarrow> Some (c # s, rest))"

text \<open>After the opening quote: the characters up to the closing one, and the rest.\<close>

fun json_read :: "string \<Rightarrow> (string \<times> string) option" where
  "json_read [] = None"
| "json_read (c # cs) =
     (if c = DQ then Some ([], cs)
      else if c = CHR 0x5C then
        (case cs of
           [] \<Rightarrow> None
         | d # ds \<Rightarrow>
             if d = CHR ''u'' then
               (case ds of
                  z1 # z2 # a # b # rest \<Rightarrow>
                    (case (hex_val a, hex_val b) of
                       (Some x, Some y) \<Rightarrow>
                         if z1 = CHR ''0'' \<and> z2 = CHR ''0'' then push (char_of (16 * x + y)) (json_read rest)
                         else None
                     | _ \<Rightarrow> None)
                | _ \<Rightarrow> None)
             else (case json_unesc d of None \<Rightarrow> None | Some x \<Rightarrow> push x (json_read ds)))
      else push c (json_read cs))"

lemma hex_val_digit: "d < 16 \<Longrightarrow> hex_val (hex_digit d) = Some d"
  by (auto simp: hex_val_def hex_digit_def of_char_of Let_def)

lemma json_escape_ascii:
  assumes "byte_of c < 0x80"
  shows "json_escape (c # cs) =
     (case json_esc (byte_of c) 1 of None \<Rightarrow> [c] | Some e \<Rightarrow> e) @ json_escape cs"
  by (subst json_escape.simps) (simp add: decode_rune_ascii[OF assms] Let_def split: option.split)

lemma char_of_byte: "byte_of c = n \<Longrightarrow> c = char_of n"
  by (metis char_of_char)

lemma json_escapes:
  "byte_of c = n \<Longrightarrow> n \<in> {0x5C, 0x22, 0x08, 0x0C, 0x0A, 0x0D, 0x09} \<Longrightarrow>
     \<exists>d. json_esc n 1 = Some [CHR 0x5C, d] \<and> json_unesc d = Some c \<and> d \<noteq> CHR ''u''"
proof -
  assume c: "byte_of c = n" and n: "n \<in> {0x5C, 0x22, 0x08, 0x0C, 0x0A, 0x0D, 0x09}"
  have bk: "char_of (92 :: nat) = CHR 0x5C" "char_of (34 :: nat) = DQ"
    by (rule char_of_byte[symmetric], simp)+
  let ?K = "{CHR 0x5C, DQ, CHR 0x08, CHR 0x0C, NL, CR, CHR 0x09}"
  have inj: "inj byte_of" by (rule injI) (simp add: byte_of_inject)
  have "byte_of ` ?K = {0x5C, 0x22, 0x08, 0x0C, 0x0A, 0x0D, 0x09}" by simp
  with n c have "byte_of c \<in> byte_of ` ?K" by simp
  then have "c \<in> ?K" by (simp only: inj_image_mem_iff[OF inj])
  moreover have "\<forall>k \<in> ?K. \<exists>d. json_esc (byte_of k) 1 = Some [CHR 0x5C, d] \<and> json_unesc d = Some k
      \<and> d \<noteq> CHR ''u''"
    by (simp add: json_esc_def json_unesc_def bk)
  ultimately show ?thesis unfolding c[symmetric] by blast
qed

lemma json_read_step:
  assumes "byte_of c < 0x80"
  shows "json_read ((case json_esc (byte_of c) 1 of None \<Rightarrow> [c] | Some e \<Rightarrow> e) @ t) = push c (json_read t)"
proof -
  let ?b = "byte_of c"
  consider (esc) "?b \<in> {0x5C, 0x22, 0x08, 0x0C, 0x0A, 0x0D, 0x09}"
    | (u) "?b \<notin> {0x5C, 0x22, 0x08, 0x0C, 0x0A, 0x0D, 0x09}" "?b < 0x20 \<or> ?b = 0x26 \<or> ?b = 0x3C \<or> ?b = 0x3E"
    | (keep) "?b \<notin> {0x5C, 0x22, 0x08, 0x0C, 0x0A, 0x0D, 0x09}" "\<not> (?b < 0x20 \<or> ?b = 0x26 \<or> ?b = 0x3C \<or> ?b = 0x3E)"
    by auto
  then show ?thesis
  proof cases
    case u
    have h: "hex_val (hex_digit (?b div 16)) = Some (?b div 16)" "hex_val (hex_digit (?b mod 16)) = Some (?b mod 16)"
      using assms by (auto intro!: hex_val_digit)
    have "json_esc ?b 1 = Some [CHR 0x5C, CHR ''u'', CHR ''0'', CHR ''0'', hex_digit (?b div 16), hex_digit (?b mod 16)]"
      using u assms by (simp add: json_esc_def)
    then show ?thesis using h by simp
  next
    case keep
    have "c \<noteq> DQ" "c \<noteq> CHR 0x5C" using keep by auto
    moreover have "json_esc ?b 1 = None" using keep assms by (simp add: json_esc_def)
    ultimately show ?thesis by simp
  next
    case esc
    from json_escapes[OF refl esc] show ?thesis by auto
  qed
qed

text \<open>What a client reads back from a quoted ASCII string is the string.\<close>

lemma json_read_escape:
  "\<forall>c \<in> set s. byte_of c < 0x80 \<Longrightarrow> json_read (json_escape s @ DQ # rest) = Some (s, rest)"
proof (induction s)
  case Nil
  then show ?case by (simp add: json_escape.simps)
next
  case (Cons c cs)
  then show ?case using json_read_step[of c "json_escape cs @ DQ # rest"]
    by (simp add: json_escape_ascii push_def)
qed

end
