(* ===== verification/RestconfServer.thy ===== *)
theory RestconfServer
  imports CommandPath GoJson Lifecycle
begin

text \<open>
  \<open>internal/restconfserver/server.go\<close>: RESTCONF over the device. A GET maps its path to a
  command and wraps the output in JSON or XML; a PATCH runs the commands it finds in its body
  and always answers ok. A handler returns the response and the commands it ran on the device,
  in order. \<open>json.Unmarshal\<close> of a PATCH body is the argument \<open>junm\<close>: the edits, or
  \<open>None\<close> for its error.
\<close>

record edit =
  edit_id :: string
  edit_operation :: string
  edit_target :: string
  edit_value :: string

type_synonym rc_result = "http_outcome \<times> string list"

definition json_type :: string where "json_type = ''application/yang-data+json''"
definition xml_type :: string where "xml_type = ''application/yang-data+xml''"

definition ok_response :: "string \<Rightarrow> string \<Rightarrow> http_response" where
  "ok_response ctype body = \<lparr>status = 200, content_type = ctype, www_auth = None, resp_body = body\<rparr>"

section \<open>Paths\<close>

definition path_to_command :: "string \<Rightarrow> string" where
  "path_to_command url =
     (let path = trim_prefix url ''/restconf/data/'';
          path = trim_prefix path ''cli:'';
          cmd = trim_space (replace_all path ''/'' '' '')
      in if cmd = [] then ''show version'' else cmd)"

definition command_to_path :: "string \<Rightarrow> string" where
  "command_to_path cmd =
     (let words = go_fields cmd
      in if length words = 0 then ''/restconf/data/cli:show/version''
         else ''/restconf/data/cli:'' @ join ''/'' words)"

section \<open>Envelopes\<close>

definition json_response :: "string \<Rightarrow> string" where
  "json_response out =
     ''{'' @ [DQ] @ ''cli:output'' @ [DQ] @ '':{'' @ [DQ] @ ''response'' @ [DQ] @ '':''
     @ json_string out @ ''}}'' @ [NL]"

definition xml_response :: "string \<Rightarrow> string" where
  "xml_response out =
     ''<?xml version='' @ [DQ] @ ''1.0'' @ [DQ] @ '' encoding='' @ [DQ] @ ''UTF-8'' @ [DQ] @ ''?>'' @ [NL]
     @ ''<output xmlns='' @ [DQ] @ ''urn:cli'' @ [DQ] @ ''><response>'' @ xml_escape out
     @ ''</response></output>''"

section \<open>Handlers\<close>

definition rc_handle_get :: "device \<Rightarrow> http_request \<Rightarrow> rc_result" where
  "rc_handle_get dev r =
     (let cmd = path_to_command (url_path r); out = exec dev cmd
      in (Responded
            (if contains (accept_hdr r) xml_type then ok_response xml_type (xml_response out)
             else ok_response json_type (json_response out)), [cmd]))"

definition edit_command :: "string \<Rightarrow> string" where
  "edit_command target = replace_all (trim_prefix target ''/cli:'') ''/'' '' ''"

definition json_patch_commands :: "(string \<Rightarrow> edit list option) \<Rightarrow> string \<Rightarrow> string list" where
  "json_patch_commands junm body =
     (case junm body of
        Some (e # es) \<Rightarrow> map (\<lambda>edit. edit_command (edit_target edit)) (e # es)
      | _ \<Rightarrow> filter (\<lambda>cmd. cmd \<noteq> []) (map trim_space (split_on NL (trim_space body))))"

definition json_patch :: "(string \<Rightarrow> edit list option) \<Rightarrow> string \<Rightarrow> rc_result" where
  "json_patch junm body =
     (Responded (ok_response json_type
        (''{'' @ [DQ] @ ''ietf-yang-patch:yang-patch-status'' @ [DQ] @ '':{'' @ [DQ] @ ''ok'' @ [DQ] @ '':{}}}'')),
      json_patch_commands junm body)"

text \<open>One line of an XML body: the command it makes the server run, if any.\<close>

definition xml_patch_line :: "string \<Rightarrow> string list" where
  "xml_patch_line raw =
     (let line = trim_space raw
      in if prefix ''<target>'' line then
           (let target = trim_suffix (trim_prefix line ''<target>'') ''</target>'';
                cmd = edit_command target
            in if cmd \<noteq> [] then [cmd] else [])
         else [])"

definition xml_patch_commands :: "string \<Rightarrow> string list" where
  "xml_patch_commands body = concat (map xml_patch_line (split_on NL body))"

definition xml_patch :: "string \<Rightarrow> rc_result" where
  "xml_patch body =
     (Responded (ok_response xml_type
        (''<yang-patch-status xmlns='' @ [DQ] @ ''urn:ietf:params:xml:ns:yang:ietf-yang-patch'' @ [DQ]
         @ ''><ok/></yang-patch-status>'')),
      xml_patch_commands body)"

definition handle_patch :: "(string \<Rightarrow> edit list option) \<Rightarrow> http_request \<Rightarrow> rc_result" where
  "handle_patch junm r =
     (case req_body r of
        Inl _ \<Rightarrow> (Responded (http_error ''Bad Request'' 400), [])
      | Inr body \<Rightarrow>
          if contains (content_hdr r) ''xml'' then xml_patch body else json_patch junm body)"

definition handle_data :: "(string \<Rightarrow> edit list option) \<Rightarrow> device \<Rightarrow> http_request \<Rightarrow> rc_result" where
  "handle_data junm dev r =
     (if req_method r = ''GET'' then rc_handle_get dev r
      else if req_method r = ''PATCH'' then handle_patch junm r
      else (Responded (http_error ''Method Not Allowed'' 405), []))"

definition handle_host_meta :: rc_result where
  "handle_host_meta =
     (Responded (ok_response ''application/xrd+xml''
        (''<XRD xmlns='' @ [DQ] @ ''http://docs.oasis-open.org/ns/xri/xrd-1.0'' @ [DQ] @ ''><Link rel=''
         @ [DQ] @ ''restconf'' @ [DQ] @ '' href='' @ [DQ] @ ''/restconf'' @ [DQ] @ ''/></XRD>'')), [])"

definition rc_patterns :: "string list" where
  "rc_patterns = [''/restconf/data/'', ''/.well-known/host-meta'']"

definition rc_mux :: "(string \<Rightarrow> edit list option) \<Rightarrow> device \<Rightarrow> http_request \<Rightarrow> rc_result" where
  "rc_mux junm dev r =
     (case mux_route rc_patterns r of
        RedirectTo loc \<Rightarrow> (Moved loc, [])
      | NotFound \<Rightarrow> (Responded not_found, [])
      | ToPattern pat \<Rightarrow> if pat = ''/restconf/data/'' then handle_data junm dev r else handle_host_meta)"

definition rc_auth :: "device \<Rightarrow> (http_request \<Rightarrow> rc_result) \<Rightarrow> http_request \<Rightarrow> rc_result" where
  "rc_auth dev nxt r =
     (let deny = (Responded ((http_error ''Unauthorized'' 401)
            \<lparr>www_auth := Some (''Basic realm='' @ [DQ] @ ''restconf'' @ [DQ])\<rparr>), [])
      in case basic_auth r of
          None \<Rightarrow> deny
        | Some (user, pass) \<Rightarrow> if user \<noteq> username dev \<or> pass \<noteq> password dev then deny else nxt r)"

definition rc_serve :: "(string \<Rightarrow> edit list option) \<Rightarrow> device \<Rightarrow> http_request \<Rightarrow> rc_result" where
  "rc_serve junm dev = rc_auth dev (rc_mux junm dev)"

definition rc_close :: "string option \<Rightarrow> 'l endpoint \<Rightarrow> string option" where
  "rc_close srv_close s = close_srv srv_close s"

definition rc_listen_and_serve_tls ::
  "string option \<Rightarrow> (string \<Rightarrow> 'l result) \<Rightarrow> ('l \<Rightarrow> served) \<Rightarrow> 'l endpoint \<Rightarrow>
     string option \<times> 'l endpoint" where
  "rc_listen_and_serve_tls tls net_listen srv s = listen_and_serve tls net_listen srv s"

section \<open>The path contract\<close>

definition rc_carried :: "string \<Rightarrow> bool" where
  "rc_carried cmd \<longleftrightarrow> go_fields cmd \<noteq> [] \<and> (\<forall>w \<in> set (go_fields cmd). CHR ''/'' \<notin> set w)"

lemma join_not_Nil: "ws \<noteq> [] \<Longrightarrow> \<forall>w \<in> set ws. is_word w \<Longrightarrow> join sep ws \<noteq> []"
  by (cases ws rule: list.exhaust; cases "tl ws") (auto simp: is_word_def)

lemma path_to_command_words:
  assumes "ws \<noteq> []" "\<forall>w \<in> set ws. is_word w \<and> CHR ''/'' \<notin> set w"
  shows "path_to_command (''/restconf/data/cli:'' @ join ''/'' ws) = join '' '' ws"
proof -
  have p: "''/restconf/data/cli:'' @ join ''/'' ws = ''/restconf/data/'' @ ''cli:'' @ join ''/'' ws"
    by simp
  have t1: "trim_prefix (''/restconf/data/cli:'' @ join ''/'' ws) ''/restconf/data/'' = ''cli:'' @ join ''/'' ws"
    unfolding p by (rule trim_prefix_append)
  have t2: "trim_prefix (''cli:'' @ join ''/'' ws) ''cli:'' = join ''/'' ws"
    by (rule trim_prefix_append)
  have r: "replace_all (join ''/'' ws) ''/'' '' '' = join '' '' ws"
    using assms(2) by (intro replace_sep) auto
  have t: "trim_space (join '' '' ws) = join '' '' ws"
    using assms by (intro trim_space_words) auto
  show ?thesis using join_not_Nil[of ws "'' ''"] assms
    by (simp only: path_to_command_def Let_def t1 t2 r t) simp
qed

interpretation restconf_path: command_path command_to_path path_to_command rc_carried
proof
  fix cmd assume c: "rc_carried cmd"
  then have "path_to_command (''/restconf/data/cli:'' @ join ''/'' (go_fields cmd)) = join '' '' (go_fields cmd)"
    using fields_words by (intro path_to_command_words) (auto simp: rc_carried_def)
  then show "path_to_command (command_to_path cmd) = join '' '' (go_fields cmd)"
    using c by (simp add: command_to_path_def rc_carried_def)
qed

lemma path_default: "go_fields cmd = [] \<Longrightarrow> path_to_command (command_to_path cmd) = ''show version''"
proof -
  assume "go_fields cmd = []"
  then have "command_to_path cmd = ''/restconf/data/cli:'' @ join ''/'' [''show'', ''version'']"
    by (simp add: command_to_path_def)
  moreover have "path_to_command (''/restconf/data/cli:'' @ join ''/'' [''show'', ''version''])
      = join '' '' [''show'', ''version'']"
    by (rule path_to_command_words) (auto intro!: plain_word simp: plain_char_def)
  ultimately show ?thesis by simp
qed

text \<open>A slash inside a word is lost: it comes back as a blank.\<close>

lemma path_loses_slash:
  "path_to_command (command_to_path ''show interface Gi0/1'') = ''show interface Gi0 1''"
  by code_simp

section \<open>Responses\<close>

text \<open>A patch never fails once its body is read, and its answer says nothing of its commands.\<close>

lemma patch_always_ok:
  "req_body r = Inr body \<Longrightarrow>
     \<exists>resp. fst (handle_patch junm r) = Responded resp \<and> status resp = 200"
  by (auto simp: handle_patch_def xml_patch_def json_patch_def ok_response_def)

lemma rc_unauthorized:
  "basic_auth r \<noteq> Some (username dev, password dev) \<Longrightarrow>
     \<exists>resp. rc_serve junm dev r = (Responded resp, []) \<and> status resp = 401"
  by (auto simp: rc_serve_def rc_auth_def http_error_def Let_def split: option.splits)

section \<open>A GET, end to end\<close>

lemma route_data:
  assumes "esc_path r = ''/restconf/data/'' @ join ''/'' ss" "ss \<noteq> []" "list_all plain_seg ss"
  shows "mux_route rc_patterns r = ToPattern ''/restconf/data/''"
proof -
  have "esc_path r = CHR ''/'' # join ''/'' ([''restconf'', ''data''] @ ss)"
    using assms(1,2) by (simp add: join_Cons)
  then show ?thesis unfolding rc_patterns_def
    by (rule route_subtree) (use assms(2,3) in \<open>simp_all add: plain_seg_def\<close>)
qed

lemma rc_get_command:
  assumes "basic_auth r = Some (username dev, password dev)" "req_method r = ''GET''"
    and "esc_path r = ''/restconf/data/'' @ join ''/'' ss" "ss \<noteq> []" "list_all plain_seg ss"
    and "url_path r = command_to_path cmd" "rc_carried cmd" "normal_cmd cmd"
    and "\<not> contains (accept_hdr r) xml_type"
  shows "rc_serve junm dev r = (Responded (ok_response json_type (json_response (exec dev cmd))), [cmd])"
  using assms restconf_path.normal_roundtrip[OF assms(7,8)]
  by (simp add: rc_serve_def rc_auth_def rc_mux_def route_data handle_data_def rc_handle_get_def Let_def)

end
