(* ===== verification/GnmiServer.thy ===== *)
theory GnmiServer
  imports CommandPath Lifecycle
begin

text \<open>
  \<open>internal/gnmiserver/server.go\<close>: the gNMI target. Of the generated messages the fields the
  code reads and writes are kept; a path is the list of the names of its elements, the empty
  list standing for a missing path as well. Time stamps are left out of the responses. The
  commands run on the device are returned with each response.
\<close>

type_synonym gnmi_path = "string list"

datatype update_op = UPDATE | REPLACE

record get_response =
  notifications :: "(gnmi_path \<times> string) list"

record set_request =
  set_update :: "gnmi_path list"
  set_replace :: "gnmi_path list"

datatype subscribe_response = Update gnmi_path string | SyncResponse bool

record capability_response =
  supported_models :: "(string \<times> string \<times> string) list"
  supported_encodings :: "string list"
  gnmi_version :: string

section \<open>Paths\<close>

text \<open>The loop over the elements, with the index of the element.\<close>

fun path_parts :: "nat \<Rightarrow> gnmi_path \<Rightarrow> string list" where
  "path_parts i [] = []"
| "path_parts i (name # names) =
     (if i = 0 \<and> name = ''cli'' then path_parts (Suc i) names else name # path_parts (Suc i) names)"

definition path_to_cmd :: "gnmi_path \<Rightarrow> string" where
  "path_to_cmd elems = (if length elems = 0 then [] else join '' '' (path_parts 0 elems))"

definition cmd_to_path :: "string \<Rightarrow> gnmi_path" where
  "cmd_to_path cmd = ''cli'' # go_fields cmd"

section \<open>The RPCs\<close>

definition capabilities :: capability_response where
  "capabilities =
     \<lparr>supported_models = [(''cli'', ''clibench'', ''1.0.0'')], supported_encodings = [''ASCII''],
      gnmi_version = ''0.10.0''\<rparr>"

fun get_loop :: "device \<Rightarrow> (gnmi_path \<times> string) list \<Rightarrow> gnmi_path list \<Rightarrow> (gnmi_path \<times> string) list" where
  "get_loop dev ns [] = ns"
| "get_loop dev ns (path # paths) =
     get_loop dev (ns @ [(path, exec dev (path_to_cmd path))]) paths"

definition gnmi_get :: "device \<Rightarrow> gnmi_path list \<Rightarrow> get_response" where
  "gnmi_get dev paths = \<lparr>notifications = get_loop dev [] paths\<rparr>"

text \<open>The results, and the commands run, of one of the two loops of \<open>Set\<close>.\<close>

definition set_loop :: "update_op \<Rightarrow> gnmi_path list \<Rightarrow> (gnmi_path \<times> update_op) list \<times> string list" where
  "set_loop op paths = (map (\<lambda>p. (p, op)) paths, map path_to_cmd paths)"

definition gnmi_set :: "set_request \<Rightarrow> (gnmi_path \<times> update_op) list \<times> string list" where
  "gnmi_set req =
     (let (r1, c1) = set_loop UPDATE (set_update req); (r2, c2) = set_loop REPLACE (set_replace req)
      in (r1 @ r2, c1 @ c2))"

text \<open>
  \<open>Subscribe\<close>: \<open>send k\<close> is the error of the \<open>k\<close>-th \<open>Send\<close>. The result is what was sent and
  the error returned.
\<close>

fun subscribe_loop ::
  "device \<Rightarrow> (nat \<Rightarrow> string option) \<Rightarrow> nat \<Rightarrow> gnmi_path list \<Rightarrow> subscribe_response list \<times> string option" where
  "subscribe_loop dev send k [] =
     (case send k of Some e \<Rightarrow> ([], Some e) | None \<Rightarrow> ([SyncResponse True], None))"
| "subscribe_loop dev send k (path # paths) =
     (case send k of
        Some e \<Rightarrow> ([], Some e)
      | None \<Rightarrow>
          (let (rs, e) = subscribe_loop dev send (Suc k) paths
           in (Update path (exec dev (path_to_cmd path)) # rs, e)))"

definition subscribe ::
  "device \<Rightarrow> (nat \<Rightarrow> string option) \<Rightarrow> gnmi_path list option result \<Rightarrow> subscribe_response list \<times> string option" where
  "subscribe dev send recv =
     (case recv of
        Inl e \<Rightarrow> ([], Some e)
      | Inr None \<Rightarrow> ([], Some ''first message must be SubscribeRequest with subscribe field'')
      | Inr (Some paths) \<Rightarrow> subscribe_loop dev send 0 paths)"

definition gnmi_close :: "'l endpoint \<Rightarrow> string option" where
  "gnmi_close s = None"

definition gnmi_listen_and_serve ::
  "string option \<Rightarrow> (string \<Rightarrow> 'l result) \<Rightarrow> ('l \<Rightarrow> served) \<Rightarrow> 'l endpoint \<Rightarrow>
     string option \<times> 'l endpoint" where
  "gnmi_listen_and_serve tls net_listen srv s = listen_and_serve tls net_listen srv s"

section \<open>The path contract\<close>

lemma path_parts_later: "0 < i \<Longrightarrow> path_parts i names = names"
  by (induction i names rule: path_parts.induct) auto

lemma path_to_cmd_cli: "path_to_cmd (''cli'' # names) = join '' '' names"
  by (simp add: path_to_cmd_def path_parts_later)

interpretation gnmi_path: command_path cmd_to_path path_to_cmd "\<lambda>_. True"
  by unfold_locales (simp add: cmd_to_path_def path_to_cmd_cli)

section \<open>What the RPCs return\<close>

lemma get_loop_map: "get_loop dev ns paths = ns @ map (\<lambda>p. (p, exec dev (path_to_cmd p))) paths"
  by (induction dev ns paths rule: get_loop.induct) auto

lemma gnmi_get_outputs:
  assumes "\<forall>cmd \<in> set cmds. normal_cmd cmd"
  shows "map snd (notifications (gnmi_get dev (map cmd_to_path cmds))) = map (exec dev) cmds"
  using assms gnmi_path.normal_roundtrip
  by (auto simp: gnmi_get_def get_loop_map)

lemma gnmi_set_counts:
  "length (fst (gnmi_set req)) = length (set_update req) + length (set_replace req)"
  "snd (gnmi_set req) = map path_to_cmd (set_update req @ set_replace req)"
  by (simp_all add: gnmi_set_def set_loop_def)

text \<open>
  A subscription that succeeds sends one update per path, in order, and then the sync response;
  one that fails has sent a proper prefix of that and no sync response.
\<close>

definition full_stream :: "device \<Rightarrow> gnmi_path list \<Rightarrow> subscribe_response list" where
  "full_stream dev paths = map (\<lambda>p. Update p (exec dev (path_to_cmd p))) paths @ [SyncResponse True]"

lemma subscribe_loop_stream:
  "case subscribe_loop dev send k paths of
     (rs, None) \<Rightarrow> rs = full_stream dev paths \<and> (\<forall>j \<le> length paths. send (k + j) = None)
   | (rs, Some e) \<Rightarrow> strict_prefix rs (full_stream dev paths) \<and> send (k + length rs) = Some e"
proof (induction dev send k paths rule: subscribe_loop.induct)
  case (2 dev send k path paths)
  show ?case
  proof (cases "send k")
    case None
    note IH = 2[OF None]
    obtain rs e where r: "subscribe_loop dev send (Suc k) paths = (rs, e)" by fastforce
    show ?thesis
    proof (cases e)
      case None
      then have "\<forall>j \<le> length paths. send (Suc k + j) = None" using IH r by simp
      then have "\<forall>j \<le> Suc (length paths). send (k + j) = None"
        using \<open>send k = None\<close> by (metis Suc_le_mono add_0_right add_Suc add_Suc_right not0_implies_Suc)
      then show ?thesis using IH r \<open>send k = None\<close> None by (simp add: full_stream_def)
    next
      case (Some x)
      then show ?thesis using IH r \<open>send k = None\<close> by (simp add: full_stream_def)
    qed
  qed (simp add: full_stream_def)
qed (auto simp: full_stream_def split: option.splits)

end
