(* ===== verification/Proxy.thy ===== *)
theory Proxy
  imports HttpServer
begin

text \<open>
  \<open>internal/proxy/proxy.go\<close>: the site proxy, which runs the commands of an HTTP request over SSH
  on a backend. The SSH client library is a record of operations over a world of its own; the
  proxy keeps at most one connection, in its pool. In pooled mode the code holds the mutex for
  the whole of \<open>RunCommands\<close>, so calls are atomic steps.
\<close>

record ('c, 's, 'w) ssh_api =
  ssh_dial :: "'w \<Rightarrow> 'c result \<times> 'w"
  ssh_session :: "'c \<Rightarrow> 'w \<Rightarrow> 's result \<times> 'w"
  ssh_output :: "'s \<Rightarrow> string \<Rightarrow> 'w \<Rightarrow> string result \<times> 'w"
  ssh_sess_close :: "'s \<Rightarrow> 'w \<Rightarrow> 'w"
  ssh_close :: "'c \<Rightarrow> 'w \<Rightarrow> 'w"

record 'c proxy =
  px_pooled :: bool
  px_pool :: "'c option"

type_synonym ('c, 'w) px_state = "'c proxy \<times> 'w"

definition new_proxy :: "bool \<Rightarrow> 'c proxy" where
  "new_proxy pooled = \<lparr>px_pooled = pooled, px_pool = None\<rparr>"

section \<open>Connections\<close>

text \<open>The connection, whether it is the pooled one, and the error.\<close>

definition get_ssh :: "('c, 's, 'w) ssh_api \<Rightarrow> ('c, 'w) px_state \<Rightarrow> ('c \<times> bool) result \<times> ('c, 'w) px_state" where
  "get_ssh api st =
     (case st of (p, w) \<Rightarrow>
        if \<not> px_pooled p then
          (case ssh_dial api w of
             (Inl e, w') \<Rightarrow> (Inl e, (p, w'))
           | (Inr c, w') \<Rightarrow> (Inr (c, False), (p, w')))
        else case px_pool p of
            Some c \<Rightarrow> (Inr (c, True), (p, w))
          | None \<Rightarrow>
              (case ssh_dial api w of
                 (Inl e, w') \<Rightarrow> (Inl e, (p, w'))
               | (Inr c, w') \<Rightarrow> (Inr (c, True), (p\<lparr>px_pool := Some c\<rparr>, w'))))"

definition reset_pool :: "('c, 's, 'w) ssh_api \<Rightarrow> ('c, 'w) px_state \<Rightarrow> ('c, 'w) px_state" where
  "reset_pool api st =
     (case st of (p, w) \<Rightarrow>
        case px_pool p of
          Some c \<Rightarrow> (p\<lparr>px_pool := None\<rparr>, ssh_close api c w)
        | None \<Rightarrow> (p, w))"

section \<open>RunCommands\<close>

fun run_loop :: "('c, 's, 'w) ssh_api \<Rightarrow> 'c \<Rightarrow> bool \<Rightarrow> string \<Rightarrow> string list \<Rightarrow> ('c, 'w) px_state \<Rightarrow>
     (string \<times> string option) \<times> ('c, 'w) px_state" where
  "run_loop api c pooled out [] st = ((out, None), st)"
| "run_loop api c pooled out (cmd # cmds) (p, w) =
     (case ssh_session api c w of
        (Inl e, w1) \<Rightarrow>
          ((out, Some (''ssh session: '' @ e)), if pooled then reset_pool api (p, w1) else (p, w1))
      | (Inr sess, w1) \<Rightarrow>
          (case ssh_output api sess cmd w1 of
             (r, w2) \<Rightarrow>
               let w3 = ssh_sess_close api sess w2
               in case r of
                   Inl e \<Rightarrow>
                     ((out, Some (''ssh exec: '' @ e)), if pooled then reset_pool api (p, w3) else (p, w3))
                 | Inr b \<Rightarrow> run_loop api c pooled (out @ b) cmds (p, w3)))"

definition run_commands :: "('c, 's, 'w) ssh_api \<Rightarrow> ('c, 'w) px_state runner" where
  "run_commands api cmds st =
     (case get_ssh api st of
        (Inl e, st1) \<Rightarrow> (([], Some (''ssh dial: '' @ e)), st1)
      | (Inr (c, pooled), st1) \<Rightarrow>
          (case run_loop api c pooled [] cmds st1 of
             (r, (p, w)) \<Rightarrow> (r, if \<not> pooled then (p, ssh_close api c w) else (p, w))))"

definition proxy_mux :: "('c, 's, 'w) ssh_api \<Rightarrow> string \<Rightarrow> string \<Rightarrow> ('c, 'w) px_state handler" where
  "proxy_mux api user pass = mux user pass (run_commands api)"

text \<open>
  Close: the HTTP/3 server, then the HTTPS server (each may be absent), then the pool; the first
  error wins.
\<close>

definition proxy_close ::
  "('c, 's, 'w) ssh_api \<Rightarrow> string option option \<Rightarrow> string option option \<Rightarrow> ('c, 'w) px_state \<Rightarrow>
     string option \<times> ('c, 'w) px_state" where
  "proxy_close api h3 srv st =
     (let e1 = (case h3 of Some (Some e) \<Rightarrow> Some e | _ \<Rightarrow> None);
          e2 = (case srv of Some (Some e) \<Rightarrow> (if e1 = None then Some e else e1) | _ \<Rightarrow> e1)
      in (e2, reset_pool api st))"

definition proxy_listen_and_serve_tls ::
  "string option \<Rightarrow> (string \<Rightarrow> 'l result) \<Rightarrow> ('l \<Rightarrow> served) \<Rightarrow> 'l endpoint \<Rightarrow>
     string option \<times> 'l endpoint" where
  "proxy_listen_and_serve_tls tls net_listen srv s =
     (case tls of
        Some e \<Rightarrow> (Some e, s)
      | None \<Rightarrow>
          (case ep_listener s of
             Some ln \<Rightarrow> (serve_error (srv ln), s\<lparr>ep_serving := True\<rparr>)
           | None \<Rightarrow>
               (case net_listen (ep_addr s) of
                  Inl e \<Rightarrow> (Some e, s)
                | Inr ln \<Rightarrow> (serve_error (srv ln), s\<lparr>ep_listener := Some ln, ep_serving := True\<rparr>))))"

definition proxy_listen_and_serve_h3 ::
  "string option \<Rightarrow> (string \<Rightarrow> 'l result) \<Rightarrow> ('l \<Rightarrow> string option) \<Rightarrow> 'l endpoint \<Rightarrow>
     string option \<times> 'l endpoint" where
  "proxy_listen_and_serve_h3 tls net_listen srv s = listen_and_serve tls net_listen (h3_served \<circ> srv) s"

section \<open>What the proxy relies on\<close>

text \<open>
  The connections the library holds open: a successful dial adds one that was not there, closing
  takes one away, nothing else changes them.
\<close>

definition pool_set :: "'c proxy \<Rightarrow> 'c set" where
  "pool_set p = (case px_pool p of None \<Rightarrow> {} | Some c \<Rightarrow> {c})"

lemma pool_set_simps [simp]:
  "pool_set (p\<lparr>px_pool := Some c\<rparr>) = {c}" "pool_set (p\<lparr>px_pool := None\<rparr>) = {}"
  by (simp_all add: pool_set_def)

lemma reset_pool_keeps [frame]: "px_pooled (fst (reset_pool api st)) = px_pooled (fst st)"
  by (auto simp: reset_pool_def split: prod.splits option.splits)

lemma reset_pool_empty: "px_pool (fst (reset_pool api st)) = None"
  by (auto simp: reset_pool_def split: prod.splits option.splits)

locale ssh_conns =
  fixes api :: "('c, 's, 'w) ssh_api"
    and opened :: "'w \<Rightarrow> 'c set"
  assumes dial_opens: "ssh_dial api w = (Inr c, w') \<Longrightarrow> c \<notin> opened w \<and> opened w' = insert c (opened w)"
    and dial_fails: "ssh_dial api w = (Inl e, w') \<Longrightarrow> opened w' = opened w"
    and session_frame: "opened (snd (ssh_session api c w)) = opened w"
    and output_frame: "opened (snd (ssh_output api s cmd w)) = opened w"
    and sess_close_frame: "opened (ssh_sess_close api s w) = opened w"
    and close_closes: "opened (ssh_close api c w) = opened w - {c}"
begin

definition holds_pool :: "('c, 'w) px_state \<Rightarrow> bool" where
  "holds_pool st = (case st of (p, w) \<Rightarrow> pool_set p \<subseteq> opened w \<and> (\<not> px_pooled p \<longrightarrow> px_pool p = None))"

text \<open>The connections open besides the pooled one.\<close>

definition others :: "('c, 'w) px_state \<Rightarrow> 'c set" where
  "others st = (case st of (p, w) \<Rightarrow> opened w - pool_set p)"

lemma reset_pool_others: "holds_pool st \<Longrightarrow> holds_pool (reset_pool api st) \<and> others (reset_pool api st) = others st"
  by (auto simp: holds_pool_def others_def reset_pool_def pool_set_def close_closes
      split: prod.splits option.splits)

lemma run_loop_frame:
  "run_loop api c pooled out cmds (p, w) = (r, (p', w')) \<Longrightarrow> holds_pool (p, w) \<Longrightarrow>
     (pooled \<longrightarrow> holds_pool (p', w') \<and> others (p', w') = others (p, w))
     \<and> (\<not> pooled \<longrightarrow> p' = p \<and> opened w' = opened w)"
proof (induction cmds arbitrary: out w)
  case (Cons cmd cmds)
  obtain rs w1 where s: "ssh_session api c w = (rs, w1)" by fastforce
  have o1: "opened w1 = opened w" using session_frame[of c w] s by simp
  have h1: "holds_pool (p, w1)" "others (p, w1) = others (p, w)"
    using Cons.prems(2) o1 by (simp_all add: holds_pool_def others_def)
  show ?case
  proof (cases rs)
    case (Inl e)
    then show ?thesis using Cons.prems s h1 o1 reset_pool_others[OF h1(1)] by (auto split: if_splits)
  next
    case (Inr sess)
    obtain ro w2 where o: "ssh_output api sess cmd w1 = (ro, w2)" by fastforce
    let ?w3 = "ssh_sess_close api sess w2"
    have o3: "opened ?w3 = opened w" using output_frame[of sess cmd w1] o o1 sess_close_frame by simp
    have h3: "holds_pool (p, ?w3)" "others (p, ?w3) = others (p, w)"
      using Cons.prems(2) o3 by (simp_all add: holds_pool_def others_def)
    show ?thesis
    proof (cases ro)
      case (Inl e)
      then show ?thesis using Cons.prems(1) s Inr o h3 o3 reset_pool_others[OF h3(1)]
        by (auto simp: Let_def split: if_splits)
    next
      case (Inr b)
      then have "run_loop api c pooled (out @ b) cmds (p, ?w3) = (r, (p', w'))"
        using Cons.prems(1) s \<open>rs = Inr sess\<close> o by (simp add: Let_def)
      from Cons.IH[OF this h3(1)] show ?thesis using h3 o3 by simp
    qed
  qed
qed simp

text \<open>No connection leaks: after a call only the pool may differ.\<close>

lemma run_commands_no_leak:
  assumes "holds_pool st" "run_commands api cmds st = (r, st')"
  shows "holds_pool st' \<and> others st' = others st"
proof -
  obtain p w where st: "st = (p, w)" by fastforce
  obtain g p1 w1 where g: "get_ssh api (p, w) = (g, (p1, w1))" by (metis prod.exhaust)
  show ?thesis
  proof (cases g)
    case (Inl e)
    then have "p1 = p" "opened w1 = opened w"
      using g by (auto simp: get_ssh_def split: if_splits option.splits prod.splits sum.splits dest: dial_fails)
    then show ?thesis using assms g st Inl by (auto simp: run_commands_def holds_pool_def others_def)
  next
    case (Inr cb)
    obtain c pooled where cb: "cb = (c, pooled)" by fastforce
    obtain q p2 w2 where l: "run_loop api c pooled [] cmds (p1, w1) = (q, (p2, w2))" by (metis prod.exhaust)
    have st': "st' = (if \<not> pooled then (p2, ssh_close api c w2) else (p2, w2))"
      using assms(2) st g Inr cb l by (simp add: run_commands_def)
    show ?thesis
    proof (cases pooled)
      case True
      then have "holds_pool (p1, w1) \<and> others (p1, w1) = others (p, w)"
        using g Inr cb assms(1) st
        by (auto simp: get_ssh_def holds_pool_def others_def pool_set_def
            split: if_splits option.splits prod.splits sum.splits dest: dial_opens)
      then show ?thesis using run_loop_frame[OF l] True st st' by simp
    next
      case False
      then have *: "p1 = p" "c \<notin> opened w" "opened w1 = insert c (opened w)"
        using g Inr cb by (auto simp: get_ssh_def split: if_splits option.splits prod.splits sum.splits dest: dial_opens)
      then have "holds_pool (p1, w1)" using assms(1) st by (auto simp: holds_pool_def)
      then have "p2 = p" "opened w2 = insert c (opened w)" using run_loop_frame[OF l] False * by auto
      then show ?thesis using assms(1) st st' False *(2)
        by (auto simp: holds_pool_def others_def close_closes)
    qed
  qed
qed

lemma proxy_close_releases:
  assumes "holds_pool st"
  shows "opened (snd (snd (proxy_close api h3 srv st))) = others st"
    and "px_pool (fst (snd (proxy_close api h3 srv st))) = None"
  using assms
  by (auto simp: proxy_close_def reset_pool_def others_def holds_pool_def pool_set_def close_closes Let_def
      split: prod.splits option.splits)

end

text \<open>After a command fails in pooled mode the pool is empty: the next call dials.\<close>

lemma run_loop_error_resets:
  "run_loop api c True out cmds (p, w) = ((o', Some e), (p', w')) \<Longrightarrow> px_pool p' = None"
proof (induction cmds arbitrary: out w)
  case (Cons cmd cmds)
  then show ?case
    using reset_pool_empty[of api]
    by (auto simp: Let_def split: prod.splits sum.splits) (metis fst_conv)+
qed simp

lemma run_commands_error_resets:
  assumes "px_pooled p" "run_commands api cmds (p, w) = ((out, Some e), (p', w'))"
  shows "px_pool p' = None"
  using assms run_loop_error_resets
  by (fastforce simp: run_commands_def get_ssh_def split: option.splits prod.splits sum.splits)

section \<open>A backend that works\<close>

text \<open>
  In a world that is up, dialing succeeds, every open connection gives sessions, and a session
  prints what the command prints.
\<close>

locale ssh_backend = ssh_conns api opened
  for api :: "('c, 's, 'w) ssh_api" and opened :: "'w \<Rightarrow> 'c set" +
  fixes up :: "'w \<Rightarrow> bool"
    and conn_of :: "'s \<Rightarrow> 'c"
    and exec1 :: "string \<Rightarrow> string"
  assumes up_dial: "up w \<Longrightarrow> \<exists>c w'. ssh_dial api w = (Inr c, w') \<and> up w'"
    and up_session: "up w \<Longrightarrow> c \<in> opened w \<Longrightarrow>
          \<exists>s w'. ssh_session api c w = (Inr s, w') \<and> conn_of s = c \<and> up w'"
    and up_output: "up w \<Longrightarrow> conn_of s \<in> opened w \<Longrightarrow>
          \<exists>w'. ssh_output api s cmd w = (Inr (exec1 cmd), w') \<and> up w'"
    and up_sess_close: "up w \<Longrightarrow> up (ssh_sess_close api s w)"
    and up_close: "up w \<Longrightarrow> up (ssh_close api c w)"
begin

definition good :: "('c, 'w) px_state \<Rightarrow> bool" where
  "good st \<longleftrightarrow> holds_pool st \<and> up (snd st)"

lemma run_loop_good:
  "up w \<Longrightarrow> c \<in> opened w \<Longrightarrow>
     \<exists>w'. run_loop api c pooled out cmds (p, w) = ((out @ concat (map exec1 cmds), None), (p, w'))
       \<and> up w' \<and> opened w' = opened w"
proof (induction cmds arbitrary: out w)
  case (Cons cmd cmds)
  obtain sess w1 where s: "ssh_session api c w = (Inr sess, w1)" "conn_of sess = c" "up w1"
    using up_session[OF Cons.prems] by blast
  have o1: "opened w1 = opened w" using session_frame[of c w] s(1) by simp
  obtain w2 where o: "ssh_output api sess cmd w1 = (Inr (exec1 cmd), w2)" "up w2"
    using up_output[OF s(3), of sess cmd] s(2) o1 Cons.prems(2) by auto
  let ?w3 = "ssh_sess_close api sess w2"
  have o3: "opened ?w3 = opened w" using output_frame[of sess cmd w1] o(1) o1 sess_close_frame by simp
  have "up ?w3" "c \<in> opened ?w3" using o(2) up_sess_close o3 Cons.prems(2) by auto
  from Cons.IH[OF this, of "out @ exec1 cmd"] show ?case
    using s(1) o(1) o3 by (simp add: Let_def)
qed simp

lemma run_commands_good:
  assumes "good st"
  shows "\<exists>st'. run_commands api cmds st = ((concat (map exec1 cmds), None), st') \<and> good st'"
proof -
  obtain p w where st: "st = (p, w)" by fastforce
  have up: "up w" using assms by (simp add: good_def st)
  obtain c w1 where d: "ssh_dial api w = (Inr c, w1)" "up w1" using up_dial[OF up] by blast
  note dial = dial_opens[OF d(1)]
  have hold: "holds_pool st'" if "run_commands api cmds st = (r, st')" for r st'
    using run_commands_no_leak[OF _ that] assms by (simp add: good_def)
  show ?thesis
  proof (cases "\<not> px_pooled p")
    case True
    obtain w2 where l: "run_loop api c False [] cmds (p, w1) = (([] @ concat (map exec1 cmds), None), (p, w2))"
      "up w2" using run_loop_good[OF d(2), of c False "[]" cmds p] dial by auto
    have "run_commands api cmds st = ((concat (map exec1 cmds), None), (p, ssh_close api c w2))"
      using True d l by (simp add: run_commands_def get_ssh_def st)
    then show ?thesis using hold l(2) up_close by (auto simp: good_def)
  next
    case pooled: False
    show ?thesis
    proof (cases "px_pool p")
      case None
      let ?p = "p\<lparr>px_pool := Some c\<rparr>"
      obtain w2 where l: "run_loop api c True [] cmds (?p, w1) = (([] @ concat (map exec1 cmds), None), (?p, w2))"
        "up w2" using run_loop_good[OF d(2), of c True "[]" cmds ?p] dial by auto
      have "run_commands api cmds st = ((concat (map exec1 cmds), None), (?p, w2))"
        using pooled None d l by (simp add: run_commands_def get_ssh_def st)
      then show ?thesis using hold l(2) by (auto simp: good_def)
    next
      case (Some c')
      then have "c' \<in> opened w" using assms by (simp add: good_def holds_pool_def st pool_set_def)
      then obtain w2 where l: "run_loop api c' True [] cmds (p, w) = (([] @ concat (map exec1 cmds), None), (p, w2))"
        "up w2" using run_loop_good[OF up, of c' True "[]" cmds p] by auto
      have "run_commands api cmds st = ((concat (map exec1 cmds), None), (p, w2))"
        using pooled Some l by (simp add: run_commands_def get_ssh_def st)
      then show ?thesis using hold l(2) by (auto simp: good_def)
    qed
  qed
qed

end

sublocale ssh_backend \<subseteq> runner: cmd_runner "run_commands api" good exec1 "\<lambda>_. True"
  by unfold_locales (rule run_commands_good)

end
