(* ===== verification/GoUrl.thy ===== *)
theory GoUrl
  imports HttpMux
begin

text \<open>
  What the program uses of \<open>net/url\<close> and \<open>http.NewRequest\<close>: a target below a server's base
  URL is cut at the fragment and the query, checked for control characters, and its path is
  decoded; \<open>EscapedPath\<close> is what is sent. The base URL has no path of its own.
\<close>

definition alnum :: "char \<Rightarrow> bool" where
  "alnum c \<longleftrightarrow>
     (let n = of_char c :: nat
      in (48 \<le> n \<and> n \<le> 57) \<or> (65 \<le> n \<and> n \<le> 90) \<or> (97 \<le> n \<and> n \<le> 122))"

definition should_escape :: "char \<Rightarrow> bool" where
  "should_escape c \<longleftrightarrow> \<not> (alnum c \<or> c \<in> set ''-_.~$&+,/:;=@'')"

definition upper_hex :: "nat \<Rightarrow> char" where
  "upper_hex d = (if d < 10 then char_of (48 + d) else char_of (55 + d))"

definition escape_char :: "char \<Rightarrow> string" where
  "escape_char c =
     (if should_escape c
      then [CHR ''%'', upper_hex (of_char c div 16), upper_hex (of_char c mod 16)] else [c])"

definition escape_path :: "string \<Rightarrow> string" where
  "escape_path s = concat (map escape_char s)"

definition valid_encoded :: "string \<Rightarrow> bool" where
  "valid_encoded s \<longleftrightarrow>
     list_all (\<lambda>c. c \<in> set ''!$&()*+,;=:@[]%'' \<or> c = CHR 0x27 \<or> \<not> should_escape c) s"

text \<open>\<open>URL.setPath\<close> and \<open>URL.EscapedPath\<close>: the decoded path and the path as sent.\<close>

definition wire_path :: "string \<Rightarrow> (string \<times> string) option" where
  "wire_path p =
     (case percent_decode p of
        None \<Rightarrow> None
      | Some path \<Rightarrow>
          (let raw = (if escape_path path = p then [] else p)
           in Some (path, if raw \<noteq> [] \<and> valid_encoded raw then raw
                          else if path = ''*'' then ''*'' else escape_path path)))"

definition is_ctl :: "char \<Rightarrow> bool" where
  "is_ctl c \<longleftrightarrow> (of_char c :: nat) < 0x20 \<or> (of_char c :: nat) = 0x7F"

definition cut_at :: "char \<Rightarrow> string \<Rightarrow> string \<times> string" where
  "cut_at c s = (takeWhile (\<lambda>x. x \<noteq> c) s, tl (dropWhile (\<lambda>x. x \<noteq> c) s))"

definition parse_target :: "string \<Rightarrow> (string \<times> string) option" where
  "parse_target target =
     (case cut_at (CHR ''#'') target of (u, frag) \<Rightarrow>
        if list_ex is_ctl u then None
        else case wire_path (fst (cut_at (CHR ''?'') u)) of
            None \<Rightarrow> None
          | Some wp \<Rightarrow> if percent_decode frag = None then None else Some wp)"

text \<open>\<open>parse_err\<close> is the text of the parse error.\<close>

definition new_request :: "(string \<Rightarrow> string) \<Rightarrow> string \<Rightarrow> string \<Rightarrow> string \<Rightarrow> http_request result" where
  "new_request parse_err meth target body =
     (case parse_target target of
        None \<Rightarrow> Inl (parse_err target)
      | Some (path, esc) \<Rightarrow>
          Inr \<lparr>req_method = meth, esc_path = esc, url_path = path, auth_cred = None,
               accept_hdr = [], content_hdr = [], req_body = Inr body\<rparr>)"

section \<open>Lemmas\<close>

text \<open>Characters that stand for themselves in a path.\<close>

lemma escape_path_id: "list_all (\<lambda>c. \<not> should_escape c) s \<Longrightarrow> escape_path s = s"
  by (induction s) (auto simp: escape_path_def escape_char_def)

lemma should_escape_special [simp]:
  "should_escape (CHR ''%'')" "should_escape (CHR ''#'')" "should_escape (CHR ''?'')" "should_escape (CHR '' '')"
  by (simp_all add: should_escape_def alnum_def Let_def)

lemma plain_not_ctl: "\<not> should_escape c \<Longrightarrow> \<not> is_ctl c"
  by (auto simp: should_escape_def alnum_def is_ctl_def Let_def)

lemma cut_at_none: "c \<notin> set s \<Longrightarrow> cut_at c s = (s, [])"
  by (induction s) (auto simp: cut_at_def)

lemma parse_target_plain:
  assumes "list_all (\<lambda>c. \<not> should_escape c) s"
  shows "parse_target s = Some (s, s)"
proof -
  have no: "CHR ''%'' \<notin> set s" "CHR ''#'' \<notin> set s" "CHR ''?'' \<notin> set s"
    using assms by (auto simp: list_all_iff)
  have ctl: "\<not> list_ex is_ctl s"
    using assms plain_not_ctl by (auto simp: list_all_iff list_ex_iff)
  have "wire_path s = Some (s, s)"
    using assms no(1) by (auto simp: wire_path_def percent_decode_id escape_path_id)
  then show ?thesis using no ctl by (simp add: parse_target_def cut_at_none)
qed

text \<open>Escaping a path and decoding it again gives the path back.\<close>

lemma hex_val_upper: "d < 16 \<Longrightarrow> hex_val (upper_hex d) = Some d"
  by (auto simp: hex_val_def upper_hex_def of_char_of Let_def)

lemma percent_decode_escape_char:
  "percent_decode (escape_char c @ s) = map_option ((#) c) (percent_decode s)"
proof (cases "should_escape c")
  case True
  have "(of_char c :: nat) < 16 * 16" by simp
  then have "(of_char c :: nat) div 16 < 16" by (rule less_mult_imp_div_less)
  then have "hex_val (upper_hex (of_char c div 16)) = Some (of_char c div 16)"
    "hex_val (upper_hex (of_char c mod 16)) = Some (of_char c mod 16)"
    by (auto intro: hex_val_upper)
  then show ?thesis using True by (simp add: escape_char_def)
next
  case False
  then have "c \<noteq> CHR ''%''" by auto
  then show ?thesis using False by (simp add: escape_char_def)
qed

lemma percent_decode_escape: "percent_decode (escape_path s) = Some s"
proof (induction s)
  case Nil
  then show ?case by (simp add: escape_path_def)
next
  case (Cons c cs)
  then show ?case using percent_decode_escape_char[of c "escape_path cs"]
    by (simp add: escape_path_def)
qed

end
