(* ===== verification/Headend.thy ===== *)
theory Headend
  imports HttpServer GoUrl
begin

text \<open>
  \<open>internal/headend/headend.go\<close>: the SSH front end of the tunnel. An exec payload of one line
  becomes a GET, a longer one a POST, to the site proxy; the body that comes back is what the
  SSH client sees. \<open>http.Client.Do\<close> over the chosen transport is the argument \<open>do\<close>, on a
  state of its own.
\<close>

type_synonym 'w transport = "http_request \<Rightarrow> 'w \<Rightarrow> http_response result \<times> 'w"

definition answer_body :: "http_response result \<Rightarrow> string result" where
  "answer_body r =
     (case r of
        Inl e \<Rightarrow> Inl e
      | Inr resp \<Rightarrow> if status resp \<noteq> 200 then Inl (''HTTP '' @ dec (status resp)) else Inr (resp_body resp))"

definition send_request :: "'w transport \<Rightarrow> string \<Rightarrow> string \<Rightarrow> http_request result \<Rightarrow> 'w \<Rightarrow> string result \<times> 'w" where
  "send_request do user pass req w =
     (case req of
        Inl e \<Rightarrow> (Inl e, w)
      | Inr r \<Rightarrow>
          (case do (r\<lparr>auth_cred := set_basic_auth user pass\<rparr>) w of
             (resp, w') \<Rightarrow> (answer_body resp, w')))"

definition forward ::
  "(string \<Rightarrow> string) \<Rightarrow> 'w transport \<Rightarrow> string \<Rightarrow> string \<Rightarrow> string \<Rightarrow> 'w \<Rightarrow> string result \<times> 'w" where
  "forward parse_err do user pass payload w =
     (let lines = split_on NL (trim_space payload)
      in if length lines = 1 then
           (let cmd = replace_all (trim_space (lines ! 0)) '' '' ''+''
            in send_request do user pass (new_request parse_err ''GET'' (''/admin/exec/'' @ cmd) []) w)
         else send_request do user pass (new_request parse_err ''POST'' ''/admin/config'' payload) w)"

definition forwarded_text :: "string result \<Rightarrow> string" where
  "forwarded_text r = (case r of Inl e \<Rightarrow> ''%Error: '' @ e @ [NL] | Inr out \<Rightarrow> out)"

fun he_handle_session ::
  "(string \<Rightarrow> string) \<Rightarrow> 'w transport \<Rightarrow> string \<Rightarrow> string \<Rightarrow> ssh_request list \<Rightarrow> 'w \<Rightarrow> chan_act list \<times> 'w" where
  "he_handle_session parse_err do user pass [] w = ([CloseCh], w)"
| "he_handle_session parse_err do user pass (req # reqs) w =
     (if req_type req \<noteq> ''exec'' then
        (let (as, w') = he_handle_session parse_err do user pass reqs w in (Reply False # as, w'))
      else
        (let exec_cmd = exec_payload (req_payload req)
         in if exec_cmd \<noteq> [] then
              (case forward parse_err do user pass exec_cmd w of
                 (r, w') \<Rightarrow> ([Reply True, Out (forwarded_text r), exit_zero, CloseCh], w'))
            else ([Reply True, exit_zero, CloseCh], w)))"

definition he_close :: "('l \<Rightarrow> string option) \<Rightarrow> 'l endpoint \<Rightarrow> string option" where
  "he_close ln_close s = close_listener ln_close s"

definition he_listen_and_serve ::
  "(string \<Rightarrow> 'l result) \<Rightarrow> ('l \<Rightarrow> served) \<Rightarrow> 'l endpoint \<Rightarrow> string option \<times> 'l endpoint" where
  "he_listen_and_serve net_listen srv s = ssh_listen_and_serve net_listen srv s"

section \<open>A transport that reaches a handler\<close>

text \<open>The handler of the site proxy itself, without a network; redirects are not followed.\<close>

definition direct :: "'w handler \<Rightarrow> 'w transport" where
  "direct handle req w =
     (case handle req w of
        (Responded resp, w') \<Rightarrow> (Inr resp, w')
      | (Moved loc, w') \<Rightarrow> (Inl (''redirect to '' @ loc), w'))"

lemma authorized_set:
  "CHR '':'' \<notin> set user \<Longrightarrow> authorized user pass (r\<lparr>auth_cred := set_basic_auth user pass\<rparr>)"
  by (simp add: authorized_def basic_auth_set)

lemma config_target: "parse_target ''/admin/config'' = Some (''/admin/config'', ''/admin/config'')"
  by (rule parse_target_plain) (simp add: should_escape_def alnum_def)

text \<open>A payload whose trimmed text has several lines goes out as one POST.\<close>

definition multi_line :: "string \<Rightarrow> bool" where
  "multi_line payload \<longleftrightarrow> NL \<in> set (trim_space payload)"

lemma split_on_length: "length (split_on sep s) = 1 \<longleftrightarrow> sep \<notin> set s"
  by (induction s) (auto split: list.splits)

text \<open>
  A command that a GET path carries: trimmed, of characters that stand for themselves in a path
  or blanks, without the slash and the plus that the path gives a meaning, and not a dot segment.
\<close>

definition url_cmd :: "string \<Rightarrow> bool" where
  "url_cmd cmd \<longleftrightarrow> cmd \<noteq> [] \<and> trim_space cmd = cmd \<and> cmd \<noteq> ''.'' \<and> cmd \<noteq> ''..''
     \<and> list_all (\<lambda>c. c = CHR '' '' \<or> \<not> should_escape c \<and> c \<noteq> CHR ''/'' \<and> c \<noteq> CHR ''+'') cmd"

lemma url_cmd_target:
  assumes "url_cmd cmd"
  defines "seg \<equiv> replace_all cmd '' '' ''+''"
  shows "plain_seg seg" "list_all (\<lambda>c. \<not> should_escape c) (''/admin/exec/'' @ seg)"
    and "path_commands seg = [cmd]" "NL \<notin> set cmd"
proof -
  have seg: "seg = map (\<lambda>c. if c = CHR '' '' then CHR ''+'' else c) cmd"
    by (simp add: seg_def replace_all_char)
  have c: "\<forall>c \<in> set cmd. c = CHR '' '' \<or> \<not> should_escape c \<and> c \<noteq> CHR ''/'' \<and> c \<noteq> CHR ''+''"
    using assms(1) by (simp add: url_cmd_def list_all_iff)
  have np: "x \<noteq> CHR ''+''" if "x \<in> set cmd" for x
    using bspec[OF c that] by auto
  have inv: "cmd = map (\<lambda>c. if c = CHR ''+'' then CHR '' '' else c) seg"
    unfolding seg map_map by (rule map_idem_on[symmetric]) (simp add: np)
  have "cmd \<noteq> ''.'' \<and> cmd \<noteq> ''..'' \<and> cmd \<noteq> []" using assms(1) by (simp add: url_cmd_def)
  moreover have "cmd = t" if "seg = t" "map (\<lambda>c. if c = CHR ''+'' then CHR '' '' else c) t = t" for t
    using inv that by metis
  from this[of "''.''"] this[of "''..''"] this[of "[]"]
  have "seg = ''.'' \<Longrightarrow> cmd = ''.''" "seg = ''..'' \<Longrightarrow> cmd = ''..''" "seg = [] \<Longrightarrow> cmd = []"
    by simp_all
  ultimately have dots: "seg \<noteq> ''.''" "seg \<noteq> ''..''" "seg \<noteq> []" by blast+
  have "CHR ''%'' \<notin> set cmd" using bspec[OF c, of "CHR ''%''"] by auto
  moreover have "CHR ''/'' \<notin> set cmd" using bspec[OF c, of "CHR ''/''"] by auto
  ultimately have "CHR ''%'' \<notin> set seg" "CHR ''/'' \<notin> set seg"
    by (auto simp: seg split: if_splits)
  then show "plain_seg seg" using dots by (simp add: plain_seg_def)
  have "\<not> should_escape (CHR ''+'')" by (simp add: should_escape_def)
  then have "\<not> should_escape (if x = CHR '' '' then CHR ''+'' else x)" if "x \<in> set cmd" for x
    using bspec[OF c that] by (cases "x = CHR '' ''") simp_all
  then have "list_all (\<lambda>c. \<not> should_escape c) seg"
    unfolding seg list_all_iff set_map ball_simps by blast
  moreover have "list_all (\<lambda>c. \<not> should_escape c) ''/admin/exec/''"
    by (simp add: should_escape_def alnum_def)
  ultimately show "list_all (\<lambda>c. \<not> should_escape c) (''/admin/exec/'' @ seg)"
    by (simp only: list_all_append)
  have "CHR ''/'' \<notin> set cmd" "CHR ''+'' \<notin> set cmd" using bspec[OF c, of "CHR ''/''"] np by auto
  then show "path_commands seg = [cmd]"
    using path_commands_join[of "[cmd]"] assms(1) by (simp add: seg_def url_cmd_def)
  have "should_escape NL" by (simp add: should_escape_def alnum_def)
  then show "NL \<notin> set cmd" using bspec[OF c, of NL] by auto
qed

context cmd_runner
begin

lemma forward_post:
  assumes "good w" "CHR '':'' \<notin> set user" "multi_line payload"
    and "\<forall>c \<in> set (body_commands payload). runs c"
  shows "\<exists>w'. forward parse_err (direct (mux user pass run)) user pass payload w =
           (Inr (concat (map exec1 (body_commands payload))), w') \<and> good w'"
proof -
  let ?r = "\<lparr>req_method = ''POST'', esc_path = ''/admin/config'', url_path = ''/admin/config'',
      auth_cred = set_basic_auth user pass, accept_hdr = [], content_hdr = [], req_body = Inr payload\<rparr>"
  have "authorized user pass ?r" using assms(2) by (simp add: authorized_def basic_auth_set)
  from post_config[OF assms(1) this, of payload] assms(4) obtain w' where
    p: "mux user pass run ?r w = (Responded (ok_text (concat (map exec1 (body_commands payload)))), w')" "good w'"
    by auto
  have "length (split_on NL (trim_space payload)) \<noteq> 1"
    using assms(3) by (simp only: split_on_length multi_line_def) simp
  then show ?thesis using p
    by (simp add: forward_def Let_def new_request_def config_target send_request_def direct_def
        answer_body_def ok_text_def)
qed

lemma forward_get:
  assumes "good w" "CHR '':'' \<notin> set user" "trim_space payload = cmd" "url_cmd cmd" "runs cmd"
  shows "\<exists>w'. forward parse_err (direct (mux user pass run)) user pass payload w =
           (Inr (exec1 cmd), w') \<and> good w'"
proof -
  let ?seg = "replace_all cmd '' '' ''+''"
  let ?t = "''/admin/exec/'' @ ?seg"
  note seg = url_cmd_target[OF assms(4)]
  let ?r = "\<lparr>req_method = ''GET'', esc_path = ?t, url_path = ?t,
      auth_cred = set_basic_auth user pass, accept_hdr = [], content_hdr = [], req_body = Inr []\<rparr>"
  have auth: "authorized user pass ?r" using assms(2) by (simp add: authorized_def basic_auth_set)
  have "?seg \<noteq> []" using seg(1) by (simp add: plain_seg_def)
  from get_exec[OF assms(1) auth, of "[cmd]" "[?seg]" ?seg] this seg assms(5) obtain w' where
    p: "mux user pass run ?r w = (Responded (ok_text (exec1 cmd)), w')" "good w'"
    by auto
  have one: "split_on NL (trim_space payload) = [cmd]"
    using seg(4) by (simp add: assms(3) split_on_id)
  have n: "new_request parse_err ''GET'' ?t [] = Inr (?r\<lparr>auth_cred := None\<rparr>)"
    using parse_target_plain[OF seg(2)] by (simp add: new_request_def)
  have tc: "trim_space cmd = cmd" using assms(4) by (simp add: url_cmd_def)
  have "forward parse_err (direct (mux user pass run)) user pass payload w =
      send_request (direct (mux user pass run)) user pass (Inr (?r\<lparr>auth_cred := None\<rparr>)) w"
    using n tc by (simp add: forward_def one Let_def)
  then show ?thesis using p by (simp add: send_request_def direct_def answer_body_def ok_text_def)
qed

end

end
