(* ===== verification/Loopback.thy ===== *)
theory Loopback
  imports Proxy Headend
begin

text \<open>
  An SSH client library connected to the SSH server of the model, with a schedule of faults. It
  interprets what the proxy relies on: a dial authenticates with the server's password callback,
  \<open>Output\<close> sends an exec request to its session handler and collects what that writes.
\<close>

record loopback =
  lb_device :: device
  lb_user :: string
  lb_pass :: string
  lb_open :: "nat list"
  lb_faults :: "bool list"

text \<open>Every operation takes one entry of the schedule; when it runs out nothing fails.\<close>

definition lb_fault :: "loopback \<Rightarrow> bool \<times> loopback" where
  "lb_fault w = (case lb_faults w of [] \<Rightarrow> (False, w) | f # fs \<Rightarrow> (f, w\<lparr>lb_faults := fs\<rparr>))"

definition fresh_conn :: "nat list \<Rightarrow> nat" where
  "fresh_conn cs = Suc (foldr max cs 0)"

definition lb_dial :: "loopback \<Rightarrow> nat result \<times> loopback" where
  "lb_dial w =
     (case lb_fault w of
        (True, w') \<Rightarrow> (Inl ''connection refused'', w')
      | (False, w') \<Rightarrow>
          (case password_callback (username (lb_device w')) (password (lb_device w')) (lb_user w') (lb_pass w') of
             Some e \<Rightarrow> (Inl e, w')
           | None \<Rightarrow>
               (let c = fresh_conn (lb_open w') in (Inr c, w'\<lparr>lb_open := c # lb_open w'\<rparr>))))"

definition lb_session :: "nat \<Rightarrow> loopback \<Rightarrow> nat result \<times> loopback" where
  "lb_session c w =
     (case lb_fault w of
        (True, w') \<Rightarrow> (Inl ''EOF'', w')
      | (False, w') \<Rightarrow> (if c \<in> set (lb_open w') then Inr c else Inl ''EOF'', w'))"

text \<open>An SSH string: its length in four bytes, most significant first.\<close>

definition ssh_string :: "string \<Rightarrow> string" where
  "ssh_string s =
     [char_of (length s div 2 ^ 24 mod 256), char_of (length s div 2 ^ 16 mod 256),
      char_of (length s div 2 ^ 8 mod 256), char_of (length s mod 256)] @ s"

definition exec_request :: "string \<Rightarrow> ssh_request" where
  "exec_request cmd = \<lparr>req_type = ''exec'', req_payload = ssh_string cmd, req_want_reply = True\<rparr>"

text \<open>What \<open>Session.Output\<close> makes of the peer's actions.\<close>

definition client_output :: "chan_act list \<Rightarrow> string result" where
  "client_output as =
     (if Reply True \<notin> set as then Inl ''ssh: command failed''
      else if exit_zero \<in> set as then Inr (written as)
      else Inl ''wait: remote command exited without exit status or exit signal'')"

definition lb_output :: "nat \<Rightarrow> string \<Rightarrow> loopback \<Rightarrow> string result \<times> loopback" where
  "lb_output c cmd w =
     (case lb_fault w of
        (True, w') \<Rightarrow> (Inl ''EOF'', w')
      | (False, w') \<Rightarrow>
          (if c \<in> set (lb_open w')
           then client_output (handle_session (lb_device w') [exec_request cmd] [])
           else Inl ''EOF'', w'))"

definition lb_close :: "nat \<Rightarrow> loopback \<Rightarrow> loopback" where
  "lb_close c w = w\<lparr>lb_open := filter (\<lambda>c'. c' \<noteq> c) (lb_open w)\<rparr>"

definition lb_api :: "(nat, nat, loopback) ssh_api" where
  "lb_api = \<lparr>ssh_dial = lb_dial, ssh_session = lb_session, ssh_output = lb_output,
     ssh_sess_close = (\<lambda>s w. w), ssh_close = lb_close\<rparr>"

definition lb_opened :: "loopback \<Rightarrow> nat set" where
  "lb_opened w = set (lb_open w)"

definition lb_up :: "device \<Rightarrow> loopback \<Rightarrow> bool" where
  "lb_up dev w \<longleftrightarrow> lb_faults w = [] \<and> lb_device w = dev
     \<and> lb_user w = username dev \<and> lb_pass w = password dev"

section \<open>The laws\<close>

lemma fresh_conn_new: "fresh_conn cs \<notin> set cs"
proof -
  have "c \<le> foldr max cs 0" if "c \<in> set cs" for c using that by (induction cs) auto
  then show ?thesis by (fastforce simp: fresh_conn_def)
qed

lemma lb_fault_open [frame]: "lb_open (snd (lb_fault w)) = lb_open w"
  by (simp add: lb_fault_def split: list.split)

lemma exec_payload_ssh_string: "exec_payload (ssh_string cmd) = cmd"
  by (simp add: exec_payload_def ssh_string_def)

lemma client_output_exec: "client_output (handle_session dev [exec_request cmd] chunks) = Inr (exec_lines dev cmd)"
proof -
  let ?as = "handle_session dev [exec_request cmd] chunks"
  have "Reply True \<in> set ?as" "exit_zero \<in> set ?as"
    by (simp_all add: exec_request_def Let_def)
  moreover have "written ?as = exec_lines dev cmd"
    by (subst handle_session_exec) (simp_all add: exec_request_def exec_payload_ssh_string)
  ultimately show ?thesis by (simp add: client_output_def)
qed

interpretation lb_conns: ssh_conns lb_api lb_opened
proof
  fix w w' c show "ssh_dial lb_api w = (Inr c, w') \<Longrightarrow> c \<notin> lb_opened w \<and> lb_opened w' = insert c (lb_opened w)"
    using lb_fault_open[of w] fresh_conn_new
    by (auto simp: lb_api_def lb_dial_def lb_opened_def Let_def split: prod.splits bool.splits option.splits)
next
  fix w w' e show "ssh_dial lb_api w = (Inl e, w') \<Longrightarrow> lb_opened w' = lb_opened w"
    using lb_fault_open[of w]
    by (auto simp: lb_api_def lb_dial_def lb_opened_def Let_def split: prod.splits bool.splits option.splits)
next
  fix c w show "lb_opened (snd (ssh_session lb_api c w)) = lb_opened w"
    using lb_fault_open[of w]
    by (auto simp: lb_api_def lb_session_def lb_opened_def split: prod.splits bool.splits)
next
  fix s cmd w show "lb_opened (snd (ssh_output lb_api s cmd w)) = lb_opened w"
    using lb_fault_open[of w]
    by (auto simp: lb_api_def lb_output_def lb_opened_def split: prod.splits bool.splits)
qed (auto simp: lb_api_def lb_close_def lb_opened_def)

lemma lb_fault_up: "lb_up dev w \<Longrightarrow> lb_fault w = (False, w)"
  by (simp add: lb_fault_def lb_up_def)

interpretation lb_backend: ssh_backend lb_api lb_opened "lb_up dev" id "exec_lines dev" for dev
proof
  fix w assume up: "lb_up dev w"
  show "\<exists>c w'. ssh_dial lb_api w = (Inr c, w') \<and> lb_up dev w'"
    using lb_fault_up[OF up] up
    by (simp add: lb_api_def lb_dial_def lb_up_def password_callback_def Let_def)
next
  fix w c assume up: "lb_up dev w" "c \<in> lb_opened w"
  then show "\<exists>s w'. ssh_session lb_api c w = (Inr s, w') \<and> id s = c \<and> lb_up dev w'"
    using lb_fault_up[OF up(1)] by (simp add: lb_api_def lb_session_def lb_opened_def)
next
  fix w s cmd assume up: "lb_up dev w" "id s \<in> lb_opened w"
  then show "\<exists>w'. ssh_output lb_api s cmd w = (Inr (exec_lines dev cmd), w') \<and> lb_up dev w'"
    using lb_fault_up[OF up(1)]
    by (simp add: lb_api_def lb_output_def lb_opened_def lb_up_def client_output_exec del: handle_session.simps)
qed (auto simp: lb_api_def lb_close_def lb_up_def)

end
