(* ===== verification/Tunnel.thy ===== *)
theory Tunnel
  imports Loopback
begin

text \<open>
  The whole chain: SSH client, headend, HTTP, site proxy, SSH backend, device. What comes out of
  the tunnel is what the device prints over a direct SSH session, for the payloads the GET path
  can carry and for every payload of several lines; and what goes wrong for other payloads.
\<close>

definition tunnel ::
  "(string \<Rightarrow> string) \<Rightarrow> device \<Rightarrow> ssh_request list \<Rightarrow> (nat, loopback) px_state \<Rightarrow>
     chan_act list \<times> (nat, loopback) px_state" where
  "tunnel parse_err dev reqs st =
     he_handle_session parse_err (direct (proxy_mux lb_api (username dev) (password dev)))
       (username dev) (password dev) reqs st"

text \<open>A proxy whose backend is the device, reachable and with the right credentials.\<close>

definition site_ready :: "device \<Rightarrow> (nat, loopback) px_state \<Rightarrow> bool" where
  "site_ready dev st \<longleftrightarrow> lb_backend.good dev st"

definition carried_payload :: "string \<Rightarrow> bool" where
  "carried_payload payload \<longleftrightarrow> multi_line payload \<or> NL \<notin> set payload \<and> url_cmd (trim_space payload)"

lemma concat_exec_lines_body:
  "concat (map (exec_lines dev) (body_commands payload)) = exec_lines dev payload"
proof -
  have "map (exec_lines dev) (body_commands payload) = map (exec dev) (body_commands payload)"
    using body_commands_no_NL by (intro map_cong refl exec_lines_single) auto
  then show ?thesis by (simp only: exec_body_commands)
qed

lemma site_forward:
  assumes "site_ready dev st" "CHR '':'' \<notin> set (username dev)" "carried_payload payload"
  shows "\<exists>st'. forward parse_err (direct (proxy_mux lb_api (username dev) (password dev)))
            (username dev) (password dev) payload st = (Inr (exec_lines dev payload), st')
          \<and> site_ready dev st'"
proof (cases "multi_line payload")
  case True
  from lb_backend.runner.forward_post[OF assms(1)[unfolded site_ready_def] assms(2) True, of parse_err]
  show ?thesis by (simp add: proxy_mux_def site_ready_def concat_exec_lines_body)
next
  case False
  then have p: "NL \<notin> set payload" "url_cmd (trim_space payload)"
    using assms(3) by (auto simp: carried_payload_def)
  have "exec_lines dev (trim_space payload) = exec_lines dev payload"
    using p(1) url_cmd_target(4)[OF p(2)] by (simp add: exec_lines_single exec_trim)
  with lb_backend.runner.forward_get[OF assms(1)[unfolded site_ready_def] assms(2) refl p(2), of parse_err]
  show ?thesis by (simp add: proxy_mux_def site_ready_def)
qed

lemma tunnel_is_direct:
  assumes "site_ready dev st" "CHR '':'' \<notin> set (username dev)" "carried_payload payload"
  shows "\<exists>as st'. tunnel parse_err dev [exec_request payload] st = (as, st')
    \<and> written as = written (handle_session dev [exec_request payload] chunks)
    \<and> site_ready dev st'"
proof -
  obtain st' where f: "forward parse_err (direct (proxy_mux lb_api (username dev) (password dev)))
      (username dev) (password dev) payload st = (Inr (exec_lines dev payload), st')"
    and r: "site_ready dev st'" using site_forward[OF assms] by blast
  have "payload \<noteq> []"
    using assms(3) by (auto simp: carried_payload_def multi_line_def url_cmd_def)
  then have "tunnel parse_err dev [exec_request payload] st =
      ([Reply True, Out (exec_lines dev payload), exit_zero, CloseCh], st')"
    using f by (simp add: tunnel_def exec_request_def exec_payload_ssh_string forwarded_text_def)
  moreover have "written (handle_session dev [exec_request payload] chunks) = exec_lines dev payload"
    by (subst handle_session_exec) (simp_all add: exec_request_def exec_payload_ssh_string)
  ultimately show ?thesis using r by simp
qed

section \<open>Payloads the tunnel changes\<close>

text \<open>A slash in a single command makes the proxy run two commands.\<close>

lemma tunnel_splits_slash:
  "path_commands (replace_all ''show interface Gi0/1'' '' '' ''+'') = [''show interface Gi0'', ''1'']"
  by code_simp

text \<open>A plus in a single command comes back as a blank.\<close>

lemma tunnel_loses_plus: "path_commands (replace_all ''show a+b'' '' '' ''+'') = [''show a b'']"
  by code_simp

text \<open>A blank payload prints nothing over SSH and an error through the tunnel.\<close>

lemma tunnel_blank:
  assumes "CHR '':'' \<notin> set user"
  shows "forward parse_err (direct (mux user pass run)) user pass '' '' st = (Inl ''HTTP 400'', st)"
proof -
  let ?t = "''/admin/exec/''"
  let ?r = "\<lparr>req_method = ''GET'', esc_path = ?t, url_path = ?t,
      auth_cred = set_basic_auth user pass, accept_hdr = [], content_hdr = [], req_body = Inr []\<rparr>"
  have n: "new_request parse_err ''GET'' ?t [] = Inr (?r\<lparr>auth_cred := None\<rparr>)"
    by (simp add: new_request_def, subst parse_target_plain) (simp_all add: should_escape_def alnum_def)
  have t: "split_on NL (trim_space '' '') = [[]]" "trim_space [] = []" "replace_all [] '' '' ''+'' = []"
    by code_simp+
  have rt: "mux_route mux_patterns ?r = ToPattern ?t" by (simp add: mux_route_def) code_simp
  have auth: "authorized user pass ?r" using assms by (simp add: authorized_def basic_auth_set)
  have e: "trim_prefix ?t ?t = []" "dec 400 = ''400''" by code_simp+
  have "mux user pass run ?r st = (Responded (http_error ''no command'' 400), st)"
    using auth rt e by (simp add: mux_def auth_middleware_authorized mux_serve_def exec_handler_def)
  then show ?thesis using n
    by (simp add: forward_def t Let_def send_request_def direct_def answer_body_def http_error_def e)
qed

end
