(* ===== verification/GoFloat.thy ===== *)
theory GoFloat
  imports Complex_Main "HOL-Library.Log_Nat"
begin

text \<open>
  Go's \<open>float64\<close> and \<open>float32\<close>: the exact value of a finite float is a rational number, and an
  operation rounds the exact result to the nearest float, ties to the even significand. Nothing
  here leaves the finite range (the largest magnitudes are squares of 64-bit durations), so
  infinities are not represented; neither is the sign of zero, which no comparison sees.
\<close>

type_synonym f64 = rat

section \<open>Rounding to an integer\<close>

definition round_even :: "rat \<Rightarrow> int" where
  "round_even y =
     (let f = \<lfloor>y\<rfloor>; d = y - of_int f in if d < 1 / 2 \<or> (d = 1 / 2 \<and> even f) then f else f + 1)"

lemma round_even_near: "\<bar>of_int (round_even y) - y\<bar> \<le> 1 / 2"
proof -
  define f where "f = (of_int \<lfloor>y\<rfloor> :: rat)"
  have "f \<le> y" "y < f + 1" using floor_correct[of y] by (simp_all add: f_def)
  then show ?thesis unfolding round_even_def Let_def abs_if f_def[symmetric] by (auto simp: f_def[symmetric])
qed

lemma round_even_int [simp]: "round_even (of_int n) = n"
  by (simp add: round_even_def)

lemma round_even_mono: "x \<le> y \<Longrightarrow> round_even x \<le> round_even y"
proof -
  assume le: "x \<le> y"
  show ?thesis
  proof (cases "\<lfloor>x\<rfloor> = \<lfloor>y\<rfloor>")
    case True
    then show ?thesis using le by (auto simp: round_even_def Let_def)
  next
    case False
    then have "\<lfloor>x\<rfloor> + 1 \<le> \<lfloor>y\<rfloor>" using floor_mono[OF le] by linarith
    then show ?thesis by (auto simp: round_even_def Let_def)
  qed
qed

lemma round_even_le: "y \<le> of_int n \<Longrightarrow> round_even y \<le> n"
  using round_even_mono[of y "of_int n"] by simp

lemma round_even_ge: "of_int n \<le> y \<Longrightarrow> n \<le> round_even y"
  using round_even_mono[of "of_int n" y] by simp

lemma round_even_minus: "round_even (- y) = - round_even y"
proof (cases "y = of_int \<lfloor>y\<rfloor>")
  case True
  then have "- y = of_int (- \<lfloor>y\<rfloor>)" by simp
  then show ?thesis using True by (metis round_even_int)
next
  case False
  then have "\<lfloor>- y\<rfloor> = - \<lfloor>y\<rfloor> - 1" using floor_correct[of y] by (intro floor_unique) (auto simp: order.order_iff_strict)
  then show ?thesis by (auto simp: round_even_def Let_def)
qed

section \<open>Binary exponents\<close>

definition flog2 :: "rat \<Rightarrow> int" where
  "flog2 x =
     (case quotient_of x of (p, q) \<Rightarrow>
        let e = bitlen p - bitlen q
        in if 2 powi e \<le> x then e else e - 1)"

lemma powi_2_pos [simp]: "0 < (2 :: rat) powi e"
  by simp

lemma powi_2_add: "(2 :: rat) powi (a + b) = 2 powi a * 2 powi b"
  by (simp add: power_int_add)

lemma powi_2_diff: "(2 :: rat) powi (a - b) = 2 powi a / 2 powi b"
  by (simp add: power_int_diff)

lemma powi_2_le: "a \<le> b \<Longrightarrow> (2 :: rat) powi a \<le> 2 powi b"
  by (simp add: power_int_increasing)

lemma powi_2_less_cancel: "(2 :: rat) powi a < 2 powi b \<Longrightarrow> a < b"
  by (meson not_less powi_2_le)

lemma powi_2_int: "0 \<le> e \<Longrightarrow> (2 :: rat) powi e = of_int (2 ^ nat e)"
  by (simp add: power_int_def)

lemma bitlen_rat:
  assumes "0 < n"
  shows "2 powi (bitlen n - 1) \<le> (of_int n :: rat) \<and> (of_int n :: rat) < 2 powi bitlen n"
proof -
  have b: "2 ^ nat (bitlen n - 1) \<le> n" "n < 2 ^ nat (bitlen n)" using bitlen_bounds[OF assms] by simp_all
  then have pos: "1 \<le> bitlen n" using assms by (cases "bitlen n \<le> 0") auto
  from b have "of_int (2 ^ nat (bitlen n - 1)) \<le> (of_int n :: rat)" "(of_int n :: rat) < of_int (2 ^ nat (bitlen n))"
    by (simp_all only: of_int_le_iff of_int_less_iff)
  then show ?thesis using pos by (simp add: powi_2_int)
qed

lemma flog2_bounds: "0 < x \<Longrightarrow> 2 powi (flog2 x) \<le> x \<and> x < 2 powi (flog2 x + 1)"
proof -
  assume x: "0 < x"
  obtain p q where pq: "quotient_of x = (p, q)" by fastforce
  have q: "0 < q" using quotient_of_denom_pos[OF pq] .
  have xeq: "x = of_int p / of_int q" using quotient_of_div[OF pq] .
  have p: "0 < p" using x q xeq by (simp add: zero_less_divide_iff)
  let ?a = "bitlen p" and ?b = "bitlen q"
  have "2 powi (?a - 1) / 2 powi ?b \<le> x" unfolding xeq
    by (rule frac_le) (use bitlen_rat[OF p] bitlen_rat[OF q] q p in auto)
  then have lo: "2 powi (?a - ?b - 1) \<le> x" by (simp add: powi_2_diff)
  have "x < 2 powi ?a / 2 powi (?b - 1)" unfolding xeq
    by (rule frac_less) (use bitlen_rat[OF p] bitlen_rat[OF q] q p in auto)
  then have hi: "x < 2 powi (?a - ?b + 1)" by (simp add: powi_2_diff powi_2_add)
  show ?thesis using lo hi by (simp add: flog2_def pq Let_def)
qed

section \<open>Rounding to a float\<close>

text \<open>The weight of the last place, and the float nearest to a number.\<close>

definition last_place :: "nat \<Rightarrow> int \<Rightarrow> rat \<Rightarrow> int" where
  "last_place prec emin x = max (flog2 \<bar>x\<bar> + 1 - int prec) emin"

definition round_to :: "nat \<Rightarrow> int \<Rightarrow> rat \<Rightarrow> rat" where
  "round_to prec emin x =
     (if x = 0 then 0
      else let e = last_place prec emin x in of_int (round_even (x / 2 powi e)) * 2 powi e)"

definition fl :: "rat \<Rightarrow> f64" where
  "fl x = round_to 53 (- 1074) x"

definition fl32 :: "rat \<Rightarrow> rat" where
  "fl32 x = round_to 24 (- 149) x"

definition fadd :: "f64 \<Rightarrow> f64 \<Rightarrow> f64" where "fadd a b = fl (a + b)"
definition fsub :: "f64 \<Rightarrow> f64 \<Rightarrow> f64" where "fsub a b = fl (a - b)"
definition fmul :: "f64 \<Rightarrow> f64 \<Rightarrow> f64" where "fmul a b = fl (a * b)"
definition fdiv :: "f64 \<Rightarrow> f64 \<Rightarrow> f64" where "fdiv a b = fl (a / b)"

text \<open>Conversion of an integer, and of a float to an integer (toward zero).\<close>

definition f64_of_int :: "int \<Rightarrow> f64" where
  "f64_of_int n = fl (of_int n)"

definition int_of_f64 :: "f64 \<Rightarrow> int" where
  "int_of_f64 x = (if x < 0 then - \<lfloor>- x\<rfloor> else \<lfloor>x\<rfloor>)"

lemma flog2_mono: "0 < x \<Longrightarrow> x \<le> y \<Longrightarrow> flog2 x \<le> flog2 y"
proof -
  assume "0 < x" "x \<le> y"
  then have "2 powi flog2 x < (2 :: rat) powi (flog2 y + 1)"
    using flog2_bounds[of x] flog2_bounds[of y] by linarith
  then show ?thesis by (auto dest: powi_2_less_cancel)
qed

lemma round_to_0 [simp]: "round_to prec emin 0 = 0"
  by (simp add: round_to_def)

lemma round_to_minus: "round_to prec emin (- x) = - round_to prec emin x"
  by (simp add: round_to_def last_place_def Let_def round_even_minus)

lemma div_le_iff_powi: "x / 2 powi e \<le> y \<longleftrightarrow> x \<le> y * (2 :: rat) powi e"
  by (simp add: pos_divide_le_eq)

lemma round_to_ge_0: "0 \<le> x \<Longrightarrow> 0 \<le> round_to prec emin x"
  using round_even_ge[of 0] by (auto simp: round_to_def Let_def)

lemma round_even_powi:
  assumes "0 \<le> d"
  shows "y \<le> 2 powi d \<Longrightarrow> of_int (round_even y) \<le> (2 :: rat) powi d"
    "2 powi d \<le> y \<Longrightarrow> (2 :: rat) powi d \<le> of_int (round_even y)"
  using round_even_le[of y "2 ^ nat d"] round_even_ge[of "2 ^ nat d" y] powi_2_int[OF assms]
  by (simp_all only: of_int_le_iff)

lemma round_to_powi:
  assumes "0 < x" "last_place prec emin x \<le> k"
  shows "x \<le> 2 powi k \<Longrightarrow> round_to prec emin x \<le> 2 powi k"
    "2 powi k \<le> x \<Longrightarrow> 2 powi k \<le> round_to prec emin x"
proof -
  let ?e = "last_place prec emin x"
  have eq: "(2 :: rat) powi k = 2 powi (k - ?e) * 2 powi ?e" by (simp flip: powi_2_add)
  have d: "0 \<le> k - ?e" using assms(2) by simp
  have r: "round_to prec emin x = of_int (round_even (x / 2 powi ?e)) * 2 powi ?e"
    using assms(1) by (simp add: round_to_def Let_def)
  {
    assume "x \<le> 2 powi k"
    then have "x / 2 powi ?e \<le> 2 powi (k - ?e)" by (simp add: powi_2_diff divide_right_mono)
    then show "round_to prec emin x \<le> 2 powi k" unfolding r eq
      using round_even_powi(1)[OF d] by (simp add: mult_right_mono)
  }
  assume "2 powi k \<le> x"
  then have "2 powi (k - ?e) \<le> x / 2 powi ?e" by (simp add: powi_2_diff divide_right_mono)
  then show "2 powi k \<le> round_to prec emin x" unfolding r eq
    using round_even_powi(2)[OF d] by (simp add: mult_right_mono)
qed

lemma round_to_mono_pos:
  assumes "0 < x" "x \<le> y" "1 \<le> prec"
  shows "round_to prec emin x \<le> round_to prec emin y"
proof -
  let ?e = "last_place prec emin x" and ?f = "last_place prec emin y"
  have abs: "\<bar>x\<bar> = x" "\<bar>y\<bar> = y" using assms by simp_all
  have ef: "?e \<le> ?f" using flog2_mono[OF assms(1,2)] by (simp add: last_place_def abs)
  show ?thesis
  proof (cases "?e = ?f")
    case True
    have "x / 2 powi ?f \<le> y / 2 powi ?f" using assms by (simp add: divide_right_mono)
    then show ?thesis using True assms round_even_mono by (simp add: round_to_def Let_def)
  next
    case False
    let ?k = "flog2 y"
    have f: "?f = ?k + 1 - int prec" "emin \<le> ?f" and lt: "flog2 x < ?k"
      using ef False by (auto simp: last_place_def abs)
    have "x \<le> 2 powi ?k" using flog2_bounds[OF assms(1)] powi_2_le[of "flog2 x + 1" ?k] lt by linarith
    moreover have "?e \<le> ?k" "?f \<le> ?k" using f lt assms(3) by (auto simp: last_place_def abs)
    moreover have "2 powi ?k \<le> y" "0 < y" using flog2_bounds[of y] assms by simp_all
    ultimately show ?thesis
      using round_to_powi(1)[OF assms(1), of prec emin ?k] round_to_powi(2)[of y prec emin ?k] by linarith
  qed
qed

lemma round_to_mono:
  assumes "x \<le> y" "1 \<le> prec"
  shows "round_to prec emin x \<le> round_to prec emin y"
proof (cases "0 < x")
  case True
  then show ?thesis using assms by (rule round_to_mono_pos)
next
  case x: False
  show ?thesis
  proof (cases "0 \<le> y")
    case True
    have "round_to prec emin x \<le> 0" using round_to_ge_0[of "- x" prec emin] x by (simp add: round_to_minus)
    then show ?thesis using round_to_ge_0[OF True, of prec emin] by linarith
  next
    case False
    then have "round_to prec emin (- y) \<le> round_to prec emin (- x)"
      using assms by (intro round_to_mono_pos) simp_all
    then show ?thesis by (simp add: round_to_minus)
  qed
qed

section \<open>Floats\<close>

text \<open>The values a format holds: an integer of at most \<open>prec\<close> bits, scaled.\<close>

definition is_float :: "nat \<Rightarrow> int \<Rightarrow> rat \<Rightarrow> bool" where
  "is_float prec emin x \<longleftrightarrow> (\<exists>m e. x = of_int m * 2 powi e \<and> \<bar>m\<bar> \<le> 2 ^ prec \<and> emin \<le> e)"

lemma abs_of_int_le: "\<bar>m\<bar> \<le> 2 ^ k \<Longrightarrow> \<bar>of_int m\<bar> \<le> (2 :: rat) ^ k"
proof -
  assume "\<bar>m\<bar> \<le> 2 ^ k"
  then have "(of_int \<bar>m\<bar> :: rat) \<le> of_int (2 ^ k)" by (simp only: of_int_le_iff)
  then show ?thesis by simp
qed

lemma is_float_scaled:
  assumes "is_float prec emin x" "x \<noteq> 0" "1 \<le> prec"
  shows "\<exists>n. x = of_int n * 2 powi (last_place prec emin x)"
proof -
  obtain m e where x: "x = of_int m * 2 powi e" "\<bar>m\<bar> \<le> 2 ^ prec" "emin \<le> e"
    using assms(1) by (auto simp: is_float_def)
  let ?l = "last_place prec emin x"
  show ?thesis
  proof (cases "?l \<le> e")
    case True
    have "x = of_int m * 2 powi (e - ?l) * 2 powi ?l" by (simp add: x(1) flip: powi_2_add mult.assoc)
    then show ?thesis using powi_2_int[of "e - ?l"] True by (intro exI[of _ "m * 2 ^ nat (e - ?l)"]) simp
  next
    case False
    then have l: "?l = flog2 \<bar>x\<bar> + 1 - int prec" using x(3) by (auto simp: last_place_def)
    have lo: "2 powi flog2 \<bar>x\<bar> \<le> \<bar>x\<bar>" using flog2_bounds[of "\<bar>x\<bar>"] assms(2) by simp
    have ax: "\<bar>x\<bar> = \<bar>of_int m\<bar> * 2 powi e" by (simp add: x(1) abs_mult)
    also have "\<dots> \<le> 2 ^ prec * 2 powi e"
      using abs_of_int_le[OF x(2)] by (intro mult_right_mono) simp_all
    also have "\<dots> = 2 powi (int prec + e)" by (simp add: powi_2_add power_int_of_nat)
    finally have "2 powi flog2 \<bar>x\<bar> \<le> (2 :: rat) powi (int prec + e)" using lo by simp
    also have "\<dots> < 2 powi (int prec + e + 1)" by (subst powi_2_add) simp
    finally have "2 powi flog2 \<bar>x\<bar> < (2 :: rat) powi (int prec + e + 1)" .
    then have "flog2 \<bar>x\<bar> \<le> int prec + e" by (auto dest: powi_2_less_cancel)
    then have le: "?l = e + 1" "flog2 \<bar>x\<bar> = int prec + e" using False l by auto
    have "2 ^ prec * 2 powi e \<le> \<bar>of_int m\<bar> * (2 :: rat) powi e"
      using lo le(2) ax by (simp add: powi_2_add power_int_of_nat)
    then have "2 ^ prec \<le> \<bar>of_int m :: rat\<bar>" by simp
    then have "\<bar>of_int m :: rat\<bar> = 2 ^ prec" using abs_of_int_le[OF x(2)] by linarith
    moreover obtain k where "prec = Suc k" using assms(3) by (metis One_nat_def Suc_le_D)
    ultimately have "(of_int m :: rat) = of_int (2 * 2 ^ k) \<or> (of_int m :: rat) = of_int (2 * - (2 ^ k))"
      by (auto simp: abs_if split: if_splits)
    then obtain n where "m = 2 * n" by (metis of_int_eq_iff)
    then have "x = of_int n * 2 powi (e + 1)" by (simp add: x(1) powi_2_add)
    with le(1) show ?thesis by metis
  qed
qed

lemma round_to_float: "is_float prec emin x \<Longrightarrow> 1 \<le> prec \<Longrightarrow> round_to prec emin x = x"
proof (cases "x = 0")
  case False
  assume "is_float prec emin x" "1 \<le> prec"
  then obtain n where n: "x = of_int n * 2 powi (last_place prec emin x)" using is_float_scaled False by blast
  then have "x / 2 powi (last_place prec emin x) = of_int n" by (metis nonzero_mult_div_cancel_right powi_2_pos less_irrefl)
  then show ?thesis using n False by (simp add: round_to_def Let_def)
qed simp

lemma is_float_0: "is_float prec emin 0"
  unfolding is_float_def by (intro exI[of _ 0] exI[of _ emin]) simp

lemma is_float_minus: "is_float prec emin (- x) = is_float prec emin x"
proof -
  have "is_float prec emin (- x)" if f: "is_float prec emin x" for x :: rat
  proof -
    obtain m e where "x = of_int m * 2 powi e" "\<bar>m\<bar> \<le> 2 ^ prec" "emin \<le> e"
      using f by (auto simp: is_float_def)
    then show ?thesis unfolding is_float_def by (intro exI[of _ "- m"] exI[of _ e]) simp
  qed
  from this[of x] this[of "- x"] show ?thesis by auto
qed

lemma round_to_is_float: "is_float prec emin (round_to prec emin x)"
proof -
  have pos: "is_float prec emin (round_to prec emin x)" if "0 < x" for x
  proof -
    let ?l = "last_place prec emin x" and ?y = "x / 2 powi (last_place prec emin x)"
    have "x \<le> 2 powi (flog2 x + 1)" using flog2_bounds[OF that] by simp
    also have "\<dots> \<le> 2 powi (int prec + ?l)" using that by (intro powi_2_le) (simp add: last_place_def)
    also have "\<dots> = of_int (2 ^ prec) * 2 powi ?l" by (simp add: powi_2_add power_int_of_nat)
    finally have "?y \<le> of_int (2 ^ prec)" by (simp add: pos_divide_le_eq)
    then have "round_even ?y \<le> 2 ^ prec" by (rule round_even_le)
    moreover have "0 \<le> round_even ?y" using that by (intro round_even_ge) simp
    ultimately show ?thesis using that unfolding is_float_def
      by (intro exI[of _ "round_even ?y"] exI[of _ ?l]) (simp add: round_to_def Let_def last_place_def)
  qed
  consider "x = 0" | "0 < x" | "0 < - x" by linarith
  then show ?thesis
  proof cases
    case 3
    then show ?thesis using pos[OF 3] by (simp add: round_to_minus is_float_minus)
  qed (simp_all add: pos is_float_0)
qed

lemma is_float_int: "\<bar>n\<bar> \<le> 2 ^ prec \<Longrightarrow> emin \<le> 0 \<Longrightarrow> is_float prec emin (of_int n)"
  unfolding is_float_def by (intro exI[of _ n] exI[of _ 0]) simp

section \<open>64-bit floats\<close>

abbreviation is_f64 :: "rat \<Rightarrow> bool" where "is_f64 \<equiv> is_float 53 (- 1074)"

lemma fl_f64 [simp]: "is_f64 (fl x)"
  unfolding fl_def by (rule round_to_is_float)

lemma fl_id: "is_f64 x \<Longrightarrow> fl x = x"
  unfolding fl_def by (rule round_to_float) simp_all

lemma fl_mono: "x \<le> y \<Longrightarrow> fl x \<le> fl y"
  unfolding fl_def by (rule round_to_mono) simp_all

lemma fl_le: "x \<le> y \<Longrightarrow> is_f64 y \<Longrightarrow> fl x \<le> y"
  using fl_mono[of x y] fl_id by simp

lemma fl_ge: "x \<le> y \<Longrightarrow> is_f64 x \<Longrightarrow> x \<le> fl y"
  using fl_mono[of x y] fl_id by simp

lemma fl_0 [simp]: "fl 0 = 0"
  by (simp add: fl_def)

lemma fl_ge_0: "0 \<le> x \<Longrightarrow> 0 \<le> fl x"
  using fl_mono[of 0 x] by simp

lemma fl_int: "\<bar>n\<bar> \<le> 2 ^ 53 \<Longrightarrow> fl (of_int n) = of_int n"
  by (simp add: fl_id is_float_int)

text \<open>A number of normal size is off by at most one part in 2^53.\<close>

lemma fl_relative:
  assumes "2 powi (- 1022) \<le> x"
  shows "\<bar>fl x - x\<bar> \<le> x / 2 ^ 53"
proof -
  have x: "0 < x" using assms powi_2_pos[of "- 1022"] by linarith
  have "2 powi (- 1022) < (2 :: rat) powi (flog2 x + 1)" using assms flog2_bounds[OF x] by linarith
  from powi_2_less_cancel[OF this] have l: "last_place 53 (- 1074) x = flog2 x - 52"
    using x by (simp add: last_place_def)
  let ?u = "(2 :: rat) powi (flog2 x - 52)"
  have "fl x = of_int (round_even (x / ?u)) * ?u" using x by (simp add: fl_def round_to_def l Let_def)
  then have "fl x - x = (of_int (round_even (x / ?u)) - x / ?u) * ?u" by (simp add: left_diff_distrib)
  then have "\<bar>fl x - x\<bar> \<le> 1 / 2 * ?u"
    using round_even_near[of "x / ?u"] by (simp only: abs_mult) (intro mult_mono, simp_all)
  also have "?u = 2 powi flog2 x / 2 ^ 52" by (simp add: powi_2_diff)
  also have "1 / 2 * (2 powi flog2 x / 2 ^ 52) = (2 :: rat) powi flog2 x / 2 ^ 53" by simp
  also have "\<dots> \<le> x / 2 ^ 53" using flog2_bounds[OF x] by (intro divide_right_mono) simp_all
  finally show ?thesis .
qed

text \<open>Scaling by less than one never rounds back up to a float of normal size.\<close>

lemma fl_scale_less:
  assumes "0 \<le> c" "c \<le> 1 - 1 / 2 ^ 53" "2 powi (- 1000) \<le> d"
  shows "fl (c * d) < d"
proof -
  have d: "0 < d" using assms(3) powi_2_pos[of "- 1000"] by linarith
  have "c * d \<le> (1 - 1 / 2 ^ 53) * d" using assms(2) d by (intro mult_right_mono) simp_all
  let ?z = "(1 - 1 / 2 ^ 53) * d"
  have "2 powi (- 1022) \<le> 1 / 2 * d"
    using assms(3) powi_2_le[of "- 1021" "- 1000"] powi_2_add[of "- 1022" 1] by simp
  also have "\<dots> \<le> ?z" using d by (intro mult_right_mono) simp_all
  finally have "fl ?z \<le> ?z + ?z / 2 ^ 53" using fl_relative[of ?z] by (simp only: abs_le_iff) simp
  also have "\<dots> < d" using d by (simp add: field_simps)
  finally show ?thesis using fl_mono[OF \<open>c * d \<le> ?z\<close>] by simp
qed

end
