(* ===== verification/GoInt.thy ===== *)
theory GoInt
  imports GoStrings "HOL-Library.Signed_Division"
begin

text \<open>
  Go's 64-bit integers as mathematical integers with the wrap-around written out. Division
  truncates toward zero (\<open>sdiv\<close>).
\<close>

definition wrap64 :: "int \<Rightarrow> int" where
  "wrap64 i = (i + 2 ^ 63) mod 2 ^ 64 - 2 ^ 63"

definition wrapu64 :: "int \<Rightarrow> int" where
  "wrapu64 i = i mod 2 ^ 64"

definition uint64_range :: "int \<Rightarrow> bool" where
  "uint64_range i \<longleftrightarrow> 0 \<le> i \<and> i < 2 ^ 64"

lemma wrap64_id: "int64_range i \<Longrightarrow> wrap64 i = i"
  by (simp add: wrap64_def int64_range_def)

lemma wrap64_range [simp]: "int64_range (wrap64 i)"
proof -
  have "0 \<le> (i + 2 ^ 63) mod 2 ^ 64" "(i + 2 ^ 63) mod 2 ^ 64 < 2 ^ 64" by simp_all
  then show ?thesis by (simp add: wrap64_def int64_range_def)
qed

lemma wrapu64_id: "uint64_range i \<Longrightarrow> wrapu64 i = i"
  by (simp add: wrapu64_def uint64_range_def)

lemma wrapu64_range [simp]: "uint64_range (wrapu64 i)"
  by (simp add: wrapu64_def uint64_range_def)

lemma wrap64_add: "wrap64 (wrap64 a + b) = wrap64 (a + b)"
proof -
  have "(wrap64 a + b + 2 ^ 63) mod 2 ^ 64 = ((a + 2 ^ 63) mod 2 ^ 64 + b) mod 2 ^ 64"
    by (simp add: wrap64_def)
  also have "\<dots> = (a + b + 2 ^ 63) mod 2 ^ 64" by (simp add: mod_simps algebra_simps)
  finally show ?thesis by (simp add: wrap64_def)
qed

end
