(* ===== verification/RtCount.thy ===== *)
theory RtCount
  imports GoFloat GoInt
begin

text \<open>
  \<open>internal/rtcount/rtcount.go\<close> and \<open>internal/latency/latency.go\<close>: connections that count
  round trips, and connections that sleep on a change of direction. Both look at the order of
  reads and writes only.

  The counters are 64-bit in the code; they count calls of one process and are naturals here.
\<close>

datatype io = Rd | Wr

section \<open>Counting round trips\<close>

record conn =
  trips :: nat
  reads :: nat
  writes :: nat
  last_dir :: nat

definition wrap_conn :: conn where
  "wrap_conn = \<lparr>trips = 0, reads = 0, writes = 0, last_dir = 0\<rparr>"

definition conn_read :: "conn \<Rightarrow> conn" where
  "conn_read c =
     (let c1 = c\<lparr>reads := reads c + 1\<rparr>; old = last_dir c1; c2 = c1\<lparr>last_dir := 1\<rparr>
      in if old = 2 then c2\<lparr>trips := trips c2 + 1\<rparr> else c2)"

definition conn_write :: "conn \<Rightarrow> conn" where
  "conn_write c = c\<lparr>writes := writes c + 1, last_dir := 2\<rparr>"

definition conn_io :: "io \<Rightarrow> conn \<Rightarrow> conn" where
  "conn_io d = (case d of Rd \<Rightarrow> conn_read | Wr \<Rightarrow> conn_write)"

text \<open>The packet connection has the same counters and the same two operations.\<close>

definition packet_read_from :: "conn \<Rightarrow> conn" where
  "packet_read_from c =
     (let c1 = c\<lparr>reads := reads c + 1\<rparr>; old = last_dir c1; c2 = c1\<lparr>last_dir := 1\<rparr>
      in if old = 2 then c2\<lparr>trips := trips c2 + 1\<rparr> else c2)"

definition packet_write_to :: "conn \<Rightarrow> conn" where
  "packet_write_to c = c\<lparr>writes := writes c + 1, last_dir := 2\<rparr>"

text \<open>A round trip is a read right after a write.\<close>

fun turnarounds :: "io list \<Rightarrow> nat" where
  "turnarounds (Wr # Rd # ops) = Suc (turnarounds (Rd # ops))"
| "turnarounds (_ # ops) = turnarounds ops"
| "turnarounds [] = 0"

definition dir_of :: "io \<Rightarrow> nat" where
  "dir_of d = (case d of Rd \<Rightarrow> 1 | Wr \<Rightarrow> 2)"

lemma conn_io_simps:
  "reads (conn_io d c) = reads c + (if d = Rd then 1 else 0)"
  "writes (conn_io d c) = writes c + (if d = Wr then 1 else 0)"
  "trips (conn_io d c) = trips c + (if d = Rd \<and> last_dir c = 2 then 1 else 0)"
  "last_dir (conn_io d c) = dir_of d"
  by (cases d; simp add: conn_io_def conn_read_def conn_write_def dir_of_def Let_def)+

lemma packet_same: "packet_read_from = conn_read" "packet_write_to = conn_write"
  by (simp_all add: fun_eq_iff packet_read_from_def conn_read_def packet_write_to_def conn_write_def)

lemma turnarounds_Cons:
  "turnarounds (d # ops) = (if d = Wr \<and> ops \<noteq> [] \<and> hd ops = Rd then 1 else 0) + turnarounds ops"
  by (cases d; cases ops; cases "hd ops") auto

lemma fold_io_trips:
  "trips (fold conn_io ops c) = trips c + turnarounds ops
     + (if last_dir c = 2 \<and> ops \<noteq> [] \<and> hd ops = Rd then 1 else 0)"
proof (induction ops arbitrary: c)
  case (Cons d ops)
  then show ?case
    by (cases d) (auto simp: conn_io_simps turnarounds_Cons dir_of_def)
qed simp

lemma fold_io_counts:
  "reads (fold conn_io ops c) = reads c + count_list ops Rd"
  "writes (fold conn_io ops c) = writes c + count_list ops Wr"
  by (induction ops arbitrary: c) (auto simp: conn_io_simps)

lemma conn_trips_are_turnarounds:
  "trips (fold conn_io ops wrap_conn) = turnarounds ops"
  by (simp add: fold_io_trips) (simp add: wrap_conn_def)

section \<open>Concurrent readers and writers\<close>

text \<open>
  Goroutines share the counters, and each atomic operation is one step. \<open>reading\<close> calls have
  counted themselves and not yet swapped the direction, \<open>turning\<close> calls have seen a write and
  not yet counted the trip, \<open>writing\<close> calls have not yet stored their direction.
\<close>

record shared_conn = conn +
  reading :: nat
  turning :: nat
  writing :: nat

inductive conn_step :: "shared_conn \<Rightarrow> shared_conn \<Rightarrow> bool" where
  read_add: "conn_step c (c\<lparr>reads := reads c + 1, reading := reading c + 1\<rparr>)"
| read_swap: "0 < reading c \<Longrightarrow>
    conn_step c (c\<lparr>reading := reading c - 1, last_dir := 1,
      turning := turning c + (if last_dir c = 2 then 1 else 0)\<rparr>)"
| trip_add: "0 < turning c \<Longrightarrow> conn_step c (c\<lparr>turning := turning c - 1, trips := trips c + 1\<rparr>)"
| write_add: "conn_step c (c\<lparr>writes := writes c + 1, writing := writing c + 1\<rparr>)"
| write_store: "0 < writing c \<Longrightarrow> conn_step c (c\<lparr>writing := writing c - 1, last_dir := 2\<rparr>)"

definition shared_start :: shared_conn where
  "shared_start = conn.extend wrap_conn \<lparr>reading = 0, turning = 0, writing = 0\<rparr>"

definition conn_inv :: "shared_conn \<Rightarrow> bool" where
  "conn_inv c \<longleftrightarrow> trips c + turning c + reading c \<le> reads c
     \<and> trips c + turning c + writing c + (if last_dir c = 2 then 1 else 0) \<le> writes c"

lemma conn_inv_step: "conn_step c c' \<Longrightarrow> conn_inv c \<Longrightarrow> conn_inv c'"
  by (induction rule: conn_step.induct) (auto simp: conn_inv_def split: if_splits)

lemma conn_inv_reachable: "conn_step\<^sup>*\<^sup>* shared_start c \<Longrightarrow> conn_inv c"
proof (induction rule: rtranclp_induct)
  case base
  show ?case by (simp add: conn_inv_def shared_start_def wrap_conn_def conn.defs)
qed (rule conn_inv_step)

section \<open>Delay on a change of direction\<close>

record delay_conn =
  delay :: int
  jitter :: int
  loss_pct :: f64
  dc_last :: nat

text \<open>
  \<open>sleepFor\<close>: \<open>z\<close> is the normal and \<open>u\<close> the uniform draw. The conversion of the Gaussian term
  to a duration is only defined by Go when the term fits in 64 bits.
\<close>

definition jitter_term :: "delay_conn \<Rightarrow> f64 \<Rightarrow> int" where
  "jitter_term c z = int_of_f64 (fmul z (f64_of_int (jitter c)))"

definition sleep_for :: "delay_conn \<Rightarrow> f64 \<Rightarrow> f64 \<Rightarrow> int" where
  "sleep_for c z u =
     (let d = (if jitter c > 0 then (let d = wrap64 (delay c + jitter_term c z) in if d < 0 then 0 else d)
               else delay c)
      in if loss_pct c > 0 \<and> fmul u 100 < loss_pct c then wrap64 (d + delay c) else d)"

text \<open>One read or write: whether it sleeps, and the new state.\<close>

definition delay_io :: "io \<Rightarrow> delay_conn \<Rightarrow> bool \<times> delay_conn" where
  "delay_io d c =
     (if dc_last c \<noteq> dir_of d then (True, c\<lparr>dc_last := dir_of d\<rparr>) else (False, c))"

fun sleeps :: "io list \<Rightarrow> delay_conn \<Rightarrow> nat" where
  "sleeps [] c = 0"
| "sleeps (d # ops) c =
     (case delay_io d c of (slept, c') \<Rightarrow> (if slept then 1 else 0) + sleeps ops c')"

text \<open>\<open>Accept\<close> wraps the connection only when a delay is configured.\<close>

definition delay_accept :: "int \<Rightarrow> int \<Rightarrow> f64 \<Rightarrow> 'c result \<Rightarrow> ('c \<times> delay_conn option) result" where
  "delay_accept dly jit loss acc =
     (case acc of
        Inl e \<Rightarrow> Inl e
      | Inr c \<Rightarrow>
          if dly \<le> 0 then Inr (c, None)
          else Inr (c, Some \<lparr>delay = dly, jitter = jit, loss_pct = loss, dc_last = 0\<rparr>))"

lemma sleep_for_plain:
  "jitter c \<le> 0 \<Longrightarrow> \<not> (loss_pct c > 0 \<and> fmul u 100 < loss_pct c) \<Longrightarrow> sleep_for c z u = delay c"
  by (auto simp: sleep_for_def Let_def)

lemma sleep_for_bounds:
  assumes "0 \<le> delay c" "delay c \<le> 2 ^ 61" "\<bar>jitter_term c z\<bar> \<le> 2 ^ 61"
  shows "0 \<le> sleep_for c z u \<and> sleep_for c z u \<le> 2 * delay c + max 0 (jitter_term c z)"
proof -
  let ?g = "jitter_term c z"
  have "wrap64 i = i" if "- (2 ^ 62) \<le> i" "i < 2 ^ 63" for i
    using that by (intro wrap64_id) (simp add: int64_range_def)
  then have "wrap64 (delay c + ?g) = delay c + ?g" "wrap64 (2 * delay c + ?g) = 2 * delay c + ?g"
    "wrap64 (2 * delay c) = 2 * delay c" "wrap64 (delay c) = delay c"
    using assms by auto
  then show ?thesis using assms by (auto simp: sleep_for_def Let_def)
qed

lemma sleeps_dir:
  "ops \<noteq> [] \<Longrightarrow> sleeps ops c + (if dc_last c = dir_of (hd ops) then 1 else 0) =
     2 * turnarounds ops + (if hd ops = Rd then 1 else 0) + (if last ops = Wr then 1 else 0)"
proof (induction ops arbitrary: c)
  case (Cons d ops)
  show ?case
  proof (cases ops)
    case Nil
    then show ?thesis by (cases d) (auto simp: delay_io_def dir_of_def)
  next
    case (Cons e es)
    then show ?thesis using Cons.IH[of "snd (delay_io d c)"]
      by (cases d; cases e) (auto simp: delay_io_def dir_of_def turnarounds_Cons split: if_splits)
  qed
qed simp

end
