(* ===== verification/Resource.thy ===== *)
theory Resource
  imports GoInt GoNumbers
begin

text \<open>
  \<open>internal/resource/resource.go\<close>: the CPU time read from \<open>/proc/self/stat\<close> and the
  difference of two snapshots. The run-time statistics are arguments.
\<close>

record snapshot =
  cpu_ns :: int
  sn_allocs :: int
  sn_bytes :: int
  live_bytes :: int

record resource_delta =
  d_cpu_us :: int
  d_allocs :: int
  d_bytes :: int

section \<open>CPU time\<close>

text \<open>One digit of the accumulating loop, in 64 bits.\<close>

definition add_digit :: "int \<Rightarrow> nat \<Rightarrow> int" where
  "add_digit u d = wrap64 (wrap64 (u * 10) + int d)"

fun take_digits :: "int \<Rightarrow> string \<Rightarrow> int \<times> string" where
  "take_digits u [] = (u, [])"
| "take_digits u (c # cs) =
     (case digit_val c of Some d \<Rightarrow> take_digits (add_digit u d) cs | None \<Rightarrow> (u, c # cs))"

lemma take_digits_length: "length (snd (take_digits u s)) \<le> length s"
  by (induction u s rule: take_digits.induct) (auto split: option.splits intro: le_SucI)

text \<open>
  The loop over the bytes after the state field. After the inner loop has stopped on a byte,
  the outer loop steps over that byte.
\<close>

function scan_stat :: "nat \<Rightarrow> int \<Rightarrow> string \<Rightarrow> int \<times> int" where
  "scan_stat nf u s =
     (case s of
        [] \<Rightarrow> (u, 0)
      | c # cs \<Rightarrow>
          if c = CHR '' '' then scan_stat (Suc nf) u cs
          else if nf = 11 then (case take_digits u (c # cs) of (u', rest) \<Rightarrow> scan_stat nf u' (tl rest))
          else if nf = 12 then (u, fst (take_digits 0 (c # cs)))
          else scan_stat nf u cs)"
  by pat_completeness auto
termination
proof (relation "measure (\<lambda>(nf, u, s). length s)", goal_cases)
  case (3 nf u s c cs x y)
  then show ?case using take_digits_length[of u "c # cs"]
    by (cases "take_digits u (c # cs)") (auto simp del: take_digits.simps)
qed auto

declare scan_stat.simps [simp del]

text \<open>What follows the last closing parenthesis and the byte after it; \<open>None\<close> without one.\<close>

definition after_paren :: "string \<Rightarrow> string option" where
  "after_paren s =
     (if CHR '')'' \<in> set s
      then Some (drop 1 (rev (takeWhile (\<lambda>c. c \<noteq> CHR '')'') (rev s)))) else None)"

definition tick_ns :: int where
  "tick_ns = 10000000"

definition cpu_nanos :: "string result \<Rightarrow> int" where
  "cpu_nanos file =
     (case file of
        Inl _ \<Rightarrow> 0
      | Inr s \<Rightarrow>
          (case after_paren s of
             None \<Rightarrow> 0
           | Some rest \<Rightarrow> (case scan_stat 0 0 rest of (u, st) \<Rightarrow> wrap64 (wrap64 (u + st) * tick_ns))))"

definition snapshot_now :: "string result \<Rightarrow> int \<Rightarrow> int \<Rightarrow> int \<Rightarrow> snapshot" where
  "snapshot_now stat mallocs total_alloc heap_inuse =
     \<lparr>cpu_ns = cpu_nanos stat, sn_allocs = mallocs, sn_bytes = total_alloc, live_bytes = heap_inuse\<rparr>"

definition since :: "snapshot \<Rightarrow> snapshot \<Rightarrow> resource_delta" where
  "since now s =
     \<lparr>d_cpu_us = wrap64 (cpu_ns now - cpu_ns s) sdiv 1000,
      d_allocs = wrapu64 (sn_allocs now - sn_allocs s),
      d_bytes = wrapu64 (sn_bytes now - sn_bytes s)\<rparr>"

section \<open>What the scan adds up\<close>

definition digit_nat :: "char \<Rightarrow> nat" where
  "digit_nat c = the (digit_val c)"

text \<open>The number a digit string denotes, in 64 bits.\<close>

definition digits64 :: "int \<Rightarrow> string \<Rightarrow> int" where
  "digits64 u ds = fold (\<lambda>c u. add_digit u (digit_nat c)) ds u"

lemma take_digits_span:
  "list_all is_digit ds \<Longrightarrow> rest = [] \<or> \<not> is_digit (hd rest) \<Longrightarrow>
     take_digits u (ds @ rest) = (digits64 u ds, rest)"
proof (induction ds arbitrary: u)
  case Nil
  then show ?case by (cases rest) (auto simp: digits64_def is_digit_def split: option.splits)
next
  case (Cons c cs)
  then show ?case by (auto simp: digits64_def is_digit_def digit_nat_def)
qed

lemma scan_skip_word:
  "nf < 11 \<Longrightarrow> CHR '' '' \<notin> set w \<Longrightarrow> scan_stat nf u (w @ CHR '' '' # s) = scan_stat (Suc nf) u s"
  by (induction w) (simp add: scan_stat.simps, subst scan_stat.simps, auto)

lemma scan_skip_words:
  "nf + length ws = 11 \<Longrightarrow> \<forall>w \<in> set ws. CHR '' '' \<notin> set w \<Longrightarrow> ss \<noteq> [] \<Longrightarrow>
     scan_stat nf u (join '' '' (ws @ ss) @ tail) = scan_stat 11 u (join '' '' ss @ tail)"
proof (induction ws arbitrary: nf)
  case (Cons w ws)
  then have "join '' '' ((w # ws) @ ss) = w @ CHR '' '' # join '' '' (ws @ ss)"
    by (simp add: join_Cons)
  then show ?case using Cons by (simp add: scan_skip_word)
qed simp

lemma digits64_append: "digits64 u (a @ b) = digits64 (digits64 u a) b"
  by (simp add: digits64_def)

text \<open>A field of the status line that is a number: digits, perhaps after a minus sign.\<close>

definition is_numeral :: "string \<Rightarrow> bool" where
  "is_numeral f \<longleftrightarrow> (let ds = (if f \<noteq> [] \<and> hd f = CHR ''-'' then tl f else f) in ds \<noteq> [] \<and> list_all is_digit ds)"

lemma minus_no_digit: "\<not> is_digit (CHR ''-'')" "\<not> is_digit (CHR '' '')" "\<not> is_digit NL" "\<not> is_digit (CHR '')'')"
  by (simp_all add: is_digit_def digit_val_def)

lemma filter_digits: "list_all is_digit ds \<Longrightarrow> filter is_digit ds = ds"
  by (induction ds) simp_all

text \<open>
  Once the user time has been reached, a number is added to it digit by digit, a minus sign and
  the byte behind the number are stepped over.
\<close>

lemma scan_number:
  assumes "ds \<noteq> []" "list_all is_digit ds" "rest = [] \<or> \<not> is_digit (hd rest)"
  shows "scan_stat 11 u (ds @ rest) = scan_stat 11 (digits64 u ds) (tl rest)"
proof -
  obtain c cs where c: "ds = c # cs" "is_digit c" using assms(1,2) by (cases ds) auto
  then have "c \<noteq> CHR '' ''" using minus_no_digit(2) by auto
  moreover have "take_digits u (c # cs @ rest) = (digits64 u ds, rest)"
    using take_digits_span[OF assms(2,3), of u] c(1) by simp
  ultimately show ?thesis unfolding c(1) by (subst scan_stat.simps) (simp del: take_digits.simps)
qed

lemma scan_numeral:
  assumes "is_numeral f" "rest = [] \<or> \<not> is_digit (hd rest)"
  shows "scan_stat 11 u (f @ rest) = scan_stat 11 (digits64 u (filter is_digit f)) (tl rest)"
proof (cases "hd f = CHR ''-''")
  case True
  then obtain ds where f: "f = CHR ''-'' # ds" "ds \<noteq> []" "list_all is_digit ds"
    using assms(1) by (cases f) (auto simp: is_numeral_def)
  have "take_digits u (CHR ''-'' # ds @ rest) = (u, CHR ''-'' # ds @ rest)"
    using minus_no_digit(1) by (auto simp: is_digit_def split: option.split)
  then have "scan_stat 11 u (f @ rest) = scan_stat 11 u (ds @ rest)"
    unfolding f(1) by (subst scan_stat.simps) (simp del: take_digits.simps)
  then show ?thesis using scan_number[OF f(2,3) assms(2)] f minus_no_digit(1) by (simp add: filter_digits)
next
  case False
  then have "f \<noteq> []" "list_all is_digit f" using assms(1) by (auto simp: is_numeral_def Let_def split: if_splits)
  then show ?thesis using scan_number[OF _ _ assms(2)] by (simp add: filter_digits)
qed

lemma scan_numerals:
  assumes "\<forall>f \<in> set nums. is_numeral f" "nums \<noteq> []" "tail = [] \<or> tail = [NL]"
  shows "scan_stat 11 u (join '' '' nums @ tail) = (digits64 u (filter is_digit (concat nums)), 0)"
  using assms(1,2)
proof (induction nums arbitrary: u)
  case (Cons f nums)
  show ?case
  proof (cases "nums = []")
    case True
    have "tail = [] \<or> \<not> is_digit (hd tail)" "tl tail = []" using assms(3) minus_no_digit(3) by auto
    then show ?thesis using Cons.prems True scan_numeral[of f tail u] by (simp add: scan_stat.simps[of _ _ "[]"])
  next
    case False
    then have j: "join '' '' (f # nums) @ tail = f @ CHR '' '' # (join '' '' nums @ tail)" by (simp add: join_Cons)
    have "scan_stat 11 u (f @ CHR '' '' # (join '' '' nums @ tail)) =
        scan_stat 11 (digits64 u (filter is_digit f)) (join '' '' nums @ tail)"
      using scan_numeral[of f "CHR '' '' # (join '' '' nums @ tail)" u] Cons.prems minus_no_digit(2) by simp
    then show ?thesis using Cons.IH False Cons.prems unfolding j by (simp add: digits64_append)
  qed
qed simp

text \<open>
  On a line whose fields from the user time on are numbers, the scan reads all their digits as one
  number: the separator behind the user time is stepped over, so the field count stays at 11.
\<close>

lemma cpu_nanos_concat:
  assumes "length ws = 11" "\<forall>w \<in> set ws. CHR '' '' \<notin> set w \<and> CHR '')'' \<notin> set w"
    and "\<forall>f \<in> set nums. is_numeral f" "nums \<noteq> []" "tail = [] \<or> tail = [NL]"
  shows "cpu_nanos (Inr (pre @ '') '' @ join '' '' (ws @ nums) @ tail)) =
     wrap64 (wrap64 (digits64 0 (filter is_digit (concat nums))) * tick_ns)"
proof -
  let ?t = "join '' '' (ws @ nums) @ tail"
  have num: "CHR '')'' \<notin> set f" if "is_numeral f" for f
    using that minus_no_digit(4) by (cases f) (auto simp: is_numeral_def Let_def list_all_iff split: if_splits)
  then have "\<forall>w \<in> set (ws @ nums). CHR '')'' \<notin> set w" using assms(2,3) by auto
  then have "CHR '')'' \<notin> set (join '' '' (ws @ nums))" by (auto dest!: set_join[THEN subsetD])
  then have nt: "CHR '')'' \<notin> set ?t" using assms(5) by auto
  then have "takeWhile (\<lambda>c. c \<noteq> CHR '')'') (rev (CHR '' '' # ?t) @ CHR '')'' # rev pre) = rev (CHR '' '' # ?t)"
    by (subst takeWhile_append2) auto
  then have "after_paren (pre @ '') '' @ ?t) = Some ?t" by (simp add: after_paren_def)
  moreover have "scan_stat 0 0 ?t = scan_stat 11 0 (join '' '' nums @ tail)"
    using scan_skip_words[where nf = 0 and ws = ws and ss = nums and tail = tail and u = 0] assms(1,2,4) by simp
  ultimately show ?thesis using scan_numerals[OF assms(3-5), of 0] by (simp add: cpu_nanos_def)
qed

end
