(* ===== verification/RunParallel.thy ===== *)
theory RunParallel
  imports Main
begin

text \<open>
  \<open>stats.RunParallel\<close>: \<open>iterations\<close> goroutines, at most \<open>concurrency\<close> of them between
  acquiring and releasing the semaphore. Each atomic action of the main goroutine and of a worker
  is a step; any interleaving of them is a run.

  The benchmark function is a program of small steps on a world that all iterations share:
  \<open>enter i\<close> is the start of the iteration with index \<open>i\<close>, \<open>body\<close> a step of it, which gives the
  place where the iteration goes on or the duration it returns. The steps of iterations that run at
  the same time interleave. \<open>None\<close> is a step that never returns. The last step of an iteration
  stores its result: the slot is its own.
\<close>

type_synonym ('b, 'r, 'w) body = "'b \<Rightarrow> 'w \<Rightarrow> (('b + 'r) \<times> 'w) option"

text \<open>
  A worker runs its iteration and stores the result, releases the semaphore and signals the wait
  group, in this order (deferred calls run last in, first out).
\<close>

datatype 'b worker = is_running: Running 'b | Stored | Released | Finished

text \<open>The main goroutine: at the top of the loop, past \<open>wg.Add\<close>, past the loop, returned.\<close>

datatype main_pc = Looping | Added | Waiting | Returning

record ('b, 'r, 'w) pool =
  next_idx :: nat
  sem :: nat
  wg :: nat
  workers :: "'b worker list"
  outcomes :: "'r list"
  main_at :: main_pc
  world :: 'w

definition pool_start :: "nat \<Rightarrow> 'r \<Rightarrow> 'w \<Rightarrow> ('b, 'r, 'w) pool" where
  "pool_start n zero w = \<lparr>next_idx = 0, sem = 0, wg = 0, workers = [], outcomes = replicate n zero,
     main_at = Looping, world = w\<rparr>"

inductive pool_step ::
  "nat \<Rightarrow> nat \<Rightarrow> (nat \<Rightarrow> 'b) \<Rightarrow> ('b, 'r, 'w) body \<Rightarrow> ('b, 'r, 'w) pool \<Rightarrow> ('b, 'r, 'w) pool \<Rightarrow> bool"
  for n conc :: nat and enter :: "nat \<Rightarrow> 'b" and body :: "('b, 'r, 'w) body" where
  wg_add: "main_at p = Looping \<Longrightarrow> next_idx p < n \<Longrightarrow>
    pool_step n conc enter body p (p\<lparr>wg := wg p + 1, main_at := Added\<rparr>)"
| sem_acquire: "main_at p = Added \<Longrightarrow> sem p < conc \<Longrightarrow>
    pool_step n conc enter body p (p\<lparr>sem := sem p + 1, workers := workers p @ [Running (enter (next_idx p))],
      next_idx := next_idx p + 1, main_at := Looping\<rparr>)"
| loop_end: "main_at p = Looping \<Longrightarrow> \<not> next_idx p < n \<Longrightarrow>
    pool_step n conc enter body p (p\<lparr>main_at := Waiting\<rparr>)"
| wg_wait: "main_at p = Waiting \<Longrightarrow> wg p = 0 \<Longrightarrow>
    pool_step n conc enter body p (p\<lparr>main_at := Returning\<rparr>)"
| run: "i < length (workers p) \<Longrightarrow> workers p ! i = Running b \<Longrightarrow> body b (world p) = Some (Inl b', w) \<Longrightarrow>
    pool_step n conc enter body p (p\<lparr>world := w, workers := (workers p)[i := Running b']\<rparr>)"
| store: "i < length (workers p) \<Longrightarrow> workers p ! i = Running b \<Longrightarrow> body b (world p) = Some (Inr r, w) \<Longrightarrow>
    pool_step n conc enter body p
      (p\<lparr>outcomes := (outcomes p)[i := r], world := w, workers := (workers p)[i := Stored]\<rparr>)"
| sem_release: "i < length (workers p) \<Longrightarrow> workers p ! i = Stored \<Longrightarrow>
    pool_step n conc enter body p (p\<lparr>sem := sem p - 1, workers := (workers p)[i := Released]\<rparr>)"
| wg_done: "i < length (workers p) \<Longrightarrow> workers p ! i = Released \<Longrightarrow>
    pool_step n conc enter body p (p\<lparr>wg := wg p - 1, workers := (workers p)[i := Finished]\<rparr>)"

section \<open>Invariant\<close>

definition holding :: "'b worker list \<Rightarrow> nat" where
  "holding ws = length (filter (\<lambda>w. is_running w \<or> w = Stored) ws)"

definition unfinished :: "'b worker list \<Rightarrow> nat" where
  "unfinished ws = length (filter (\<lambda>w. w \<noteq> Finished) ws)"

definition pool_inv :: "nat \<Rightarrow> nat \<Rightarrow> ('b, 'r, 'w) pool \<Rightarrow> bool" where
  "pool_inv n conc p \<longleftrightarrow>
     length (workers p) = next_idx p \<and> length (outcomes p) = n
     \<and> next_idx p + (if main_at p = Added then 1 else 0) \<le> n
     \<and> (main_at p = Waiting \<or> main_at p = Returning \<longrightarrow> next_idx p = n)
     \<and> sem p = holding (workers p) \<and> sem p \<le> conc
     \<and> wg p = unfinished (workers p) + (if main_at p = Added then 1 else 0)
     \<and> (main_at p = Returning \<longrightarrow> wg p = 0)"

lemma length_filter_update:
  "i < length ws \<Longrightarrow>
     length (filter P (ws[i := w])) + (if P (ws ! i) then 1 else 0) =
     length (filter P ws) + (if P w then 1 else 0)"
proof (induction ws arbitrary: i)
  case (Cons x xs)
  then show ?case by (cases i) auto
qed simp

lemma holding_update:
  "i < length ws \<Longrightarrow> holding (ws[i := w]) + (if is_running (ws ! i) \<or> ws ! i = Stored then 1 else 0) =
     holding ws + (if is_running w \<or> w = Stored then 1 else 0)"
  unfolding holding_def by (rule length_filter_update)

lemma unfinished_update:
  "i < length ws \<Longrightarrow> unfinished (ws[i := w]) + (if ws ! i \<noteq> Finished then 1 else 0) =
     unfinished ws + (if w \<noteq> Finished then 1 else 0)"
  unfolding unfinished_def by (rule length_filter_update)

lemma counts_append [simp]:
  "holding (ws @ [Running b]) = Suc (holding ws)" "unfinished (ws @ [Running b]) = Suc (unfinished ws)"
  by (simp_all add: holding_def unfinished_def)

lemma pool_inv_start: "pool_inv n conc (pool_start n zero w)"
  by (simp add: pool_inv_def pool_start_def holding_def unfinished_def)

lemma pool_inv_step: "pool_step n conc enter body p p' \<Longrightarrow> pool_inv n conc p \<Longrightarrow> pool_inv n conc p'"
proof (induction rule: pool_step.induct)
  case (run i p b b' w)
  then show ?case using holding_update[of i "workers p" "Running b'"] unfinished_update[of i "workers p" "Running b'"]
    by (auto simp: pool_inv_def)
next
  case (store i p b r w)
  then show ?case using holding_update[of i "workers p" Stored] unfinished_update[of i "workers p" Stored]
    by (auto simp: pool_inv_def)
next
  case (sem_release i p)
  then show ?case using holding_update[of i "workers p" Released] unfinished_update[of i "workers p" Released]
    by (auto simp: pool_inv_def)
next
  case (wg_done i p)
  then show ?case using holding_update[of i "workers p" Finished] unfinished_update[of i "workers p" Finished]
    by (auto simp: pool_inv_def)
qed (auto simp: pool_inv_def)

lemma pool_inv_reachable:
  "(pool_step n conc enter body)\<^sup>*\<^sup>* (pool_start n zero w) p \<Longrightarrow> pool_inv n conc p"
proof (induction rule: rtranclp_induct)
  case base
  show ?case by (rule pool_inv_start)
qed (rule pool_inv_step)

lemma unfinished_0: "unfinished ws = 0 \<longleftrightarrow> (\<forall>w \<in> set ws. w = Finished)"
  by (auto simp: unfinished_def filter_empty_conv)

lemma holding_0: "holding ws = 0 \<Longrightarrow> i < length ws \<Longrightarrow> \<not> is_running (ws ! i)"
  by (auto simp: holding_def filter_empty_conv)

lemma returned_all:
  assumes "pool_inv n conc p" "main_at p = Returning"
  shows "length (workers p) = n" "i < n \<Longrightarrow> workers p ! i = Finished"
proof -
  have "length (workers p) = n" "unfinished (workers p) = 0" using assms by (simp_all add: pool_inv_def)
  then show "length (workers p) = n" "i < n \<Longrightarrow> workers p ! i = Finished" by (auto simp: unfinished_0)
qed

section \<open>Schedules\<close>

text \<open>
  The iterations without the pool: each is at some place or has returned. A schedule says whose
  step is next; a step of an iteration that has returned is not possible.
\<close>

fun run_sched :: "('b, 'r, 'w) body \<Rightarrow> nat list \<Rightarrow> (nat \<Rightarrow> 'b + 'r) \<Rightarrow> 'w \<Rightarrow> ((nat \<Rightarrow> 'b + 'r) \<times> 'w) option" where
  "run_sched body [] at w = Some (at, w)"
| "run_sched body (i # is) at w =
     (case at i of
        Inr _ \<Rightarrow> None
      | Inl b \<Rightarrow> (case body b w of None \<Rightarrow> None | Some (x, w') \<Rightarrow> run_sched body is (at(i := x)) w'))"

lemma run_sched_snoc:
  "run_sched body (is @ [i]) at w =
     (case run_sched body is at w of None \<Rightarrow> None | Some (at', w') \<Rightarrow>
        (case at' i of Inr _ \<Rightarrow> None | Inl b \<Rightarrow>
           (case body b w' of None \<Rightarrow> None | Some (x, w'') \<Rightarrow> Some (at'(i := x), w''))))"
  by (induction "is" arbitrary: at w) (auto split: option.splits sum.splits)

definition place_of :: "'b worker \<Rightarrow> 'r \<Rightarrow> 'b + 'r" where
  "place_of v r = (case v of Running b \<Rightarrow> Inl b | _ \<Rightarrow> Inr r)"

text \<open>Where the iterations of a pool are; those that have no worker yet are at their start.\<close>

definition places :: "(nat \<Rightarrow> 'b) \<Rightarrow> ('b, 'r, 'w) pool \<Rightarrow> nat \<Rightarrow> 'b + 'r" where
  "places enter p i = (if i < length (workers p) then place_of (workers p ! i) (outcomes p ! i) else Inl (enter i))"

definition sched_inv :: "(nat \<Rightarrow> 'b) \<Rightarrow> ('b, 'r, 'w) body \<Rightarrow> 'w \<Rightarrow> ('b, 'r, 'w) pool \<Rightarrow> bool" where
  "sched_inv enter body w p \<longleftrightarrow>
     (\<exists>sch. set sch \<subseteq> {..<length (workers p)} \<and> run_sched body sch (\<lambda>i. Inl (enter i)) w = Some (places enter p, world p))"

lemma sched_inv_same:
  "sched_inv enter body w p \<Longrightarrow> places enter p' = places enter p \<Longrightarrow> length (workers p) \<le> length (workers p') \<Longrightarrow>
     world p' = world p \<Longrightarrow> sched_inv enter body w p'"
  unfolding sched_inv_def by (metis lessThan_subset_iff order_trans)

lemma places_update:
  "i < length (workers p) \<Longrightarrow> place_of v (outcomes p ! i) = place_of (workers p ! i) (outcomes p ! i) \<Longrightarrow>
     workers p' = (workers p)[i := v] \<Longrightarrow> outcomes p' = outcomes p \<Longrightarrow> places enter p' = places enter p"
  by (auto simp: places_def fun_eq_iff nth_list_update)

lemma places_main [simp]:
  "places enter (p\<lparr>wg := k\<rparr>) = places enter p" "places enter (p\<lparr>main_at := m\<rparr>) = places enter p"
  by (simp_all add: places_def fun_eq_iff)

lemma sched_inv_step:
  "pool_step n conc enter body p p' \<Longrightarrow> pool_inv n conc p \<Longrightarrow> sched_inv enter body w p \<Longrightarrow> sched_inv enter body w p'"
proof (induction rule: pool_step.induct)
  case (run i p b b' w')
  then obtain sch where sch: "set sch \<subseteq> {..<length (workers p)}"
    "run_sched body sch (\<lambda>i. Inl (enter i)) w = Some (places enter p, world p)" by (auto simp: sched_inv_def)
  let ?p = "p\<lparr>world := w', workers := (workers p)[i := Running b']\<rparr>"
  have "places enter ?p = (places enter p)(i := Inl b')" using run(1) by (auto simp: places_def place_of_def fun_eq_iff)
  then have "run_sched body (sch @ [i]) (\<lambda>i. Inl (enter i)) w = Some (places enter ?p, world ?p)"
    using sch(2) run(1-3) by (simp add: run_sched_snoc) (simp add: places_def place_of_def)
  then show ?case using sch(1) run(1) unfolding sched_inv_def by (intro exI[of _ "sch @ [i]"]) simp
next
  case (store i p b r w')
  then obtain sch where sch: "set sch \<subseteq> {..<length (workers p)}"
    "run_sched body sch (\<lambda>i. Inl (enter i)) w = Some (places enter p, world p)" by (auto simp: sched_inv_def)
  let ?p = "p\<lparr>outcomes := (outcomes p)[i := r], world := w', workers := (workers p)[i := Stored]\<rparr>"
  have "i < length (outcomes p)" using store(1,4) by (simp add: pool_inv_def)
  then have "places enter ?p = (places enter p)(i := Inr r)"
    using store(1) by (auto simp: places_def place_of_def fun_eq_iff)
  then have "run_sched body (sch @ [i]) (\<lambda>i. Inl (enter i)) w = Some (places enter ?p, world ?p)"
    using sch(2) store(1-3) by (simp add: run_sched_snoc) (simp add: places_def place_of_def)
  then show ?case using sch(1) store(1) unfolding sched_inv_def by (intro exI[of _ "sch @ [i]"]) simp
next
  case (sem_acquire p)
  from sem_acquire(4) show ?case
  proof (rule sched_inv_same)
    have "length (workers p) = next_idx p" using sem_acquire(3) by (simp add: pool_inv_def)
    then show "places enter (p\<lparr>sem := sem p + 1, workers := workers p @ [Running (enter (next_idx p))],
      next_idx := next_idx p + 1, main_at := Looping\<rparr>) = places enter p"
      by (auto simp: places_def place_of_def nth_append fun_eq_iff less_Suc_eq)
  qed simp_all
next
  case (sem_release i p)
  from sem_release(4) show ?case
    by (rule sched_inv_same) (rule places_update[of i p Released], use sem_release in \<open>simp_all add: place_of_def\<close>)
next
  case (wg_done i p)
  from wg_done(4) show ?case
    by (rule sched_inv_same) (rule places_update[of i p Finished], use wg_done in \<open>simp_all add: place_of_def\<close>)
qed (simp_all add: sched_inv_def)

lemma sched_inv_reachable:
  "(pool_step n conc enter body)\<^sup>*\<^sup>* (pool_start n zero w) p \<Longrightarrow> sched_inv enter body w p"
proof (induction rule: rtranclp_induct)
  case base
  show ?case by (auto simp: sched_inv_def places_def pool_start_def intro: exI[of _ "[]"])
qed (blast intro: sched_inv_step pool_inv_reachable)

text \<open>
  Whatever the interleaving: when the pool returns, every iteration has run from its start to its
  end, in some interleaving of their steps, and has left its result in its own slot.
\<close>

lemma pool_schedule:
  assumes "(pool_step n conc enter body)\<^sup>*\<^sup>* (pool_start n zero w) p" "main_at p = Returning"
  shows "\<exists>sch at. set sch \<subseteq> {..<n} \<and> run_sched body sch (\<lambda>i. Inl (enter i)) w = Some (at, world p)
    \<and> length (outcomes p) = n \<and> (\<forall>i < n. at i = Inr (outcomes p ! i))"
proof -
  have inv: "pool_inv n conc p" by (rule pool_inv_reachable[OF assms(1)])
  note all = returned_all[OF inv assms(2)]
  obtain sch where sch: "set sch \<subseteq> {..<n}" "run_sched body sch (\<lambda>i. Inl (enter i)) w = Some (places enter p, world p)"
    using sched_inv_reachable[OF assms(1)] all(1) by (auto simp: sched_inv_def)
  moreover have "\<forall>i < n. places enter p i = Inr (outcomes p ! i)" using all by (simp add: places_def place_of_def)
  moreover have "length (outcomes p) = n" using inv by (simp add: pool_inv_def)
  ultimately show ?thesis by blast
qed

section \<open>Serial runs\<close>

text \<open>One iteration alone, from a place to its end; \<open>None\<close> if it never gets there.\<close>

partial_function (option) run_body :: "('b, 'r, 'w) body \<Rightarrow> 'b \<Rightarrow> 'w \<Rightarrow> ('r \<times> 'w) option" where
  "run_body body b w =
     (case body b w of
        None \<Rightarrow> None
      | Some (x, w') \<Rightarrow> (case x of Inl b' \<Rightarrow> run_body body b' w' | Inr r \<Rightarrow> Some (r, w')))"

lemma run_body_step [simp]:
  "body b w = Some (Inl b', w') \<Longrightarrow> run_body body b w = run_body body b' w'"
  "body b w = Some (Inr r, w') \<Longrightarrow> run_body body b w = Some (r, w')"
  by (simp_all add: run_body.simps[of body b w])

text \<open>Whole iterations one after the other, in a given order; each stores its result in its slot.\<close>

fun run_order :: "(nat \<Rightarrow> 'w \<Rightarrow> ('r \<times> 'w) option) \<Rightarrow> nat list \<Rightarrow> 'r list \<Rightarrow> 'w \<Rightarrow> ('r list \<times> 'w) option" where
  "run_order fn [] rs w = Some (rs, w)"
| "run_order fn (i # is) rs w =
     (case fn i w of None \<Rightarrow> None | Some (r, w') \<Rightarrow> run_order fn is (rs[i := r]) w')"

definition run_serial ::
  "nat \<Rightarrow> 'r \<Rightarrow> (nat \<Rightarrow> 'w \<Rightarrow> ('r \<times> 'w) option) \<Rightarrow> 'w \<Rightarrow> ('r list \<times> 'w) option" where
  "run_serial n zero fn w = run_order fn [0..<n] (replicate n zero) w"

lemma run_order_snoc:
  "run_order fn (is @ [i]) rs w =
     (case run_order fn is rs w of None \<Rightarrow> None | Some (rs', w') \<Rightarrow>
        (case fn i w' of None \<Rightarrow> None | Some (r, w'') \<Rightarrow> Some (rs'[i := r], w'')))"
  by (induction "is" arbitrary: rs w) (auto split: prod.splits option.splits)

lemma run_order_length: "run_order fn is rs w = Some (rs', w') \<Longrightarrow> length rs' = length rs"
  by (induction "is" arbitrary: rs w) (auto split: option.splits)

text \<open>
  With one slot in the semaphore, at most the last worker started is still running, and the world
  is where that iteration alone has brought it.
\<close>

definition one_inv :: "nat \<Rightarrow> 'r \<Rightarrow> (nat \<Rightarrow> 'b) \<Rightarrow> ('b, 'r, 'w) body \<Rightarrow> 'w \<Rightarrow> ('b, 'r, 'w) pool \<Rightarrow> bool" where
  "one_inv n zero enter body w p \<longleftrightarrow>
     (\<exists>m w0. length (workers p) \<le> Suc m \<and> m \<le> length (workers p) \<and> (\<forall>i < m. \<not> is_running (workers p ! i))
        \<and> run_order (\<lambda>i. run_body body (enter i)) [0..<m] (replicate n zero) w = Some (outcomes p, w0)
        \<and> (if m < length (workers p)
           then \<exists>b. workers p ! m = Running b \<and> run_body body b (world p) = run_body body (enter m) w0
           else w0 = world p))"

lemma one_inv_same:
  assumes "one_inv n zero enter body w p" "outcomes p' = outcomes p" "world p' = world p"
    and "i < length (workers p)" "\<not> is_running (workers p ! i)" "\<not> is_running v" "workers p' = (workers p)[i := v]"
  shows "one_inv n zero enter body w p'"
proof -
  obtain m w0 where m: "length (workers p) \<le> Suc m" "m \<le> length (workers p)" "\<forall>i < m. \<not> is_running (workers p ! i)"
    "run_order (\<lambda>i. run_body body (enter i)) [0..<m] (replicate n zero) w = Some (outcomes p, w0)"
    "if m < length (workers p)
     then \<exists>b. workers p ! m = Running b \<and> run_body body b (world p) = run_body body (enter m) w0
     else w0 = world p" using assms(1) unfolding one_inv_def by blast
  have "i \<noteq> m" using m(5) assms(4,5) by (auto split: if_splits)
  then show ?thesis unfolding one_inv_def
    using m assms(2-7) by (intro exI[of _ m] exI[of _ w0]) (auto simp: nth_list_update)
qed

lemma one_inv_step:
  "pool_step n 1 enter body p p' \<Longrightarrow> pool_inv n 1 p \<Longrightarrow> one_inv n zero enter body w p \<Longrightarrow> one_inv n zero enter body w p'"
proof (induction rule: pool_step.induct)
  case (run i p b b' w')
  then obtain m w0 where m: "length (workers p) \<le> Suc m" "m \<le> length (workers p)" "\<forall>i < m. \<not> is_running (workers p ! i)"
    "run_order (\<lambda>i. run_body body (enter i)) [0..<m] (replicate n zero) w = Some (outcomes p, w0)"
    "if m < length (workers p)
     then \<exists>b. workers p ! m = Running b \<and> run_body body b (world p) = run_body body (enter m) w0
     else w0 = world p" unfolding one_inv_def by blast
  have i: "i = m" using run(1,2) m(1,3) by (metis is_running_def less_Suc_eq not_less_eq order_less_le_trans)
  then have "run_body body b (world p) = run_body body (enter m) w0" using m(5) run(1,2) by simp
  then show ?case unfolding one_inv_def
    using m(1-4) i run(1,3) by (intro exI[of _ m] exI[of _ w0]) simp
next
  case (store i p b r w')
  then obtain m w0 where m: "length (workers p) \<le> Suc m" "m \<le> length (workers p)" "\<forall>i < m. \<not> is_running (workers p ! i)"
    "run_order (\<lambda>i. run_body body (enter i)) [0..<m] (replicate n zero) w = Some (outcomes p, w0)"
    "if m < length (workers p)
     then \<exists>b. workers p ! m = Running b \<and> run_body body b (world p) = run_body body (enter m) w0
     else w0 = world p" unfolding one_inv_def by blast
  have i: "i = m" using store(1,2) m(1,3) by (metis is_running_def less_Suc_eq not_less_eq order_less_le_trans)
  then have "run_body body (enter m) w0 = Some (r, w')" using m(5) store(1-3) by simp
  then have "run_order (\<lambda>i. run_body body (enter i)) [0..<Suc m] (replicate n zero) w = Some ((outcomes p)[i := r], w')"
    using m(4) i by (simp add: run_order_snoc)
  then show ?case unfolding one_inv_def
    using m(1-3) i store(1) by (intro exI[of _ "Suc m"] exI[of _ w']) (auto simp: less_Suc_eq)
next
  case (sem_acquire p)
  then obtain m w0 where m: "length (workers p) \<le> Suc m" "m \<le> length (workers p)" "\<forall>i < m. \<not> is_running (workers p ! i)"
    "run_order (\<lambda>i. run_body body (enter i)) [0..<m] (replicate n zero) w = Some (outcomes p, w0)"
    "if m < length (workers p)
     then \<exists>b. workers p ! m = Running b \<and> run_body body b (world p) = run_body body (enter m) w0
     else w0 = world p" unfolding one_inv_def by blast
  have h: "holding (workers p) = 0" "length (workers p) = next_idx p" using sem_acquire by (simp_all add: pool_inv_def)
  have "\<not> m < length (workers p)" using m(5) holding_0[OF h(1), of m] by (auto split: if_splits)
  then have "m = next_idx p" "w0 = world p" using m(2,5) h(2) by simp_all
  then show ?case unfolding one_inv_def
    using m(3,4) h(2) by (intro exI[of _ m] exI[of _ w0]) (auto simp: nth_append)
next
  case (sem_release i p)
  from sem_release(4) show ?case
    by (rule one_inv_same[where i = i and v = Released]) (use sem_release in simp_all)
next
  case (wg_done i p)
  from wg_done(4) show ?case
    by (rule one_inv_same[where i = i and v = Finished]) (use wg_done in simp_all)
qed (simp_all add: one_inv_def split del: if_split cong: if_cong)

lemma one_inv_reachable:
  assumes "(pool_step n 1 enter body)\<^sup>*\<^sup>* (pool_start n zero w) p"
  shows "one_inv n zero enter body w p"
  using assms
proof (induction rule: rtranclp_induct)
  case base
  show ?case by (auto simp: one_inv_def pool_start_def intro: exI[of _ 0])
next
  case (step p p')
  show ?case by (rule one_inv_step[OF step(2) pool_inv_reachable[OF step(1)] step(3)])
qed

text \<open>With one worker at a time the pool is the plain loop over the indices.\<close>

lemma pool_one_is_serial:
  assumes "(pool_step n 1 enter body)\<^sup>*\<^sup>* (pool_start n zero w) p" "main_at p = Returning"
  shows "run_serial n zero (\<lambda>i. run_body body (enter i)) w = Some (outcomes p, world p)"
proof -
  note all = returned_all[OF pool_inv_reachable[OF assms(1)] assms(2)]
  obtain m w0 where m: "m \<le> length (workers p)" "length (workers p) \<le> Suc m"
    "run_order (\<lambda>i. run_body body (enter i)) [0..<m] (replicate n zero) w = Some (outcomes p, w0)"
    "if m < length (workers p)
     then \<exists>b. workers p ! m = Running b \<and> run_body body b (world p) = run_body body (enter m) w0
     else w0 = world p" using one_inv_reachable[OF assms(1)] unfolding one_inv_def by blast
  have "\<not> m < n" using m(4) all by auto
  then have "m = n" "w0 = world p" using m(1,4) all(1) by simp_all
  then show ?thesis using m(3) by (simp add: run_serial_def)
qed

section \<open>Iterations of one step\<close>

text \<open>Iterations that take effect at once run one after the other, in some order.\<close>

definition one_step :: "('b, 'r, 'w) body \<Rightarrow> bool" where
  "one_step body \<longleftrightarrow> (\<forall>b w x w'. body b w = Some (x, w') \<longrightarrow> \<not> isl x)"

lemma one_step_order:
  assumes "one_step body" "run_sched body sch at w = Some (at', w')" "\<forall>i \<in> set sch. i < length rs"
    and "\<forall>i. \<not> isl (at i) \<or> at i = Inl (enter i)"
  shows "distinct sch \<and> (\<forall>i \<in> set sch. isl (at i)) \<and> (\<forall>i. isl (at' i) \<longleftrightarrow> isl (at i) \<and> i \<notin> set sch)
     \<and> (\<exists>rs'. run_order (\<lambda>i. run_body body (enter i)) sch rs w = Some (rs', w') \<and> length rs' = length rs
          \<and> (\<forall>i < length rs. rs' ! i = (if i \<in> set sch then projr (at' i) else rs ! i))
          \<and> (\<forall>i. i \<notin> set sch \<longrightarrow> at' i = at i))"
  using assms(2-4)
proof (induction sch arbitrary: at w rs)
  case (Cons i sch)
  from Cons.prems(1) obtain b x w1 where b: "at i = Inl b" "body b w = Some (x, w1)"
    "run_sched body sch (at(i := x)) w1 = Some (at', w')" by (auto split: sum.splits option.splits)
  have x: "\<not> isl x" using assms(1) b(2) by (auto simp: one_step_def)
  then obtain r where r: "x = Inr r" by (cases x) auto
  have "b = enter i" using Cons.prems(3) b(1) by (metis sum.disc(1) sum.inject(1))
  then have run: "run_body body (enter i) w = Some (r, w1)" using b(2) r by simp
  have IH: "distinct sch \<and> (\<forall>j \<in> set sch. isl ((at(i := x)) j)) \<and> (\<forall>j. isl (at' j) \<longleftrightarrow> isl ((at(i := x)) j) \<and> j \<notin> set sch)
     \<and> (\<exists>rs'. run_order (\<lambda>i. run_body body (enter i)) sch (rs[i := r]) w1 = Some (rs', w') \<and> length rs' = length (rs[i := r])
          \<and> (\<forall>j < length (rs[i := r]). rs' ! j = (if j \<in> set sch then projr (at' j) else rs[i := r] ! j))
          \<and> (\<forall>j. j \<notin> set sch \<longrightarrow> at' j = (at(i := x)) j))"
    by (rule Cons.IH[OF b(3)]) (use Cons.prems(2,3) x in auto)
  have i: "i \<notin> set sch" using IH x by auto
  have 1: "distinct (i # sch)" "\<forall>j \<in> set (i # sch). isl (at j)" using IH i b(1) by (auto split: if_splits)
  have 2: "\<forall>j. isl (at' j) \<longleftrightarrow> isl (at j) \<and> j \<notin> set (i # sch)" using IH b(1) x by auto
  have "at' i = Inr r" using IH i r by auto
  then show ?case using 1 2 IH i run Cons.prems(2) by (auto simp: nth_list_update)
qed auto

lemma pool_serialises:
  assumes "(pool_step n conc enter body)\<^sup>*\<^sup>* (pool_start n zero w) p" "main_at p = Returning" "one_step body"
  shows "\<exists>ord. distinct ord \<and> set ord = {0..<n}
    \<and> run_order (\<lambda>i. run_body body (enter i)) ord (replicate n zero) w = Some (outcomes p, world p)"
proof -
  obtain sch at where s: "set sch \<subseteq> {..<n}" "run_sched body sch (\<lambda>i. Inl (enter i)) w = Some (at, world p)"
    "length (outcomes p) = n" "\<forall>i < n. at i = Inr (outcomes p ! i)"
    using pool_schedule[OF assms(1,2)] by blast
  have "\<forall>i \<in> set sch. i < length (replicate n zero)" using s(1) by auto
  from one_step_order[OF assms(3) s(2) this, of enter]
  obtain rs' where o: "distinct sch" "\<forall>i. isl (at i) \<longleftrightarrow> i \<notin> set sch" "length rs' = n"
    "run_order (\<lambda>i. run_body body (enter i)) sch (replicate n zero) w = Some (rs', world p)"
    "\<forall>i < n. rs' ! i = (if i \<in> set sch then projr (at i) else replicate n zero ! i)" by auto
  have all: "i \<in> set sch" if "i < n" for i using o(2) s(4) that by (metis sum.disc(2))
  then have "set sch = {0..<n}" using s(1) by auto
  moreover have "rs' = outcomes p" using o(3,5) s(3,4) all by (intro nth_equalityI) auto
  ultimately show ?thesis using o(1,4) by blast
qed

text \<open>A function as an iteration of one step.\<close>

definition at_once :: "(nat \<Rightarrow> 'w \<Rightarrow> ('r \<times> 'w) option) \<Rightarrow> (nat, 'r, 'w) body" where
  "at_once fn i w = (case fn i w of None \<Rightarrow> None | Some (r, w') \<Rightarrow> Some (Inr r, w'))"

lemma one_step_at_once: "one_step (at_once fn)"
  by (auto simp: one_step_def at_once_def split: option.splits)

lemma run_body_at_once [simp]: "run_body (at_once fn) = fn"
  by (intro ext) (simp add: run_body.simps at_once_def split: option.split)

section \<open>Progress\<close>

lemma pool_progress:
  assumes inv: "pool_inv n conc p" and c: "0 < conc" and nr: "main_at p \<noteq> Returning"
    and total: "\<And>b w. body b w \<noteq> None"
  shows "\<exists>p'. pool_step n conc enter body p p'"
proof (cases "\<exists>i < length (workers p). workers p ! i \<noteq> Finished")
  case True
  then obtain i where i: "i < length (workers p)" "workers p ! i \<noteq> Finished" by blast
  show ?thesis
  proof (cases "workers p ! i")
    case (Running b)
    obtain x w where x: "body b (world p) = Some (x, w)" using total[of b "world p"] by auto
    show ?thesis
      by (cases x) (use i(1) Running x in \<open>blast intro: pool_step.run pool_step.store\<close>)+
  qed (use i in \<open>auto intro: pool_step.sem_release pool_step.wg_done\<close>)
next
  case False
  then have u: "unfinished (workers p) = 0" and h: "holding (workers p) = 0"
    by (auto simp: unfinished_0 holding_def filter_empty_conv in_set_conv_nth)
  show ?thesis
  proof (cases "main_at p")
    case Looping
    then show ?thesis by (cases "next_idx p < n") (auto intro: pool_step.wg_add pool_step.loop_end)
  next
    case Added
    moreover have "sem p < conc" using inv c h by (simp add: pool_inv_def)
    ultimately show ?thesis by (blast intro: pool_step.sem_acquire)
  next
    case Waiting
    moreover from this have "wg p = 0" using inv u by (simp add: pool_inv_def)
    ultimately show ?thesis by (blast intro: pool_step.wg_wait)
  qed (use nr in simp)
qed

text \<open>
  Every step uses up some of the work that is left, if the steps of an iteration use up what is
  left of it, \<open>left\<close>.
\<close>

fun worker_work :: "('b \<Rightarrow> nat) \<Rightarrow> 'b worker \<Rightarrow> nat" where
  "worker_work left (Running b) = 3 + left b" | "worker_work left Stored = 2" | "worker_work left Released = 1"
| "worker_work left Finished = 0"

definition main_work :: "main_pc \<Rightarrow> nat" where
  "main_work m = (case m of Looping \<Rightarrow> 2 | Added \<Rightarrow> 1 | Waiting \<Rightarrow> 1 | Returning \<Rightarrow> 0)"

definition pool_work :: "('b \<Rightarrow> nat) \<Rightarrow> (nat \<Rightarrow> 'b) \<Rightarrow> nat \<Rightarrow> ('b, 'r, 'w) pool \<Rightarrow> nat" where
  "pool_work left enter n p = sum_list (map (\<lambda>i. 5 + left (enter i)) [next_idx p..<n]) + main_work (main_at p)
     + sum_list (map (worker_work left) (workers p))"

lemma sum_list_update_less:
  "i < length ws \<Longrightarrow> worker_work left w < worker_work left (ws ! i) \<Longrightarrow>
     sum_list (map (worker_work left) (ws[i := w])) < sum_list (map (worker_work left) ws)"
proof (induction ws arbitrary: i)
  case (Cons x xs)
  then show ?case by (cases i) auto
qed simp

lemma pool_work_decreases:
  fixes left :: "'b \<Rightarrow> nat"
  assumes less: "\<And>b w b' w'. body b w = Some (Inl b', w') \<Longrightarrow> left b' < left b"
  shows "pool_step n conc enter body p p' \<Longrightarrow> pool_inv n conc p \<Longrightarrow> pool_work left enter n p' < pool_work left enter n p"
proof (induction rule: pool_step.induct)
  case (sem_acquire p)
  then have "[next_idx p..<n] = next_idx p # [Suc (next_idx p)..<n]" by (simp add: pool_inv_def upt_conv_Cons)
  then show ?case using sem_acquire by (simp add: pool_work_def main_work_def)
next
  case (run i p b b' w)
  then show ?case using sum_list_update_less[of i "workers p" left "Running b'"] less by (simp add: pool_work_def)
next
  case (store i p b r w)
  then show ?case using sum_list_update_less[of i "workers p" left Stored] by (simp add: pool_work_def)
next
  case (sem_release i p)
  then show ?case using sum_list_update_less[of i "workers p" left Released] by (simp add: pool_work_def)
next
  case (wg_done i p)
  then show ?case using sum_list_update_less[of i "workers p" left Finished] by (simp add: pool_work_def)
qed (simp_all add: pool_work_def main_work_def)

text \<open>From any state of the invariant some run returns.\<close>

lemma pool_reaches_result:
  fixes left :: "'b \<Rightarrow> nat"
  assumes "0 < conc" and total: "\<And>b w. body b w \<noteq> None"
    and less: "\<And>b w b' w'. body b w = Some (Inl b', w') \<Longrightarrow> left b' < left b"
  shows "pool_inv n conc p \<Longrightarrow> \<exists>p'. (pool_step n conc enter body)\<^sup>*\<^sup>* p p' \<and> main_at p' = Returning"
proof (induction "pool_work left enter n p" arbitrary: p rule: less_induct)
  case less': less
  show ?case
  proof (cases "main_at p = Returning")
    case False
    then obtain p1 where s: "pool_step n conc enter body p p1" using pool_progress[where body = body, OF less'.prems assms(1) _ total] by blast
    from less'.hyps[OF pool_work_decreases[OF less s less'.prems] pool_inv_step[OF s less'.prems]]
    show ?thesis using s by (meson converse_rtranclp_into_rtranclp)
  qed blast
qed

text \<open>With no room in the semaphore the first acquire blocks for ever.\<close>

lemma pool_deadlock:
  assumes "0 < n" "(pool_step n 0 enter body)\<^sup>*\<^sup>* (pool_start n zero w) p"
  shows "workers p = [] \<and> (main_at p = Looping \<or> main_at p = Added)"
proof -
  have "workers p = [] \<and> (main_at p = Looping \<or> main_at p = Added) \<and> next_idx p = 0"
    using assms(2)
  proof (induction rule: rtranclp_induct)
    case base
    show ?case by (simp add: pool_start_def)
  next
    case (step p p')
    then show ?case using assms(1) by (auto elim!: pool_step.cases)
  qed
  then show ?thesis by simp
qed

end
