(* ===== verification/Stats.thy ===== *)
theory Stats
  imports GoFloat RunParallel GoInt SshServer "HOL-Library.Multiset"
begin

text \<open>
  \<open>internal/stats/stats.go\<close>, apart from the floating-point summary: the record of a result,
  the medians of the counters, and the payload of the batch benchmarks. Floating-point fields are the exact values of floats. A Go \<open>sort\<close> is any function that returns the sorted permutation, and integers
  have only one of those.
\<close>

definition err_duration :: int where
  "err_duration = -1"

record bench_result =
  r_transport :: string
  r_operation :: string
  r_commands :: int
  r_iterations :: int
  r_errors :: int
  r_concurrency :: int
  r_latency :: string
  r_rtt_ms :: f64
  r_jitter_ms :: f64
  r_loss_pct :: f64
  r_round_trips :: int
  r_read_ops :: int
  r_write_ops :: int
  r_packets_in :: int
  r_packets_out :: int
  r_cpu_us :: int
  r_alloc_bytes :: int
  r_allocs :: int
  r_sweep_n :: int
  r_setup_ms :: f64
  r_wall_ms :: f64
  r_ops_per_sec :: f64
  r_live_heap_mb :: f64
  r_avg_ms :: f64
  r_min_ms :: f64
  r_max_ms :: f64
  r_p50_ms :: f64
  r_p95_ms :: f64
  r_stddev_ms :: f64

record iter_counts =
  ic_trips :: "int list"
  ic_reads :: "int list"
  ic_writes :: "int list"
  ic_cpu_us :: "int list"
  ic_alloc_bytes :: "int list"
  ic_allocs :: "int list"

section \<open>Medians\<close>

text \<open>The mean of the two middle elements is computed in 64 bits and truncated toward zero.\<close>

definition median_ints :: "int list \<Rightarrow> int" where
  "median_ints s =
     (if length s = 0 then 0
      else let c = sort s; n = length c
        in if n mod 2 = 1 then c ! (n div 2)
           else wrap64 (c ! (n div 2 - 1) + c ! (n div 2)) sdiv 2)"

definition median_int64s :: "int list \<Rightarrow> int" where
  "median_int64s s =
     (if length s = 0 then 0
      else let c = sort s; n = length c
        in if n mod 2 = 1 then c ! (n div 2)
           else wrap64 (c ! (n div 2 - 1) + c ! (n div 2)) sdiv 2)"

definition median_uint64s :: "int list \<Rightarrow> int" where
  "median_uint64s s =
     (if length s = 0 then 0
      else let c = sort s; n = length c
        in if n mod 2 = 1 then c ! (n div 2)
           else wrapu64 (c ! (n div 2 - 1) + c ! (n div 2)) div 2)"

text \<open>The counters enter the summary only when trips or reads were collected.\<close>

definition used_counts :: "iter_counts \<Rightarrow> iter_counts" where
  "used_counts ic =
     (if length (ic_trips ic) > 0 \<or> length (ic_reads ic) > 0 then ic
      else \<lparr>ic_trips = [], ic_reads = [], ic_writes = [], ic_cpu_us = [], ic_alloc_bytes = [], ic_allocs = []\<rparr>)"

section \<open>The batch payload\<close>

fun generate_exec_payload :: "nat \<Rightarrow> string" where
  "generate_exec_payload 0 = []"
| "generate_exec_payload (Suc n) = generate_exec_payload n @ ''show version'' @ [NL]"

section \<open>Lemmas\<close>

lemma sdiv_2: "(x :: int) sdiv 2 = (if 0 \<le> x then x div 2 else - ((- x) div 2))"
  by (cases "x = 0"; cases "0 < x") (simp_all add: signed_divide_int_def)

lemma sdiv_2_bounds: "a \<le> (b :: int) \<Longrightarrow> a \<le> (a + b) sdiv 2 \<and> (a + b) sdiv 2 \<le> b"
  unfolding sdiv_2 by (cases "0 \<le> a + b") (simp_all, linarith+)

lemma sort_Nil_iff: "sort s = [] \<longleftrightarrow> s = []"
  by (metis length_0_conv length_sort)

lemma sorted_hd_last: "c \<noteq> [] \<Longrightarrow> sorted c \<Longrightarrow> i < length c \<Longrightarrow> hd c \<le> c ! i \<and> c ! i \<le> last c"
  by (auto simp: hd_conv_nth last_conv_nth intro!: sorted_nth_mono)

lemma sort_ends: "s \<noteq> [] \<Longrightarrow> hd (sort s) = Min (set s) \<and> last (sort s) = Max (set s)"
proof -
  assume s: "s \<noteq> []"
  let ?c = "sort s"
  have ne: "?c \<noteq> []" using s by (simp add: sort_Nil_iff)
  note b = sorted_hd_last[OF ne sorted_sort]
  have "\<forall>x \<in> set ?c. hd ?c \<le> x \<and> x \<le> last ?c" using b by (metis in_set_conv_nth)
  then have "Min (set ?c) = hd ?c" "Max (set ?c) = last ?c"
    using ne hd_in_set[OF ne] last_in_set[OF ne] by (auto intro!: Min_eqI Max_eqI)
  then show ?thesis by simp
qed

lemma sort_perm: "mset s = mset t \<Longrightarrow> sort s = sort t"
  by (metis mset_sort properties_for_sort sorted_sort)

lemma median_perm: "mset s = mset t \<Longrightarrow> median_ints s = median_ints t"
  unfolding median_ints_def using sort_perm[of s t] mset_eq_length[of s t] by simp

lemma median_ints_bounds:
  assumes "s \<noteq> []" "\<forall>x \<in> set s. - (2 ^ 62) \<le> x \<and> x < 2 ^ 62"
  shows "Min (set s) \<le> median_ints s \<and> median_ints s \<le> Max (set s)"
proof -
  let ?c = "sort s" and ?n = "length s"
  have ne: "?c \<noteq> []" using assms(1) by (simp add: sort_Nil_iff)
  have all: "Min (set s) \<le> ?c ! i \<and> ?c ! i \<le> Max (set s)" if "i < ?n" for i
    using sorted_hd_last[OF ne sorted_sort, of i] sort_ends[OF assms(1)] that by simp
  show ?thesis
  proof (cases "?n mod 2 = 1")
    case True
    then show ?thesis using all[of "?n div 2"] assms(1) by (simp add: median_ints_def Let_def)
  next
    case False
    let ?a = "?c ! (?n div 2 - 1)" and ?b = "?c ! (?n div 2)"
    have i: "?n div 2 < ?n" using assms(1) by simp
    have le: "?a \<le> ?b" using i by (intro sorted_nth_mono) auto
    have "?a \<in> set s" "?b \<in> set s" using i by (metis length_sort less_imp_diff_less nth_mem set_sort)+
    then have "- (2 ^ 62) \<le> ?a" "?a < 2 ^ 62" "- (2 ^ 62) \<le> ?b" "?b < 2 ^ 62" using assms(2) by blast+
    then have "wrap64 (?a + ?b) = ?a + ?b" by (intro wrap64_id) (simp add: int64_range_def)
    then have "median_ints s = (?a + ?b) sdiv 2" using False assms(1) by (simp add: median_ints_def Let_def)
    moreover have "?n div 2 - 1 < ?n" using i by simp
    ultimately show ?thesis using sdiv_2_bounds[OF le] all[OF i] all[of "?n div 2 - 1"] by linarith
  qed
qed

lemma generate_replicate: "generate_exec_payload n = concat (replicate n (''show version'' @ [NL]))"
proof (induction n)
  case (Suc n)
  have "concat (replicate n x) @ x = x @ concat (replicate n x)" for x :: string
    by (induction n) auto
  then show ?case using Suc by simp
qed simp

lemma exec_lines_Cons: "NL \<notin> set w \<Longrightarrow> exec_lines dev (w @ NL # rest) = exec dev w @ exec_lines dev rest"
  by (simp add: exec_lines_concat split_on_append)

lemma payload_lines:
  "exec_lines dev (generate_exec_payload n) = concat (replicate n (exec dev ''show version''))"
  unfolding generate_replicate
proof (induction n)
  case (Suc n)
  then show ?case using exec_lines_Cons[of "''show version''" dev] by simp
qed (simp add: exec_lines_concat exec_blank)

end
