(* ===== verification/Summary.thy ===== *)
theory Summary
  imports Stats
begin

text \<open>
  \<open>stats.Summarize\<close> and \<open>stats.Percentile\<close> in 64-bit floating point, operation by operation.
  Products and sums are rounded separately, as on processors where the compiler does not fuse
  them. \<open>math.Sqrt\<close> is correctly rounded: the integer square root decides on which side of the
  neighbouring floats the root lies.
\<close>

section \<open>Square roots\<close>

function isqrt :: "int \<Rightarrow> int" where
  "isqrt n =
     (if n \<le> 0 then 0 else let r = 2 * isqrt (n div 4) in if (r + 1) * (r + 1) \<le> n then r + 1 else r)"
  by auto
termination
  by (relation "measure nat") auto

declare isqrt.simps [simp del]

lemma isqrt_bounds: "0 \<le> n \<Longrightarrow> 0 \<le> isqrt n \<and> isqrt n * isqrt n \<le> n \<and> n < (isqrt n + 1) * (isqrt n + 1)"
proof (induction n rule: isqrt.induct)
  case (1 n)
  show ?case
  proof (cases "n \<le> 0")
    case False
    let ?s = "isqrt (n div 4)"
    have ih: "0 \<le> ?s" "?s * ?s \<le> n div 4" "n div 4 < (?s + 1) * (?s + 1)" using "1.IH" False by simp_all
    have "4 * (?s * ?s) \<le> n" "n < 4 * ((?s + 1) * (?s + 1))" using ih by linarith+
    moreover have "isqrt n = (if (2 * ?s + 1) * (2 * ?s + 1) \<le> n then 2 * ?s + 1 else 2 * ?s)"
      using False by (subst isqrt.simps) (simp add: Let_def)
    ultimately show ?thesis using ih(1) by (auto simp: algebra_simps)
  qed (use 1 in \<open>simp add: isqrt.simps\<close>)
qed

definition fsqrt :: "f64 \<Rightarrow> f64" where
  "fsqrt x =
     (if x \<le> 0 then 0
      else let k = 54 - flog2 x div 2; y = x * 2 powi (2 * k); s = isqrt \<lfloor>y\<rfloor>;
        z = (if of_int (s * s) = y then of_int s else of_int s + 1 / 2)
      in fl (z * 2 powi (- k)))"

section \<open>Percentiles\<close>

definition percentile :: "f64 list \<Rightarrow> f64 \<Rightarrow> f64" where
  "percentile vs p =
     (if length vs = 0 then 0
      else let rank = fmul (fdiv p 100) (f64_of_int (int (length vs) - 1));
               lower = nat (int_of_f64 rank); upper = lower + 1
        in if length vs \<le> upper then vs ! (length vs - 1)
           else let fr = fsub rank (f64_of_int (int lower))
             in fadd (vs ! lower) (fmul fr (fsub (vs ! upper) (vs ! lower))))"

section \<open>The summary\<close>

record summarize_config =
  sc_transport :: string
  sc_operation :: string
  sc_commands :: int
  sc_iterations :: int
  sc_concurrency :: int
  sc_profile :: string
  sc_rtt_ms :: f64
  sc_jitter_ms :: f64
  sc_loss_pct :: f64
  sc_times :: "int list"
  sc_counts :: iter_counts

definition zero_result :: bench_result where
  "zero_result = \<lparr>r_transport = [], r_operation = [], r_commands = 0, r_iterations = 0, r_errors = 0,
     r_concurrency = 0, r_latency = [], r_rtt_ms = 0, r_jitter_ms = 0, r_loss_pct = 0,
     r_round_trips = 0, r_read_ops = 0, r_write_ops = 0, r_packets_in = 0, r_packets_out = 0,
     r_cpu_us = 0, r_alloc_bytes = 0, r_allocs = 0, r_sweep_n = 0, r_setup_ms = 0, r_wall_ms = 0,
     r_ops_per_sec = 0, r_live_heap_mb = 0, r_avg_ms = 0, r_min_ms = 0, r_max_ms = 0, r_p50_ms = 0,
     r_p95_ms = 0, r_stddev_ms = 0\<rparr>"

text \<open>A duration in milliseconds, from its whole microseconds.\<close>

definition ms_of :: "int \<Rightarrow> f64" where
  "ms_of t = fdiv (f64_of_int (t sdiv 1000)) 1000"

fun split_valid :: "int list \<Rightarrow> f64 list \<Rightarrow> int \<Rightarrow> f64 list \<times> int" where
  "split_valid [] valid errors = (valid, errors)"
| "split_valid (t # ts) valid errors =
     (if t = err_duration then split_valid ts valid (errors + 1)
      else split_valid ts (valid @ [ms_of t]) errors)"

definition fsum :: "f64 list \<Rightarrow> f64" where
  "fsum vs = foldl fadd 0 vs"

definition variance_sum :: "f64 \<Rightarrow> f64 list \<Rightarrow> f64" where
  "variance_sum avg vs = foldl (\<lambda>variance v. let d = fsub v avg in fadd variance (fmul d d)) 0 vs"

definition summarize :: "summarize_config \<Rightarrow> bench_result" where
  "summarize cfg =
     (case split_valid (sc_times cfg) [] 0 of (valid0, errors) \<Rightarrow>
        let base = zero_result\<lparr>r_transport := sc_transport cfg, r_operation := sc_operation cfg,
              r_commands := sc_commands cfg, r_iterations := sc_iterations cfg, r_errors := errors,
              r_concurrency := sc_concurrency cfg, r_latency := sc_profile cfg,
              r_rtt_ms := sc_rtt_ms cfg, r_jitter_ms := sc_jitter_ms cfg, r_loss_pct := sc_loss_pct cfg\<rparr>
        in if length valid0 = 0 then base
           else let valid = sort valid0; n = length valid;
               avg = fdiv (fsum valid) (f64_of_int (int n));
               stddev = (if n > 1 then fsqrt (fdiv (variance_sum avg valid) (f64_of_int (int n - 1))) else 0);
               ic = used_counts (sc_counts cfg)
             in base\<lparr>r_round_trips := median_ints (ic_trips ic), r_read_ops := median_ints (ic_reads ic),
                  r_write_ops := median_ints (ic_writes ic), r_cpu_us := median_int64s (ic_cpu_us ic),
                  r_alloc_bytes := median_uint64s (ic_alloc_bytes ic),
                  r_allocs := median_uint64s (ic_allocs ic), r_avg_ms := avg,
                  r_min_ms := valid ! 0, r_max_ms := valid ! (n - 1),
                  r_p50_ms := percentile valid 50, r_p95_ms := percentile valid 95,
                  r_stddev_ms := stddev\<rparr>)"

end
