(* ===== verification/Percentile.thy ===== *)
theory Percentile
  imports Summary
begin

text \<open>
  What the floating-point summary guarantees: percentiles stay between the order statistics they
  interpolate, and are monotone in the percentage. The rounding of a difference can exceed the
  true difference; that this never carries a percentile past the upper neighbour rests on the
  fraction being a float below one.
\<close>

section \<open>Interpolation\<close>

text \<open>Numbers on the grid of the millisecond values: multiples of \<open>2^-62\<close>.\<close>

definition coarse :: "rat \<Rightarrow> bool" where
  "coarse x \<longleftrightarrow> (\<exists>n. x = of_int n * 2 powi (- 62))"

lemma coarse_diff: "coarse a \<Longrightarrow> coarse b \<Longrightarrow> coarse (b - a)"
proof -
  assume "coarse a" "coarse b"
  then obtain m n where "a = of_int m * 2 powi (- 62)" "b = of_int n * 2 powi (- 62)" unfolding coarse_def by blast
  then have "b - a = of_int (n - m) * 2 powi (- 62)" by (simp only: of_int_diff left_diff_distrib)
  then show ?thesis unfolding coarse_def ..
qed

lemma coarse_gap: "coarse x \<Longrightarrow> 0 < x \<Longrightarrow> 2 powi (- 62) \<le> x"
proof -
  assume "coarse x" "0 < x"
  then obtain n where n: "x = of_int n * 2 powi (- 62)" "0 < x" by (auto simp: coarse_def)
  then have "0 < n" by (simp add: zero_less_mult_iff)
  then have "(1 :: rat) \<le> of_int n" by simp
  then have "1 * 2 powi (- 62) \<le> of_int n * (2 :: rat) powi (- 62)" by (intro mult_right_mono) simp_all
  then show ?thesis by (simp only: n mult_1)
qed

definition interpolate :: "f64 \<Rightarrow> f64 \<Rightarrow> f64 \<Rightarrow> f64" where
  "interpolate a b fr = fadd a (fmul fr (fsub b a))"

lemma interpolate_bounds:
  assumes ab: "a \<le> b" "is_f64 a" "is_f64 b" "coarse a" "coarse b"
    and fr: "0 \<le> fr" "fr \<le> 1 - 1 / 2 ^ 53"
  shows "a \<le> interpolate a b fr" "interpolate a b fr \<le> b"
proof -
  let ?d = "fl (b - a)" and ?t = "fl (fr * fl (b - a))"
  have d: "0 \<le> ?d" using ab by (simp add: fl_ge_0)
  then have t0: "0 \<le> ?t" using fr by (simp add: fl_ge_0)
  have t: "?t \<le> b - a"
  proof (cases "a = b")
    case False
    then have "2 powi (- 62) \<le> b - a" using coarse_gap[OF coarse_diff[OF ab(4,5)]] ab(1) by simp
    moreover have "is_f64 (2 powi (- 62))" unfolding is_float_def
      by (intro exI[of _ 1] exI[of _ "- 62"]) simp
    ultimately have "2 powi (- 62) \<le> ?d" by (rule fl_ge)
    then have "2 powi (- 1000) \<le> ?d" by (rule order_trans[OF powi_2_le, rotated]) simp
    from fl_scale_less[OF fr this] have less: "?t < ?d" .
    show ?thesis
    proof (rule ccontr)
      assume "\<not> ?t \<le> b - a"
      then have "?d \<le> ?t" by (intro fl_le) simp_all
      then show False using less by simp
    qed
  qed simp
  show "a \<le> interpolate a b fr" unfolding interpolate_def fadd_def fmul_def fsub_def
    using t0 ab(2) by (intro fl_ge) simp_all
  show "interpolate a b fr \<le> b" unfolding interpolate_def fadd_def fmul_def fsub_def
    using t ab(3) by (intro fl_le) simp_all
qed

lemma interpolate_mono:
  assumes "a \<le> b" "f \<le> g"
  shows "interpolate a b f \<le> interpolate a b g"
proof -
  have "0 \<le> fl (b - a)" using assms by (simp add: fl_ge_0)
  then have "f * fl (b - a) \<le> g * fl (b - a)" using assms(2) by (rule mult_right_mono[rotated])
  then show ?thesis unfolding interpolate_def fadd_def fmul_def fsub_def by (intro fl_mono add_left_mono)
qed

section \<open>The fractional part of a rank\<close>

lemma int_of_f64_floor: "0 \<le> x \<Longrightarrow> int_of_f64 x = \<lfloor>x\<rfloor>"
  by (simp add: int_of_f64_def)

lemma frac_below_one:
  assumes x: "is_f64 x" "0 \<le> x" "x \<le> 2 ^ 52"
  shows "fsub x (f64_of_int \<lfloor>x\<rfloor>) = x - of_int \<lfloor>x\<rfloor>" "x - of_int \<lfloor>x\<rfloor> \<le> 1 - 1 / 2 ^ 53"
proof -
  let ?r = "x - of_int \<lfloor>x\<rfloor>"
  have r: "0 \<le> ?r" "?r < 1" by (simp_all, linarith)
  have "\<lfloor>x\<rfloor> \<le> 2 ^ 52" using x(3) by (simp add: floor_le_iff)
  moreover have "0 \<le> \<lfloor>x\<rfloor>" using x(2) by simp
  ultimately have fi: "f64_of_int \<lfloor>x\<rfloor> = of_int \<lfloor>x\<rfloor>" unfolding f64_of_int_def by (intro fl_int) simp
  obtain m e where m: "x = of_int m * 2 powi e" "\<bar>m\<bar> \<le> 2 ^ 53" "- 1074 \<le> e"
    using x(1) by (auto simp: is_float_def)
  have "is_f64 ?r \<and> ?r \<le> 1 - 1 / 2 ^ 53"
  proof (cases "- 53 \<le> e")
    case True
    have "(2 :: rat) powi e = 2 powi (e + 53) * 2 powi (- 53)" by (simp only: powi_2_add[symmetric]) simp
    then have "x = of_int (m * 2 ^ nat (e + 53)) * 2 powi (- 53)"
      using True powi_2_int[of "e + 53"] by (simp only: m(1) of_int_mult mult.assoc)
    then obtain k where "x = of_int k * 2 powi (- 53)" by blast
    then have "?r = of_int (k - \<lfloor>x\<rfloor> * 2 ^ 53) * 2 powi (- 53)"
      by (simp add: left_diff_distrib power_int_minus)
    then obtain j where j: "?r = of_int j * 2 powi (- 53)" by blast
    then have j': "of_int j = ?r * 2 ^ 53" by (simp add: power_int_minus)
    have "0 \<le> (of_int j :: rat)" "(of_int j :: rat) < of_int (2 ^ 53)" unfolding j' using r by simp_all
    then have jj: "0 \<le> j" "j < 2 ^ 53" by (simp_all only: of_int_0_le_iff of_int_less_iff)
    then have "(of_int j :: rat) \<le> of_int (2 ^ 53 - 1)" by (simp only: of_int_le_iff)
    then have "?r \<le> 1 - 1 / 2 ^ 53" using j' by (simp add: field_simps)
    moreover have "is_f64 ?r" unfolding is_float_def using j jj by (intro exI[of _ j] exI[of _ "- 53"]) simp
    ultimately show ?thesis by simp
  next
    case False
    have "x \<le> 2 ^ 53 * 2 powi e" using abs_of_int_le[OF m(2)] unfolding m(1) by (intro mult_right_mono) simp_all
    also have "\<dots> \<le> 2 ^ 53 * 2 powi (- 54)" using False by (intro mult_left_mono powi_2_le) simp_all
    finally have "x \<le> 1 / 2" by simp
    then have "\<lfloor>x\<rfloor> = 0" using x(2) by (simp add: floor_eq_iff)
    then show ?thesis using x(1) \<open>x \<le> 1 / 2\<close> by simp
  qed
  then show "fsub x (f64_of_int \<lfloor>x\<rfloor>) = ?r" "?r \<le> 1 - 1 / 2 ^ 53"
    by (simp_all add: fsub_def fi fl_id)
qed

section \<open>Percentiles of a sorted list\<close>

definition rank_of :: "nat \<Rightarrow> f64 \<Rightarrow> f64" where
  "rank_of n p = fmul (fdiv p 100) (f64_of_int (int n - 1))"

lemma rank_of_bounds:
  assumes "1 \<le> n" "n \<le> 2 ^ 52" "0 \<le> p" "p \<le> 100"
  shows "0 \<le> rank_of n p" "rank_of n p \<le> of_nat n - 1" "is_f64 (rank_of n p)"
proof -
  have nat: "\<bar>int n - 1\<bar> \<le> 2 ^ 53" using assms(1,2) by simp
  have n: "f64_of_int (int n - 1) = of_nat n - 1"
    unfolding f64_of_int_def fl_int[OF nat] by simp
  have fn: "is_f64 (of_nat n - 1)" using is_float_int[OF nat, of "- 1074"] by simp
  have one: "is_f64 1" using is_float_int[of 1 53 "- 1074"] by simp
  have q: "0 \<le> fdiv p 100" "fdiv p 100 \<le> 1" unfolding fdiv_def using assms(3,4) one
    by (auto intro!: fl_ge_0 fl_le)
  have "0 \<le> fdiv p 100 * (of_nat n - 1)" using q assms(1) by simp
  moreover have "fdiv p 100 * (of_nat n - 1) \<le> 1 * (of_nat n - 1)"
    using q assms(1) by (intro mult_right_mono) simp_all
  ultimately show "0 \<le> rank_of n p" "rank_of n p \<le> of_nat n - 1"
    unfolding rank_of_def fmul_def n using fn by (auto intro!: fl_ge_0 fl_le)
  show "is_f64 (rank_of n p)" by (simp add: rank_of_def fmul_def)
qed

lemma rank_of_mono: "1 \<le> n \<Longrightarrow> n \<le> 2 ^ 52 \<Longrightarrow> p \<le> q \<Longrightarrow> rank_of n p \<le> rank_of n q"
proof -
  assume n: "1 \<le> n" "n \<le> 2 ^ 52" and "p \<le> q"
  then have "fdiv p 100 \<le> fdiv q 100" unfolding fdiv_def by (intro fl_mono) simp
  moreover have "0 \<le> f64_of_int (int n - 1)" unfolding f64_of_int_def using n by (intro fl_ge_0) simp
  ultimately show ?thesis unfolding rank_of_def fmul_def by (intro fl_mono mult_right_mono)
qed

definition samples :: "f64 list \<Rightarrow> bool" where
  "samples vs \<longleftrightarrow> sorted vs \<and> vs \<noteq> [] \<and> length vs \<le> 2 ^ 52 \<and> (\<forall>v \<in> set vs. is_f64 v \<and> coarse v)"

lemma percentile_eq:
  assumes "samples vs" "0 \<le> p" "p \<le> 100"
  shows "percentile vs p =
     (let r = rank_of (length vs) p; l = nat \<lfloor>r\<rfloor>
      in if length vs \<le> l + 1 then last vs
         else interpolate (vs ! l) (vs ! (l + 1)) (r - of_int \<lfloor>r\<rfloor>))"
proof -
  have n: "1 \<le> length vs" "length vs \<le> 2 ^ 52" "vs \<noteq> []" using assms(1) by (auto simp: samples_def Suc_leI)
  note b = rank_of_bounds[OF n(1,2) assms(2,3)]
  have "(of_nat (length vs) :: rat) \<le> 2 ^ 52"
    using n(2) of_nat_le_iff[of "length vs" "2 ^ 52", where ?'a = rat] by simp
  then have "rank_of (length vs) p \<le> 2 ^ 52" using b(2) by linarith
  note f = frac_below_one(1)[OF b(3,1) this]
  have "int (nat \<lfloor>rank_of (length vs) p\<rfloor>) = \<lfloor>rank_of (length vs) p\<rfloor>" using b(1) by simp
  then show ?thesis using n(3) f
    by (simp add: percentile_def Let_def int_of_f64_floor b(1) rank_of_def[symmetric] interpolate_def last_conv_nth)
qed

text \<open>Where a percentile lies.\<close>

lemma percentile_between:
  assumes "samples vs" "0 \<le> p" "p \<le> 100"
  defines "l \<equiv> nat \<lfloor>rank_of (length vs) p\<rfloor>"
  shows "l < length vs" "vs ! l \<le> percentile vs p" "l + 1 < length vs \<Longrightarrow> percentile vs p \<le> vs ! (l + 1)"
    "percentile vs p \<le> last vs"
proof -
  let ?r = "rank_of (length vs) p" and ?fr = "rank_of (length vs) p - of_int \<lfloor>rank_of (length vs) p\<rfloor>"
  have n: "1 \<le> length vs" "length vs \<le> 2 ^ 52" "vs \<noteq> []" and srt: "sorted vs"
    using assms(1) by (auto simp: samples_def Suc_leI)
  note b = rank_of_bounds[OF n(1,2) assms(2,3)]
  have big: "(of_nat (length vs) :: rat) \<le> 2 ^ 52"
    using n(2) of_nat_le_iff[of "length vs" "2 ^ 52", where ?'a = rat] by simp
  then have "?r \<le> 2 ^ 52" using b(2) by linarith
  note f = frac_below_one(2)[OF b(3,1) this]
  have "?r < of_int (int (length vs))" using b(2) by simp
  then have "\<lfloor>?r\<rfloor> < int (length vs)" by (simp only: floor_less_iff)
  then show ll: "l < length vs" unfolding l_def using n(1) by linarith
  note eq = percentile_eq[OF assms(1-3), folded l_def, unfolded Let_def]
  have fr0: "0 \<le> ?fr" by simp
  have in_vs: "is_f64 (vs ! i) \<and> coarse (vs ! i)" if "i < length vs" for i
    using assms(1) that by (auto simp: samples_def)
  show a: "vs ! l \<le> percentile vs p"
  proof (cases "length vs \<le> l + 1")
    case True
    then have "l = length vs - 1" using ll by simp
    then show ?thesis using eq n(3) by (simp add: last_conv_nth l_def)
  next
    case False
    then have "vs ! l \<le> vs ! (l + 1)" using srt by (intro sorted_nth_mono) simp_all
    from interpolate_bounds(1)[OF this _ _ _ _ fr0 f] in_vs False ll show ?thesis by (simp add: eq l_def)
  qed
  show c: "percentile vs p \<le> vs ! (l + 1)" if "l + 1 < length vs"
  proof -
    have "vs ! l \<le> vs ! (l + 1)" using srt that by (intro sorted_nth_mono) simp_all
    from interpolate_bounds(2)[OF this _ _ _ _ fr0 f] in_vs that ll show ?thesis by (simp add: eq l_def)
  qed
  show "percentile vs p \<le> last vs"
  proof (cases "l + 1 < length vs")
    case True
    then have "vs ! (l + 1) \<le> last vs" using srt n(3) by (simp add: last_conv_nth sorted_nth_mono)
    then show ?thesis using c[OF True] by linarith
  qed (simp add: eq l_def)
qed

lemma percentile_mono:
  assumes "samples vs" "0 \<le> p" "p \<le> q" "q \<le> 100"
  shows "percentile vs p \<le> percentile vs q"
proof -
  let ?n = "length vs"
  let ?k = "nat \<lfloor>rank_of ?n p\<rfloor>" and ?l = "nat \<lfloor>rank_of ?n q\<rfloor>"
  have n: "1 \<le> ?n" "?n \<le> 2 ^ 52" and srt: "sorted vs" using assms(1) by (auto simp: samples_def Suc_leI)
  have pq: "p \<le> 100" "0 \<le> q" using assms by linarith+
  note P = percentile_between[OF assms(1,2) pq(1)] and Q = percentile_between[OF assms(1) pq(2) assms(4)]
  have r: "rank_of ?n p \<le> rank_of ?n q" by (rule rank_of_mono[OF n assms(3)])
  then have kl: "?k \<le> ?l" by (intro nat_mono floor_mono)
  show ?thesis
  proof (cases "?k = ?l")
    case True
    have fl: "\<lfloor>rank_of ?n p\<rfloor> = \<lfloor>rank_of ?n q\<rfloor>"
      using True rank_of_bounds(1)[OF n assms(2) pq(1)] rank_of_bounds(1)[OF n pq(2) assms(4)] by (simp add: eq_nat_nat_iff)
    show ?thesis
    proof (cases "?n \<le> ?l + 1")
      case True
      then show ?thesis using fl
        by (simp add: percentile_eq[OF assms(1,2) pq(1)] percentile_eq[OF assms(1) pq(2) assms(4)] Let_def)
    next
      case False
      then have "vs ! ?l \<le> vs ! (?l + 1)" using srt by (intro sorted_nth_mono) simp_all
      then show ?thesis using False fl r interpolate_mono
        by (simp add: percentile_eq[OF assms(1,2) pq(1)] percentile_eq[OF assms(1) pq(2) assms(4)] Let_def)
    qed
  next
    case False
    then have "?k + 1 \<le> ?l" using kl by simp
    then have "vs ! (?k + 1) \<le> vs ! ?l" using srt Q(1) by (intro sorted_nth_mono) simp_all
    then show ?thesis using P(3) Q(1,2) \<open>?k + 1 \<le> ?l\<close> by linarith
  qed
qed

section \<open>Durations in milliseconds\<close>

lemma coarse_fl: "2 powi (- 10) \<le> x \<Longrightarrow> coarse (fl x)"
proof -
  assume x: "2 powi (- 10) \<le> x"
  then have p: "0 < x" using powi_2_pos[of "- 10"] by linarith
  have "2 powi (- 10) < (2 :: rat) powi (flog2 x + 1)" using x flog2_bounds[OF p] by linarith
  from powi_2_less_cancel[OF this] have l: "- 62 \<le> last_place 53 (- 1074) x" using p by (simp add: last_place_def)
  let ?e = "last_place 53 (- 1074) x"
  define m where "m = round_even (x / 2 powi ?e)"
  have f: "fl x = of_int m * 2 powi ?e" using p by (simp add: fl_def round_to_def Let_def m_def)
  have "(2 :: rat) powi ?e = 2 powi (?e + 62) * 2 powi (- 62)" by (simp only: powi_2_add[symmetric]) simp
  moreover have "(2 :: rat) powi (?e + 62) = of_int (2 ^ nat (?e + 62))" using l by (intro powi_2_int) simp
  ultimately have "fl x = of_int (m * 2 ^ nat (?e + 62)) * 2 powi (- 62)"
    unfolding f by (simp only: of_int_mult mult.assoc)
  then show ?thesis unfolding coarse_def ..
qed

lemma coarse_minus: "coarse (- x) = coarse x"
proof -
  have "coarse (- x)" if c: "coarse x" for x
  proof -
    obtain n where "x = of_int n * 2 powi (- 62)" using c by (auto simp: coarse_def)
    then have "- x = of_int (- n) * 2 powi (- 62)" by simp
    then show ?thesis unfolding coarse_def ..
  qed
  from this[of x] this[of "- x"] show ?thesis by auto
qed

lemma fl_minus: "fl (- x) = - fl x"
  by (simp add: fl_def round_to_minus)

lemma ms_of_sample: "is_f64 (ms_of t)" "coarse (ms_of t)"
proof -
  show "is_f64 (ms_of t)" by (simp add: ms_of_def fdiv_def)
  let ?k = "t sdiv 1000"
  have one: "is_f64 1" using is_float_int[of 1 53 "- 1074"] by simp
  have pos: "coarse (fl (fl (of_int k) / 1000))" if "0 < k" for k
  proof -
    have "1 \<le> fl (of_int k)" using that one by (intro fl_ge) simp_all
    then have "2 powi (- 10) \<le> fl (of_int k) / 1000" by (simp add: power_int_minus)
    then show ?thesis by (rule coarse_fl)
  qed
  consider "?k = 0" | "0 < ?k" | "0 < - ?k" by linarith
  then show "coarse (ms_of t)"
  proof cases
    case 1
    then show ?thesis by (auto simp: ms_of_def fdiv_def f64_of_int_def coarse_def intro: exI[of _ 0])
  next
    case 2
    then show ?thesis using pos by (simp add: ms_of_def fdiv_def f64_of_int_def)
  next
    case 3
    have "fl (fl (of_int (- ?k)) / 1000) = - ms_of t"
      by (simp only: ms_of_def fdiv_def f64_of_int_def of_int_minus fl_minus minus_divide_left[symmetric])
    then show ?thesis using pos[OF 3] by (simp only: coarse_minus)
  qed
qed

section \<open>The summary\<close>

lemma split_valid_eq:
  "split_valid ts valid errors =
     (valid @ map ms_of (filter (\<lambda>t. t \<noteq> err_duration) ts), errors + int (count_list ts err_duration))"
  by (induction ts valid errors rule: split_valid.induct) auto

definition valid_times :: "int list \<Rightarrow> f64 list" where
  "valid_times ts = sort (map ms_of (filter (\<lambda>t. t \<noteq> err_duration) ts))"

lemma valid_times_samples:
  "valid_times ts \<noteq> [] \<Longrightarrow> length ts \<le> 2 ^ 52 \<Longrightarrow> samples (valid_times ts)"
  using order_trans[OF length_filter_le[of "\<lambda>t. t \<noteq> err_duration" ts], of "2 ^ 52"]
  by (auto simp: samples_def valid_times_def ms_of_sample)

lemma valid_times_Nil: "valid_times ts = [] \<longleftrightarrow> (\<forall>t \<in> set ts. t = err_duration)"
  by (auto simp: valid_times_def sort_Nil_iff filter_empty_conv)

lemma summarize_errors:
  "r_errors (summarize cfg) = int (count_list (sc_times cfg) err_duration)"
  by (simp add: summarize_def split_valid_eq Let_def)

lemma summarize_ranked:
  assumes "\<exists>t \<in> set (sc_times cfg). t \<noteq> err_duration" "length (sc_times cfg) \<le> 2 ^ 52"
  shows "r_min_ms (summarize cfg) = hd (valid_times (sc_times cfg))"
    "r_p50_ms (summarize cfg) = percentile (valid_times (sc_times cfg)) 50"
    "r_p95_ms (summarize cfg) = percentile (valid_times (sc_times cfg)) 95"
    "r_max_ms (summarize cfg) = last (valid_times (sc_times cfg))"
proof -
  let ?f = "map ms_of (filter (\<lambda>t. t \<noteq> err_duration) (sc_times cfg))"
  have ne: "?f \<noteq> []" using assms(1) by (auto simp: filter_empty_conv)
  then have n: "sort ?f \<noteq> []" by (simp only: sort_Nil_iff) simp
  have v: "valid_times (sc_times cfg) = sort ?f" by (simp add: valid_times_def)
  have l: "last (sort ?f) = sort ?f ! (length ?f - 1)" "hd (sort ?f) = sort ?f ! 0"
    using n by (simp_all add: last_conv_nth hd_conv_nth)
  have s: "split_valid (sc_times cfg) [] 0 = (?f, int (count_list (sc_times cfg) err_duration))"
    by (simp add: split_valid_eq)
  show "r_min_ms (summarize cfg) = hd (valid_times (sc_times cfg))"
    "r_p50_ms (summarize cfg) = percentile (valid_times (sc_times cfg)) 50"
    "r_p95_ms (summarize cfg) = percentile (valid_times (sc_times cfg)) 95"
    "r_max_ms (summarize cfg) = last (valid_times (sc_times cfg))"
    unfolding summarize_def s prod.case Let_def v l using ne by simp_all
qed

lemma summarize_order:
  assumes "\<exists>t \<in> set (sc_times cfg). t \<noteq> err_duration" "length (sc_times cfg) \<le> 2 ^ 52"
  shows "r_min_ms (summarize cfg) \<le> r_p50_ms (summarize cfg)
    \<and> r_p50_ms (summarize cfg) \<le> r_p95_ms (summarize cfg) \<and> r_p95_ms (summarize cfg) \<le> r_max_ms (summarize cfg)"
proof -
  let ?v = "valid_times (sc_times cfg)"
  have "?v \<noteq> []" using assms(1) by (simp add: valid_times_Nil)
  then have sam: "samples ?v" using assms(2) by (rule valid_times_samples)
  note b50 = percentile_between[OF sam, of 50] and b95 = percentile_between[OF sam, of 95]
  have "hd ?v \<le> ?v ! nat \<lfloor>rank_of (length ?v) 50\<rfloor>"
    using sorted_hd_last[of ?v] sam b50(1) by (simp add: samples_def)
  then have "hd ?v \<le> percentile ?v 50" using b50(2) by simp
  moreover have "percentile ?v 50 \<le> percentile ?v 95" by (rule percentile_mono[OF sam]) simp_all
  moreover have "percentile ?v 95 \<le> last ?v" using b95(4) by simp
  ultimately show ?thesis by (simp only: summarize_ranked[OF assms])
qed

end
