(* ===== verification/PktCount.thy ===== *)
theory PktCount
  imports Prelude "HOL-Library.Word"
begin

text \<open>
  \<open>internal/pktcount\<close>: counting the packets of some ports on the loopback interface. A packet
  is a list of bytes starting at the IP header. What \<open>Recvfrom\<close> returns, call by call, is the
  argument of the capture loop; the system calls of \<open>New\<close> report their error, if any.
\<close>

unbundle bit_operations_syntax

type_synonym byte = "8 word"

section \<open>Ports\<close>

definition be16 :: "byte \<Rightarrow> byte \<Rightarrow> 16 word" where
  "be16 hi lo = push_bit 8 (ucast hi) OR ucast lo"

definition extract_ports :: "byte list \<Rightarrow> (16 word \<times> 16 word) option" where
  "extract_ports ip =
     (if length ip < 20 then None
      else if drop_bit 4 (ip ! 0) \<noteq> 4 then None
      else let ihl = unat ((ip ! 0) AND 0x0F) * 4; proto = ip ! 9
        in if proto \<noteq> 6 \<and> proto \<noteq> 17 then None
           else if length ip < ihl + 4 then None
           else let transport = drop ihl ip
             in Some (be16 (transport ! 0) (transport ! 1), be16 (transport ! 2) (transport ! 3)))"

definition htons :: "16 word \<Rightarrow> 16 word" where
  "htons v = (push_bit 8 v AND 0xFF00) OR drop_bit 8 v"

section \<open>The counter\<close>

record counter =
  pk_ports :: "16 word set"
  pk_in :: nat
  pk_out :: nat

text \<open>\<open>New\<close>: the error of opening or binding the socket; ports are cut to 16 bits.\<close>

definition new_counter :: "string option \<Rightarrow> string option \<Rightarrow> int list \<Rightarrow> counter result" where
  "new_counter sock_err bind_err ports =
     (case sock_err of
        Some e \<Rightarrow> Inl e
      | None \<Rightarrow>
          (case bind_err of
             Some e \<Rightarrow> Inl e
           | None \<Rightarrow> Inr \<lparr>pk_ports = word_of_int ` set ports, pk_in = 0, pk_out = 0\<rparr>))"

definition snapshot_counts :: "counter \<Rightarrow> nat \<times> nat" where
  "snapshot_counts c = (pk_in c, pk_out c)"

definition reset_counts :: "counter \<Rightarrow> counter" where
  "reset_counts c = c\<lparr>pk_in := 0, pk_out := 0\<rparr>"

text \<open>One turn of the capture loop: the socket's done flag, then what \<open>Recvfrom\<close> returns.\<close>

datatype recv = DoneClosed | RecvError | Received "byte list" bool

definition count_packet :: "byte list \<Rightarrow> bool \<Rightarrow> counter \<Rightarrow> counter" where
  "count_packet pkt outgoing c =
     (if length pkt < 20 then c
      else if outgoing then c
      else case extract_ports pkt of
          None \<Rightarrow> c
        | Some (src_port, dst_port) \<Rightarrow>
            let c1 = (if dst_port \<in> pk_ports c then c\<lparr>pk_in := pk_in c + 1\<rparr> else c)
            in if src_port \<in> pk_ports c1 then c1\<lparr>pk_out := pk_out c1 + 1\<rparr> else c1)"

fun capture :: "recv list \<Rightarrow> counter \<Rightarrow> counter" where
  "capture [] c = c"
| "capture (DoneClosed # _) c = c"
| "capture (RecvError # evs) c = capture evs c"
| "capture (Received pkt outgoing # evs) c = capture evs (count_packet pkt outgoing c)"

section \<open>Byte order\<close>

lemma bit_high_byte: "bit (0xFF00 :: 16 word) k \<longleftrightarrow> 8 \<le> k \<and> k < 16"
proof -
  have eq: "(0xFF00 :: 16 word) = push_bit 8 (mask 8)" by (simp add: mask_eq_exp_minus_1 push_bit_eq_mult)
  show ?thesis unfolding eq by (auto simp only: bit_push_bit_iff bit_mask_iff word_size) auto
qed

lemma bit_htons: "n < 16 \<Longrightarrow> bit (htons v) n \<longleftrightarrow> (if n < 8 then bit v (n + 8) else bit v (n - 8))"
  unfolding htons_def bit_or_iff bit_and_iff bit_high_byte bit_drop_bit_eq comp_def
  by (auto simp: bit_push_bit_iff add.commute dest: bit_imp_le_length)

lemma htons_htons: "htons (htons v) = v"
proof (rule bit_word_eqI)
  fix n assume "n < LENGTH(16)"
  then show "bit (htons (htons v)) n = bit v n"
  proof (cases "n < 8")
    case False
    then obtain m where "n = m + 8" by (metis add.commute le_Suc_ex not_less)
    then show ?thesis using \<open>n < LENGTH(16)\<close> by (simp add: bit_htons)
  qed (simp add: bit_htons)
qed

lemma be16_split: "be16 (ucast (drop_bit 8 w)) (ucast w) = (w :: 16 word)"
  by (rule bit_word_eqI) (auto simp: be16_def bit_simps)

section \<open>Well-formed packets\<close>

text \<open>
  An IPv4 header of \<open>ihl\<close> words with the given protocol, then a transport header that starts
  with the ports.
\<close>

definition port_bytes :: "16 word \<Rightarrow> byte list" where
  "port_bytes p = [ucast (drop_bit 8 p), ucast p]"

definition is_header :: "byte list \<Rightarrow> nat \<Rightarrow> byte \<Rightarrow> bool" where
  "is_header hdr ihl proto \<longleftrightarrow> 5 \<le> ihl \<and> ihl < 16 \<and> length hdr = 4 * ihl
     \<and> hdr ! 0 = 0x40 OR of_nat ihl \<and> hdr ! 9 = proto"

definition ip_packet :: "byte list \<Rightarrow> 16 word \<Rightarrow> 16 word \<Rightarrow> byte list \<Rightarrow> byte list" where
  "ip_packet hdr src dst payload = hdr @ port_bytes src @ port_bytes dst @ payload"

lemma ihl_fields: "ihl < 16 \<Longrightarrow> drop_bit 4 (0x40 OR of_nat ihl :: byte) = 4 \<and> unat ((0x40 OR of_nat ihl :: byte) AND 0x0F) = ihl"
proof -
  have "\<forall>n \<in> set [0..<16]. drop_bit 4 (0x40 OR of_nat n :: byte) = 4 \<and> unat ((0x40 OR of_nat n :: byte) AND 0x0F) = n"
    by code_simp
  then show "ihl < 16 \<Longrightarrow> ?thesis" by simp
qed

lemma extract_ports_packet:
  assumes "is_header hdr ihl proto" "proto = 6 \<or> proto = 17"
  shows "extract_ports (ip_packet hdr src dst payload) = Some (src, dst)"
proof -
  have len: "5 \<le> ihl" "length hdr = 4 * ihl" using assms(1) by (auto simp: is_header_def)
  have n: "(hdr @ xs) ! 0 = hdr ! 0" "(hdr @ xs) ! 9 = hdr ! 9" for xs :: "byte list"
    using len by (auto simp: nth_append)
  have d: "drop (ihl * 4) (hdr @ xs) = xs" for xs :: "byte list" using len by simp
  show ?thesis
    using assms ihl_fields[of ihl] len
    by (simp add: extract_ports_def ip_packet_def n d is_header_def port_bytes_def be16_split Let_def)
qed

lemma extract_ports_short: "extract_ports pkt = Some pq \<Longrightarrow> 20 \<le> length pkt"
  by (auto simp: extract_ports_def split: if_splits)

section \<open>What is counted\<close>

text \<open>The events up to the end of the capture, and the port pairs of the packets that count.\<close>

fun counted :: "recv list \<Rightarrow> (16 word \<times> 16 word) list" where
  "counted [] = []"
| "counted (DoneClosed # _) = []"
| "counted (RecvError # evs) = counted evs"
| "counted (Received pkt outgoing # evs) =
     (if outgoing then [] else (case extract_ports pkt of None \<Rightarrow> [] | Some pq \<Rightarrow> [pq])) @ counted evs"

lemma count_packet_eq:
  "count_packet pkt outgoing c =
     (case (if outgoing then None else extract_ports pkt) of
        None \<Rightarrow> c
      | Some (s, d) \<Rightarrow> c\<lparr>pk_in := pk_in c + (if d \<in> pk_ports c then 1 else 0),
                        pk_out := pk_out c + (if s \<in> pk_ports c then 1 else 0)\<rparr>)"
  by (auto simp: count_packet_def Let_def dest: extract_ports_short split: option.splits)

lemma capture_counts:
  "pk_in (capture evs c) = pk_in c + length (filter (\<lambda>(s, d). d \<in> pk_ports c) (counted evs))
   \<and> pk_out (capture evs c) = pk_out c + length (filter (\<lambda>(s, d). s \<in> pk_ports c) (counted evs))
   \<and> pk_ports (capture evs c) = pk_ports c"
  by (induction evs c rule: capture.induct)
    (auto simp: count_packet_eq split: option.splits)

text \<open>A header length below five words is not refused: the ports are read inside the header.\<close>

lemma short_header_accepted:
  "extract_ports ([0x40, 1, 2, 3, 4, 5, 6, 7, 8, 6] @ replicate 10 0) = Some (0x4001, 0x0203)"
  by code_simp

end
