(* ===== verification/BenchCore.thy ===== *)
theory BenchCore
  imports Percentile Resource RtCount PktCount "HOL-Library.Monad_Syntax"
begin

text \<open>
  What the benchmark drivers of \<open>internal/bench\<close> share (\<open>bench.go\<close>): the configuration, the
  counters of a mode, the packet counter's interface, and the iterations that measure. The clock,
  the run-time statistics and the packet counter are operations of an environment over a world.

  A mode runs its iterations with \<open>RunParallel\<close>. An iteration is taken to have its effects at
  once, so a mode is the iterations one after the other, in an order that the environment gives
  (\<open>run_mode_pool\<close>); at concurrency 1 it is the order of the indices. \<open>RunParallel\<close> itself is modelled
  with iterations of many steps that overlap. The numbers of iterations and commands are not
  negative. \<open>None\<close> is a benchmark that never returns.
\<close>

lemma bind_SomeE: "Option.bind m f = Some y \<Longrightarrow> (\<And>x. m = Some x \<Longrightarrow> f x = Some y \<Longrightarrow> P) \<Longrightarrow> P"
  by (cases m) simp_all

lemma bind_pairE:
  "Option.bind m (case_prod f) = Some y \<Longrightarrow> (\<And>a w. m = Some (a, w) \<Longrightarrow> f a w = Some y \<Longrightarrow> P) \<Longrightarrow> P"
  by (cases m) auto

section \<open>Configuration and environment\<close>

record bench_config =
  cf_addr :: string
  cf_user :: string
  cf_pass :: string
  cf_iterations :: nat
  cf_concurrency :: int
  cf_commands :: nat
  cf_profile :: string
  cf_rtt_ms :: f64
  cf_jitter_ms :: f64
  cf_loss_pct :: f64
  cf_hostname :: string
  cf_pkt_counter :: bool
  cf_resource :: bool

record 'w bench_env =
  be_now :: "'w \<Rightarrow> int \<times> 'w"
  be_usage :: "'w \<Rightarrow> (string result \<times> int \<times> int \<times> int) \<times> 'w"
  be_pkt_reset :: "'w \<Rightarrow> 'w"
  be_pkt_snapshot :: "'w \<Rightarrow> nat \<times> nat"
  be_sleep :: "int \<Rightarrow> 'w \<Rightarrow> 'w"
  be_order :: "int \<Rightarrow> nat \<Rightarrow> nat list"

text \<open>The order in which the iterations of a mode take effect; this one is that of the plain loop.\<close>

definition serial_order :: "int \<Rightarrow> nat \<Rightarrow> nat list" where
  "serial_order concurrency n = [0..<n]"

definition pkt_reset :: "bench_config \<Rightarrow> 'w bench_env \<Rightarrow> 'w \<Rightarrow> 'w" where
  "pkt_reset cf env w = (if cf_pkt_counter cf then be_pkt_reset env w else w)"

definition summarize_mode ::
  "bench_config \<Rightarrow> 'w bench_env \<Rightarrow> string \<Rightarrow> string \<Rightarrow> int list \<times> iter_counts \<Rightarrow> 'w \<Rightarrow> bench_result" where
  "summarize_mode cf env transport op tc w =
     (let r = summarize \<lparr>sc_transport = transport, sc_operation = op, sc_commands = int (cf_commands cf),
            sc_iterations = int (cf_iterations cf), sc_concurrency = cf_concurrency cf,
            sc_profile = cf_profile cf, sc_rtt_ms = cf_rtt_ms cf, sc_jitter_ms = cf_jitter_ms cf,
            sc_loss_pct = cf_loss_pct cf, sc_times = fst tc, sc_counts = snd tc\<rparr>
      in if cf_pkt_counter cf
         then r\<lparr>r_packets_in := int (fst (be_pkt_snapshot env w)), r_packets_out := int (snd (be_pkt_snapshot env w))\<rparr>
         else r)"

text \<open>The environment of a driver that keeps variables of its own besides the world.\<close>

definition local_env :: "'w bench_env \<Rightarrow> ('w \<times> 'l) bench_env" where
  "local_env env = \<lparr>be_now = (\<lambda>(w, l). case be_now env w of (t, w1) \<Rightarrow> (t, (w1, l))),
     be_usage = (\<lambda>(w, l). case be_usage env w of (u, w1) \<Rightarrow> (u, (w1, l))),
     be_pkt_reset = (\<lambda>(w, l). (be_pkt_reset env w, l)),
     be_pkt_snapshot = (\<lambda>(w, l). be_pkt_snapshot env w),
     be_sleep = (\<lambda>d (w, l). (be_sleep env d w, l)), be_order = be_order env\<rparr>"

section \<open>Counters\<close>

text \<open>The slices for the resource usage are nil, here empty, unless they are asked for.\<close>

definition new_counters_with_resource :: "nat \<Rightarrow> iter_counts" where
  "new_counters_with_resource n = \<lparr>ic_trips = replicate n 0, ic_reads = replicate n 0, ic_writes = replicate n 0,
     ic_cpu_us = replicate n 0, ic_alloc_bytes = replicate n 0, ic_allocs = replicate n 0\<rparr>"

definition make_counters :: "bench_config \<Rightarrow> iter_counts" where
  "make_counters cf =
     (if cf_resource cf then new_counters_with_resource (cf_iterations cf)
      else \<lparr>ic_trips = replicate (cf_iterations cf) 0, ic_reads = replicate (cf_iterations cf) 0,
            ic_writes = replicate (cf_iterations cf) 0, ic_cpu_us = [], ic_alloc_bytes = [], ic_allocs = []\<rparr>)"

definition record_resource :: "nat \<Rightarrow> resource_delta \<Rightarrow> iter_counts \<Rightarrow> iter_counts" where
  "record_resource idx d cnt =
     (if ic_cpu_us cnt \<noteq> []
      then cnt\<lparr>ic_cpu_us := (ic_cpu_us cnt)[idx := d_cpu_us d],
             ic_alloc_bytes := (ic_alloc_bytes cnt)[idx := d_bytes d],
             ic_allocs := (ic_allocs cnt)[idx := d_allocs d]\<rparr>
      else cnt)"

definition resource_now :: "'w bench_env \<Rightarrow> 'w \<Rightarrow> snapshot \<times> 'w" where
  "resource_now env w = (case be_usage env w of ((stat, mallocs, totalb, inuse), w1) \<Rightarrow>
     (snapshot_now stat mallocs totalb inuse, w1))"

definition resource_snap :: "bench_config \<Rightarrow> 'w bench_env \<Rightarrow> 'w \<Rightarrow> snapshot \<times> 'w" where
  "resource_snap cf env w =
     (if cf_resource cf then resource_now env w
      else (\<lparr>cpu_ns = 0, sn_allocs = 0, sn_bytes = 0, live_bytes = 0\<rparr>, w))"

definition resource_record ::
  "bench_config \<Rightarrow> 'w bench_env \<Rightarrow> nat \<Rightarrow> snapshot \<Rightarrow> iter_counts \<times> 'w \<Rightarrow> iter_counts \<times> 'w" where
  "resource_record cf env idx snap st =
     (case st of (cnt, w) \<Rightarrow>
        if cf_resource cf
        then (case resource_now env w of (now, w1) \<Rightarrow> (record_resource idx (since now snap) cnt, w1))
        else (cnt, w))"

definition store_counts :: "nat \<Rightarrow> int \<times> int \<times> int \<Rightarrow> iter_counts \<Rightarrow> iter_counts" where
  "store_counts idx v cnt =
     (case v of (t, r, w) \<Rightarrow>
        cnt\<lparr>ic_trips := (ic_trips cnt)[idx := t], ic_reads := (ic_reads cnt)[idx := r],
           ic_writes := (ic_writes cnt)[idx := w]\<rparr>)"

text \<open>The three counts of a connection. Streams and packet connections have the same.\<close>

definition counts_of :: "conn \<Rightarrow> int \<times> int \<times> int" where
  "counts_of cc = (int (trips cc), int (reads cc), int (writes cc))"

definition record_conn :: "nat \<Rightarrow> conn \<Rightarrow> iter_counts \<Rightarrow> iter_counts" where
  "record_conn idx cc cnt = store_counts idx (counts_of cc) cnt"

definition record_conn_delta :: "nat \<Rightarrow> conn \<Rightarrow> int \<times> int \<times> int \<Rightarrow> iter_counts \<Rightarrow> iter_counts" where
  "record_conn_delta idx cc base cnt =
     (case (counts_of cc, base) of ((t, r, w), (bt, br, bw)) \<Rightarrow> store_counts idx (t - bt, r - br, w - bw) cnt)"

definition record_packet :: "nat \<Rightarrow> conn \<Rightarrow> iter_counts \<Rightarrow> iter_counts" where
  "record_packet idx pc cnt = store_counts idx (counts_of pc) cnt"

definition record_packet_delta :: "nat \<Rightarrow> conn \<Rightarrow> int \<times> int \<times> int \<Rightarrow> iter_counts \<Rightarrow> iter_counts" where
  "record_packet_delta idx pc base cnt =
     (case (counts_of pc, base) of ((t, r, w), (bt, br, bw)) \<Rightarrow> store_counts idx (t - bt, r - br, w - bw) cnt)"

fun record_conns :: "nat \<Rightarrow> conn list \<Rightarrow> iter_counts \<Rightarrow> iter_counts" where
  "record_conns idx [] cnt = cnt"
| "record_conns idx (cc # conns) cnt =
     record_conns idx conns
       (cnt\<lparr>ic_trips := (ic_trips cnt)[idx := ic_trips cnt ! idx + int (trips cc)],
          ic_reads := (ic_reads cnt)[idx := ic_reads cnt ! idx + int (reads cc)],
          ic_writes := (ic_writes cnt)[idx := ic_writes cnt ! idx + int (writes cc)]\<rparr>)"

section \<open>Iterations\<close>

type_synonym 'w iteration = "nat \<Rightarrow> iter_counts \<times> 'w \<Rightarrow> (int \<times> iter_counts \<times> 'w) option"

text \<open>A failed iteration returns the error duration; a good one the time since its start.\<close>

definition since_start :: "'w bench_env \<Rightarrow> int \<Rightarrow> iter_counts \<times> 'w \<Rightarrow> int \<times> iter_counts \<times> 'w" where
  "since_start env start st =
     (case st of (cnt, w) \<Rightarrow> (case be_now env w of (now, w1) \<Rightarrow> (now - start, cnt, w1)))"

text \<open>
  The mode itself. The semaphore of \<open>RunParallel\<close> cannot be made with a negative concurrency, and
  with none its first acquire blocks for ever.
\<close>

definition run_mode ::
  "bench_config \<Rightarrow> 'v bench_env \<Rightarrow> 'w iteration \<Rightarrow> 'w \<Rightarrow> ((int list \<times> iter_counts) \<times> 'w) option" where
  "run_mode cf env iter w =
     (if cf_concurrency cf < 0 \<or> (cf_concurrency cf = 0 \<and> 0 < cf_iterations cf) then None
      else do {
        (ts, cnt, w1) \<leftarrow> run_order iter (be_order env (cf_concurrency cf) (cf_iterations cf))
          (replicate (cf_iterations cf) 0) (make_counters cf, w);
        Some ((ts, cnt), w1)
      })"

text \<open>
  An iteration on a shared connection: \<open>cc\<close> is the pointer to its counters, nil before a
  connection exists. The differences are recorded at concurrency 1 only.
\<close>

definition shared_base :: "bench_config \<Rightarrow> ('w \<Rightarrow> conn option) \<Rightarrow> 'w \<Rightarrow> int \<times> int \<times> int" where
  "shared_base cf cc w =
     (case cc w of Some c \<Rightarrow> if cf_concurrency cf = 1 then counts_of c else (0, 0, 0) | None \<Rightarrow> (0, 0, 0))"

definition shared_record ::
  "bench_config \<Rightarrow> ('w \<Rightarrow> conn option) \<Rightarrow> nat \<Rightarrow> int \<times> int \<times> int \<Rightarrow> 'w \<Rightarrow> iter_counts \<Rightarrow> iter_counts" where
  "shared_record cf cc idx base w cnt =
     (case cc w of Some c \<Rightarrow> if cf_concurrency cf = 1 then record_conn_delta idx c base cnt else cnt | None \<Rightarrow> cnt)"

definition shared_iter ::
  "bench_config \<Rightarrow> 'w bench_env \<Rightarrow> ('w \<Rightarrow> conn option) \<Rightarrow> ('w \<Rightarrow> (string option \<times> 'w) option) \<Rightarrow> 'w iteration" where
  "shared_iter cf env cc work idx st =
     (case st of (cnt, w) \<Rightarrow> do {
        let (snap, w1) = resource_snap cf env w;
        let base = shared_base cf cc w1;
        let (start, w2) = be_now env w1;
        (err, w3) \<leftarrow> work w2;
        Some (case err of
           Some e \<Rightarrow> (err_duration, cnt, w3)
         | None \<Rightarrow> since_start env start
             (resource_record cf env idx snap (shared_record cf cc idx base w3 cnt, w3)))
      })"

section \<open>Shapes of the counters\<close>

definition counts_shape :: "bench_config \<Rightarrow> iter_counts \<Rightarrow> bool" where
  "counts_shape cf cnt \<longleftrightarrow>
     length (ic_trips cnt) = cf_iterations cf \<and> length (ic_reads cnt) = cf_iterations cf
     \<and> length (ic_writes cnt) = cf_iterations cf
     \<and> length (ic_cpu_us cnt) = (if cf_resource cf then cf_iterations cf else 0)
     \<and> length (ic_alloc_bytes cnt) = length (ic_cpu_us cnt) \<and> length (ic_allocs cnt) = length (ic_cpu_us cnt)"

lemma shape_make: "counts_shape cf (make_counters cf)"
  by (simp add: counts_shape_def make_counters_def new_counters_with_resource_def)

lemma shape_store: "counts_shape cf cnt \<Longrightarrow> counts_shape cf (store_counts idx v cnt)"
  by (cases v) (simp add: counts_shape_def store_counts_def)

lemma shape_resource: "counts_shape cf cnt \<Longrightarrow> counts_shape cf (record_resource idx d cnt)"
  by (auto simp: counts_shape_def record_resource_def)

lemma shape_records:
  assumes "counts_shape cf cnt"
  shows "counts_shape cf (record_conn idx c cnt)" "counts_shape cf (record_conn_delta idx c b cnt)"
    "counts_shape cf (record_packet idx c cnt)" "counts_shape cf (record_packet_delta idx c b cnt)"
    "counts_shape cf (record_resource idx d cnt)"
  using shape_store[OF assms] shape_resource[OF assms]
  by (simp_all add: record_conn_def record_conn_delta_def record_packet_def record_packet_delta_def split: prod.split)

lemma shape_conns: "counts_shape cf cnt \<Longrightarrow> counts_shape cf (record_conns idx cs cnt)"
  by (induction idx cs cnt rule: record_conns.induct) (simp_all add: counts_shape_def)

text \<open>Several connections of one iteration add up.\<close>

lemma record_conns_sum:
  "idx < length (ic_trips cnt) \<Longrightarrow>
     ic_trips (record_conns idx cs cnt) ! idx = ic_trips cnt ! idx + sum_list (map (\<lambda>c. int (trips c)) cs)"
  by (induction idx cs cnt rule: record_conns.induct) simp_all

section \<open>What a benchmark leaves alone\<close>

text \<open>
  An observation \<open>obs\<close> of the world, such as the set of open connections, that the environment,
  a step or an iteration does not change.
\<close>

definition env_keeps :: "('w \<Rightarrow> 'o) \<Rightarrow> 'w bench_env \<Rightarrow> bool" where
  "env_keeps obs env \<longleftrightarrow> (\<forall>w. obs (snd (be_now env w)) = obs w
     \<and> obs (snd (be_usage env w)) = obs w \<and> obs (be_pkt_reset env w) = obs w)"

definition keeps :: "('w \<Rightarrow> 'o) \<Rightarrow> ('w \<Rightarrow> ('a \<times> 'w) option) \<Rightarrow> bool" where
  "keeps obs m \<longleftrightarrow> (\<forall>w a w'. m w = Some (a, w') \<longrightarrow> obs w' = obs w)"

definition iter_keeps :: "('w \<Rightarrow> 'o) \<Rightarrow> 'w iteration \<Rightarrow> bool" where
  "iter_keeps obs iter \<longleftrightarrow>
     (\<forall>idx cnt w d cnt' w'. iter idx (cnt, w) = Some (d, cnt', w') \<longrightarrow> obs w' = obs w)"

lemma keepsI: "(\<And>w a w'. m w = Some (a, w') \<Longrightarrow> obs w' = obs w) \<Longrightarrow> keeps obs m"
  by (simp add: keeps_def)

lemma keepsD: "keeps obs m \<Longrightarrow> m w = Some (a, w') \<Longrightarrow> obs w' = obs w"
  by (simp add: keeps_def)

lemma iter_keepsI:
  "(\<And>idx cnt w d cnt' w'. iter idx (cnt, w) = Some (d, cnt', w') \<Longrightarrow> obs w' = obs w) \<Longrightarrow> iter_keeps obs iter"
  by (simp add: iter_keeps_def)

lemma env_frame [frame]:
  assumes "env_keeps obs env"
  shows "obs (snd (be_now env w)) = obs w" "obs (snd (be_usage env w)) = obs w" "obs (be_pkt_reset env w) = obs w"
    "obs (pkt_reset cf env w) = obs w" "obs (snd (resource_now env w)) = obs w"
    "obs (snd (resource_snap cf env w)) = obs w"
    "obs (snd (resource_record cf env idx snap (cnt, w))) = obs w"
    "obs (snd (snd (since_start env start (cnt, w)))) = obs w"
proof -
  show e: "obs (snd (be_now env w)) = obs w" "obs (snd (be_usage env w)) = obs w" "obs (be_pkt_reset env w) = obs w" for w
    using assms by (simp_all add: env_keeps_def)
  show "obs (pkt_reset cf env w) = obs w" by (simp add: pkt_reset_def e)
  show n: "obs (snd (resource_now env w)) = obs w"
    using e(2)[of w] by (cases "be_usage env w") (auto simp: resource_now_def)
  then show "obs (snd (resource_snap cf env w)) = obs w" by (simp add: resource_snap_def)
  show "obs (snd (resource_record cf env idx snap (cnt, w))) = obs w"
    using n by (cases "resource_now env w") (auto simp: resource_record_def)
  show "obs (snd (snd (since_start env start (cnt, w)))) = obs w"
    using e(1)[of w] by (cases "be_now env w") (auto simp: since_start_def)
qed

text \<open>The same with the results named.\<close>

lemma env_keeps_eq:
  assumes "env_keeps obs env"
  shows "be_now env w = (t, w') \<Longrightarrow> obs w' = obs w"
    and "resource_snap cf env w = (s, w') \<Longrightarrow> obs w' = obs w"
    and "resource_record cf env idx snap (cnt, w) = (cnt', w') \<Longrightarrow> obs w' = obs w"
    and "since_start env start (cnt, w) = (d, cnt', w') \<Longrightarrow> obs w' = obs w"
  using env_frame(1,6,7,8)[OF assms] by (metis snd_conv)+

lemma finish_keeps:
  assumes "env_keeps obs env" "since_start env start (resource_record cf env idx snap (cnt, w)) = (d, cnt', w')"
  shows "obs w' = obs w"
  using env_keeps_eq(3,4)[OF assms(1)] assms(2)
  by (cases "resource_record cf env idx snap (cnt, w)") fastforce

lemma local_env_keeps:
  assumes "env_keeps obs env"
  shows "env_keeps (\<lambda>v. obs (fst v)) (local_env env)"
proof -
  have "obs (snd (be_now env w)) = obs w" "obs (snd (be_usage env w)) = obs w" "obs (be_pkt_reset env w) = obs w" for w
    using assms by (simp_all add: env_keeps_def)
  then show ?thesis by (simp add: env_keeps_def local_env_def split_def)
qed

lemma run_order_keeps:
  "iter_keeps obs iter \<Longrightarrow> run_order iter is rs (cnt, w) = Some (rs', cnt', w') \<Longrightarrow> obs w' = obs w"
proof (induction "is" arbitrary: rs cnt w)
  case (Cons i "is")
  then obtain d cnt1 w1 where 1: "iter i (cnt, w) = Some (d, cnt1, w1)"
    "run_order iter is (rs[i := d]) (cnt1, w1) = Some (rs', cnt', w')"
    by (auto split: option.splits)
  then show ?case using Cons.IH[OF Cons.prems(1) 1(2)] Cons.prems(1) unfolding iter_keeps_def by metis
qed simp

lemma run_mode_keeps: "iter_keeps obs iter \<Longrightarrow> keeps obs (run_mode cf env iter)"
  by (rule keepsI) (auto simp: run_mode_def bind_eq_Some_conv dest: run_order_keeps split: if_splits)

text \<open>The stages of an iteration on a shared connection.\<close>

lemma shared_iter_stages:
  assumes "shared_iter cf env cc work idx (cnt, w) = Some res"
  obtains snap w1 start w2 err w3 where
    "resource_snap cf env w = (snap, w1)" "be_now env w1 = (start, w2)" "work w2 = Some (err, w3)"
    "res = (case err of Some e \<Rightarrow> (err_duration, cnt, w3)
       | None \<Rightarrow> since_start env start (resource_record cf env idx snap
           (shared_record cf cc idx (shared_base cf cc w1) w3 cnt, w3)))"
proof -
  obtain snap w1 where 1: "resource_snap cf env w = (snap, w1)" by (cases "resource_snap cf env w")
  obtain start w2 where 2: "be_now env w1 = (start, w2)" by (cases "be_now env w1")
  obtain err w3 where 3: "work w2 = Some (err, w3)"
    using assms 1 2 by (auto simp: shared_iter_def bind_eq_Some_conv)
  show thesis using that[OF 1 2 3] assms 1 2 3 by (simp add: shared_iter_def)
qed

lemma shared_iter_keeps:
  assumes "env_keeps obs env" "keeps obs work"
  shows "iter_keeps obs (shared_iter cf env cc work)"
proof (rule iter_keepsI)
  fix idx cnt w d cnt' w'
  assume "shared_iter cf env cc work idx (cnt, w) = Some (d, cnt', w')"
  then obtain snap w1 start w2 err w3 where s: "resource_snap cf env w = (snap, w1)"
    "be_now env w1 = (start, w2)" "work w2 = Some (err, w3)"
    "(d, cnt', w') = (case err of Some e \<Rightarrow> (err_duration, cnt, w3)
       | None \<Rightarrow> since_start env start (resource_record cf env idx snap
           (shared_record cf cc idx (shared_base cf cc w1) w3 cnt, w3)))"
    by (rule shared_iter_stages)
  have "obs w3 = obs w"
    using env_keeps_eq(1)[OF assms(1) s(2)] env_keeps_eq(2)[OF assms(1) s(1)] keepsD[OF assms(2) s(3)] by simp
  then show "obs w' = obs w"
    using s(4) by (cases err) (auto dest: finish_keeps[OF assms(1) sym])
qed

text \<open>The counters keep their lengths through a mode; every iteration has a time.\<close>

definition iter_shaped :: "bench_config \<Rightarrow> 'w iteration \<Rightarrow> bool" where
  "iter_shaped cf iter \<longleftrightarrow> (\<forall>idx cnt w d cnt' w'.
     iter idx (cnt, w) = Some (d, cnt', w') \<longrightarrow> counts_shape cf cnt \<longrightarrow> counts_shape cf cnt')"

lemma finish_shaped:
  assumes "counts_shape cf cnt" "since_start env start (resource_record cf env idx snap (cnt, w)) = (d, cnt', w')"
  shows "counts_shape cf cnt'"
  using assms shape_resource[OF assms(1)]
  by (auto simp: resource_record_def since_start_def split: prod.splits if_splits)

lemma iter_shapedI:
  "(\<And>idx cnt w d cnt' w'. counts_shape cf cnt \<Longrightarrow> iter idx (cnt, w) = Some (d, cnt', w') \<Longrightarrow> counts_shape cf cnt') \<Longrightarrow>
     iter_shaped cf iter"
  by (simp add: iter_shaped_def)

lemma shared_iter_shaped: "iter_shaped cf (shared_iter cf env cc work)"
proof (rule iter_shapedI)
  fix idx cnt w d cnt' w'
  assume shape: "counts_shape cf cnt" and "shared_iter cf env cc work idx (cnt, w) = Some (d, cnt', w')"
  from this(2) obtain snap w1 start w2 err w3 where "resource_snap cf env w = (snap, w1)"
    "be_now env w1 = (start, w2)" "work w2 = Some (err, w3)" and s: "(d, cnt', w') = (case err of Some e \<Rightarrow> (err_duration, cnt, w3)
       | None \<Rightarrow> since_start env start (resource_record cf env idx snap
           (shared_record cf cc idx (shared_base cf cc w1) w3 cnt, w3)))"
    by (rule shared_iter_stages)
  have "counts_shape cf (shared_record cf cc idx (shared_base cf cc w1) w3 cnt)"
    using shape shape_records(2)[OF shape] by (simp add: shared_record_def split: option.split)
  then show "counts_shape cf cnt'" using s shape by (cases err) (auto dest: finish_shaped[OF _ sym])
qed

lemma run_order_shaped:
  "iter_shaped cf iter \<Longrightarrow> counts_shape cf cnt \<Longrightarrow> run_order iter is rs (cnt, w) = Some (rs', cnt', w') \<Longrightarrow>
     counts_shape cf cnt' \<and> length rs' = length rs"
proof (induction "is" arbitrary: rs cnt w)
  case (Cons i "is")
  then obtain d cnt1 w1 where 1: "iter i (cnt, w) = Some (d, cnt1, w1)"
    "run_order iter is (rs[i := d]) (cnt1, w1) = Some (rs', cnt', w')"
    by (auto split: option.splits)
  have "counts_shape cf cnt1" using 1(1) Cons.prems(1,2) unfolding iter_shaped_def by blast
  then show ?case using Cons.IH[OF Cons.prems(1) _ 1(2)] by simp
qed simp

lemma run_mode_shaped:
  "iter_shaped cf iter \<Longrightarrow> run_mode cf env iter w = Some ((ts, cnt), w') \<Longrightarrow>
     counts_shape cf cnt \<and> length ts = cf_iterations cf"
  using run_order_shaped[OF _ shape_make]
  by (fastforce simp: run_mode_def bind_eq_Some_conv split: if_splits)

section \<open>What a benchmark gets done\<close>

text \<open>
  A step that returns: from every state of \<open>up\<close> it ends in one, with a result in \<open>post\<close>; the clock
  \<open>clk\<close> of the world does not run backwards.
\<close>

definition gets_done :: "('w \<Rightarrow> int) \<Rightarrow> ('w \<Rightarrow> bool) \<Rightarrow> ('w \<Rightarrow> ('a \<times> 'w) option) \<Rightarrow> ('a \<Rightarrow> bool) \<Rightarrow> bool" where
  "gets_done clk up m post \<longleftrightarrow>
     (\<forall>w. up w \<longrightarrow> (\<exists>a w'. m w = Some (a, w') \<and> post a \<and> up w' \<and> clk w \<le> clk w'))"

lemma gets_doneI:
  "(\<And>w. up w \<Longrightarrow> \<exists>a w'. m w = Some (a, w') \<and> post a \<and> up w' \<and> clk w \<le> clk w') \<Longrightarrow> gets_done clk up m post"
  by (simp add: gets_done_def)

lemma gets_doneE:
  assumes "gets_done clk up m post" "up w"
  obtains a w' where "m w = Some (a, w')" "post a" "up w'" "clk w \<le> clk w'"
  using assms by (auto simp: gets_done_def)

definition env_up :: "('w \<Rightarrow> int) \<Rightarrow> ('w \<Rightarrow> bool) \<Rightarrow> 'w bench_env \<Rightarrow> bool" where
  "env_up clk up env \<longleftrightarrow> (\<forall>w. up w \<longrightarrow>
     (\<forall>t w'. be_now env w = (t, w') \<longrightarrow> up w' \<and> clk w \<le> t \<and> t \<le> clk w')
     \<and> (\<forall>u w'. be_usage env w = (u, w') \<longrightarrow> up w' \<and> clk w \<le> clk w')
     \<and> up (be_pkt_reset env w) \<and> clk w \<le> clk (be_pkt_reset env w))"

lemma env_up_eq:
  assumes "env_up clk up env" "up w"
  shows "be_now env w = (t, w') \<Longrightarrow> up w' \<and> clk w \<le> t \<and> t \<le> clk w'"
    and "resource_snap cf env w = (snap, w') \<Longrightarrow> up w' \<and> clk w \<le> clk w'"
    and "resource_record cf env idx s0 (cnt, w) = (cnt', w') \<Longrightarrow> up w' \<and> clk w \<le> clk w'"
    and "up (pkt_reset cf env w) \<and> clk w \<le> clk (pkt_reset cf env w)"
proof -
  show "be_now env w = (t, w') \<Longrightarrow> up w' \<and> clk w \<le> t \<and> t \<le> clk w'"
    using assms unfolding env_up_def by blast
  have u: "be_usage env w = (u, w1) \<Longrightarrow> up w1 \<and> clk w \<le> clk w1" for u w1
    using assms unfolding env_up_def by blast
  have n: "resource_now env w = (x, w') \<Longrightarrow> up w' \<and> clk w \<le> clk w'" for x w'
    using u by (cases "be_usage env w") (auto simp: resource_now_def)
  show "resource_snap cf env w = (snap, w') \<Longrightarrow> up w' \<and> clk w \<le> clk w'"
    using n assms(2) by (auto simp: resource_snap_def split: if_splits)
  show "resource_record cf env idx s0 (cnt, w) = (cnt', w') \<Longrightarrow> up w' \<and> clk w \<le> clk w'"
    using n assms(2) by (cases "resource_now env w") (auto simp: resource_record_def split: if_splits)
  have "up (be_pkt_reset env w) \<and> clk w \<le> clk (be_pkt_reset env w)"
    using assms unfolding env_up_def by blast
  then show "up (pkt_reset cf env w) \<and> clk w \<le> clk (pkt_reset cf env w)"
    using assms(2) by (simp add: pkt_reset_def)
qed

text \<open>The end of a good iteration: the resources, then the time since the start.\<close>

lemma finish_up:
  assumes "env_up clk up env" "up w" "start \<le> clk w"
  shows "\<exists>d cnt' w'. since_start env start (resource_record cf env idx snap (cnt, w)) = (d, cnt', w')
    \<and> 0 \<le> d \<and> up w' \<and> clk w \<le> clk w'"
proof -
  obtain cnt1 w1 where 1: "resource_record cf env idx snap (cnt, w) = (cnt1, w1)"
    by (cases "resource_record cf env idx snap (cnt, w)")
  obtain t w2 where 2: "be_now env w1 = (t, w2)" by (cases "be_now env w1")
  show ?thesis using env_up_eq(3)[OF assms(1,2) 1] env_up_eq(1)[OF assms(1) _ 2] 1 2 assms(3)
    by (auto simp: since_start_def)
qed

definition iter_up :: "('w \<Rightarrow> int) \<Rightarrow> ('w \<Rightarrow> bool) \<Rightarrow> 'w iteration \<Rightarrow> bool" where
  "iter_up clk up iter \<longleftrightarrow> (\<forall>idx cnt w. up w \<longrightarrow>
     (\<exists>d cnt' w'. iter idx (cnt, w) = Some (d, cnt', w') \<and> 0 \<le> d \<and> up w' \<and> clk w \<le> clk w'))"

lemma shared_iter_up:
  assumes env: "env_up clk up env" and work: "gets_done clk up work (\<lambda>e. e = None)"
  shows "iter_up clk up (shared_iter cf env cc work)"
  unfolding iter_up_def
proof (intro allI impI)
  fix idx cnt w assume w: "up w"
  obtain snap w1 where 1: "resource_snap cf env w = (snap, w1)" by (cases "resource_snap cf env w")
  obtain start w2 where 2: "be_now env w1 = (start, w2)" by (cases "be_now env w1")
  note w1 = env_up_eq(2)[OF env w 1]
  note w2 = env_up_eq(1)[OF env conjunct1[OF w1] 2]
  obtain e w3 where 3: "work w2 = Some (e, w3)" "e = None" "up w3" "clk w2 \<le> clk w3"
    by (rule gets_doneE[OF work conjunct1[OF w2]])
  obtain d cnt' w' where "since_start env start (resource_record cf env idx snap
      (shared_record cf cc idx (shared_base cf cc w1) w3 cnt, w3)) = (d, cnt', w')"
    "0 \<le> d" "up w'" "clk w3 \<le> clk w'"
    using finish_up[OF env 3(3), of start cf idx snap "shared_record cf cc idx (shared_base cf cc w1) w3 cnt"] w2 3(4)
    by auto
  then show "\<exists>d cnt' w'. shared_iter cf env cc work idx (cnt, w) = Some (d, cnt', w') \<and> 0 \<le> d \<and> up w' \<and> clk w \<le> clk w'"
    using 1 2 3 w1 w2 by (auto simp: shared_iter_def)
qed

lemma run_order_up:
  "iter_up clk up iter \<Longrightarrow> up w \<Longrightarrow> err_duration \<notin> set rs \<Longrightarrow>
     \<exists>rs' cnt' w'. run_order iter is rs (cnt, w) = Some (rs', cnt', w') \<and> err_duration \<notin> set rs'
       \<and> up w' \<and> clk w \<le> clk w'"
proof (induction "is" arbitrary: rs cnt w)
  case (Cons i "is")
  obtain d cnt1 w1 where 1: "iter i (cnt, w) = Some (d, cnt1, w1)" "0 \<le> d" "up w1" "clk w \<le> clk w1"
    using Cons.prems(1,2) unfolding iter_up_def by metis
  have "err_duration \<notin> set (rs[i := d])"
    using Cons.prems(3) 1(2) set_update_subset_insert[of rs i d] by (auto simp: err_duration_def)
  from Cons.IH[OF Cons.prems(1) 1(3) this, of cnt1] show ?case using 1 by fastforce
qed simp

lemma run_mode_up:
  assumes "iter_up clk up iter" and conc: "0 < cf_concurrency cf"
  shows "gets_done clk up (run_mode cf env iter) (\<lambda>tc. err_duration \<notin> set (fst tc))"
proof (rule gets_doneI)
  fix w assume "up w"
  moreover have "err_duration \<notin> set (replicate (cf_iterations cf) 0)" by (simp add: err_duration_def)
  ultimately obtain rs' cnt' w' where "run_order iter (be_order env (cf_concurrency cf) (cf_iterations cf)) (replicate (cf_iterations cf) 0)
      (make_counters cf, w) = Some (rs', cnt', w')" "err_duration \<notin> set rs'" "up w'" "clk w \<le> clk w'"
    using run_order_up[OF assms(1)] by blast
  then show "\<exists>a w'. run_mode cf env iter w = Some (a, w') \<and> err_duration \<notin> set (fst a) \<and> up w' \<and> clk w \<le> clk w'"
    using conc by (auto simp: run_mode_def)
qed

text \<open>
  What \<open>RunParallel\<close> returns, if every iteration takes effect at once, is the mode with some order
  of the iterations.
\<close>

lemma run_mode_pool:
  assumes "(pool_step (cf_iterations cf) conc id (at_once iter))\<^sup>*\<^sup>* (pool_start (cf_iterations cf) 0 (make_counters cf, w)) p"
    and "main_at p = Returning" "cf_concurrency cf = int conc" "0 < conc"
  shows "\<exists>ord. distinct ord \<and> set ord = {0..<cf_iterations cf}
     \<and> run_mode cf (env\<lparr>be_order := \<lambda>_ _. ord\<rparr>) iter w = Some ((outcomes p, fst (world p)), snd (world p))"
proof -
  obtain ord where "distinct ord" "set ord = {0..<cf_iterations cf}"
    "run_order iter ord (replicate (cf_iterations cf) 0) (make_counters cf, w) = Some (outcomes p, world p)"
    using pool_serialises[OF assms(1,2) one_step_at_once] by auto
  then show ?thesis using assms(3,4) by (intro exI[of _ ord]) (simp add: run_mode_def split: prod.split)
qed

text \<open>The rows of the modes.\<close>

lemma summarize_mode_row:
  "r_transport (summarize_mode cf env tr op tc w) = tr"
  "r_operation (summarize_mode cf env tr op tc w) = op"
  "r_errors (summarize_mode cf env tr op tc w) = int (count_list (fst tc) err_duration)"
  by (simp_all add: summarize_mode_def summarize_errors Let_def)
    (simp_all add: summarize_def Let_def split: prod.split)

lemma summarize_mode_packets:
  "cf_pkt_counter cf \<Longrightarrow> r_packets_in (summarize_mode cf env tr op tc w) = int (fst (be_pkt_snapshot env w))"
  "cf_pkt_counter cf \<Longrightarrow> r_packets_out (summarize_mode cf env tr op tc w) = int (snd (be_pkt_snapshot env w))"
  by (simp_all add: summarize_mode_def Let_def)

definition clean_row :: "string \<Rightarrow> bench_result \<Rightarrow> bool" where
  "clean_row tr r \<longleftrightarrow> r_transport r = tr \<and> r_errors r = 0"

lemma clean_summary: "err_duration \<notin> set (fst tc) \<Longrightarrow> clean_row tr (summarize_mode cf env tr op tc w)"
  by (simp add: clean_row_def summarize_mode_row)

end
