(* ===== verification/PtyClient.thy ===== *)
theory PtyClient
  imports SshServer
begin

text \<open>
  \<open>internal/bench/pty.go\<close>: the client of a terminal session, which waits for prompts and echoes.
  The SSH session is a record of operations over a world. A read delivers bytes, an error or
  both; that the deadline of a wait passes before the next read returns is an event too.

  \<open>read_until\<close> loops for as long as the world delivers bytes without a match, so it is a partial
  function; \<open>None\<close> is the loop that never ends.
\<close>

datatype pty_event = Got string "string option" | Expired

record 'w pty_api =
  pa_stdin :: "'w \<Rightarrow> string option \<times> 'w"
  pa_stdout :: "'w \<Rightarrow> string option \<times> 'w"
  pa_request_pty :: "'w \<Rightarrow> string option \<times> 'w"
  pa_shell :: "'w \<Rightarrow> string option \<times> 'w"
  pa_write :: "string \<Rightarrow> 'w \<Rightarrow> 'w"
  pa_read :: "'w \<Rightarrow> pty_event \<times> 'w"

section \<open>The client\<close>

text \<open>
  The outcome of a wait: its error and the bytes behind the match. The quoted target and buffer
  in the text of the time-out are left out.
\<close>

partial_function (option) read_until ::
  "('w \<Rightarrow> pty_event \<times> 'w) \<Rightarrow> string \<Rightarrow> string \<Rightarrow> 'w \<Rightarrow> ((string option \<times> string) \<times> 'w) option" where
  "read_until rd target buf w =
     (case index_of buf target of
        Some idx \<Rightarrow> Some ((None, drop (idx + length target) buf), w)
      | None \<Rightarrow>
          (case rd w of
             (Expired, w1) \<Rightarrow> Some ((Some ''timeout waiting'', buf), w1)
           | (Got b err, w1) \<Rightarrow>
               let buf1 = (if length b > 0 then buf @ b else buf)
               in case err of
                    Some e \<Rightarrow> Some ((Some e, buf1), w1)
                  | None \<Rightarrow> read_until rd target buf1 w1))"

text \<open>The body of both loops: send a command, wait for its echo, wait for the prompt.\<close>

fun pty_cmds ::
  "'w pty_api \<Rightarrow> string \<Rightarrow> string list \<Rightarrow> string \<Rightarrow> 'w \<Rightarrow> ((string option \<times> string) \<times> 'w) option" where
  "pty_cmds api prompt [] buf w = Some ((None, buf), w)"
| "pty_cmds api prompt (cmd # cmds) buf w =
     (case read_until (pa_read api) cmd buf (pa_write api (cmd @ [NL]) w) of
        None \<Rightarrow> None
      | Some ((Some e, buf1), w1) \<Rightarrow> Some ((Some e, buf1), w1)
      | Some ((None, buf1), w1) \<Rightarrow>
          (case read_until (pa_read api) prompt buf1 w1 of
             None \<Rightarrow> None
           | Some ((Some e, buf2), w2) \<Rightarrow> Some ((Some e, buf2), w2)
           | Some ((None, buf2), w2) \<Rightarrow> pty_cmds api prompt cmds buf2 w2))"

definition prep_cmds :: "string list" where
  "prep_cmds = [''terminal length 0'', ''terminal width 511'']"

text \<open>The steps that open the session, up to the first that fails.\<close>

definition pty_open :: "'w pty_api \<Rightarrow> 'w \<Rightarrow> string option \<times> 'w" where
  "pty_open api w =
     (case pa_stdin api w of (Some e, w1) \<Rightarrow> (Some e, w1) | (None, w1) \<Rightarrow>
      (case pa_stdout api w1 of (Some e, w2) \<Rightarrow> (Some e, w2) | (None, w2) \<Rightarrow>
       (case pa_request_pty api w2 of (Some e, w3) \<Rightarrow> (Some e, w3) | (None, w3) \<Rightarrow> pa_shell api w3)))"

definition pty_exec_cmds :: "'w pty_api \<Rightarrow> string \<Rightarrow> nat \<Rightarrow> 'w \<Rightarrow> (string option \<times> 'w) option" where
  "pty_exec_cmds api prompt cmds w =
     (case pty_open api w of
        (Some e, w1) \<Rightarrow> Some (Some e, w1)
      | (None, w1) \<Rightarrow>
     (case read_until (pa_read api) prompt [] w1 of
        None \<Rightarrow> None
      | Some ((Some e, _), w2) \<Rightarrow> Some (Some e, w2)
      | Some ((None, buf), w2) \<Rightarrow>
     (case pty_cmds api prompt prep_cmds buf w2 of
        None \<Rightarrow> None
      | Some ((Some e, _), w3) \<Rightarrow> Some (Some e, w3)
      | Some ((None, buf1), w3) \<Rightarrow>
     (case pty_cmds api prompt (replicate cmds ''show version'') buf1 w3 of
        None \<Rightarrow> None
      | Some ((Some e, _), w4) \<Rightarrow> Some (Some e, w4)
      | Some ((None, _), w4) \<Rightarrow> Some (None, pa_write api (''exit'' @ [NL]) w4)))))"

section \<open>A session of the SSH server\<close>

text \<open>
  The server answers what is written at once; its output waits in a queue and is read in pieces
  of any size. \<open>pl_line\<close> is the server's line buffer, \<open>None\<close> once the session has returned.
\<close>

record pty_link =
  pl_line :: "string option"
  pl_out :: string
  pl_sizes :: "nat list"

definition link_start :: "nat list \<Rightarrow> pty_link" where
  "link_start sizes = \<lparr>pl_line = None, pl_out = [], pl_sizes = sizes\<rparr>"

definition link_shell :: "device \<Rightarrow> pty_link \<Rightarrow> string option \<times> pty_link" where
  "link_shell dev l = (None, l\<lparr>pl_line := Some [], pl_out := prompt_of dev\<rparr>)"

definition link_write :: "device \<Rightarrow> string \<Rightarrow> pty_link \<Rightarrow> pty_link" where
  "link_write dev s l =
     (case pl_line l of
        None \<Rightarrow> l
      | Some line \<Rightarrow>
          (case pty_bytes dev line s of
             (ws, line') \<Rightarrow> l\<lparr>pl_line := line', pl_out := pl_out l @ concat ws\<rparr>))"

definition link_read :: "pty_link \<Rightarrow> pty_event \<times> pty_link" where
  "link_read l =
     (if pl_out l = [] then
        (if pl_line l = None then (Got [] (Some ''EOF''), l) else (Expired, l))
      else
        (let k = (case pl_sizes l of [] \<Rightarrow> 4096 | n # _ \<Rightarrow> max 1 (min n 4096))
         in (Got (take k (pl_out l)) None, l\<lparr>pl_out := drop k (pl_out l), pl_sizes := tl (pl_sizes l)\<rparr>)))"

definition link_api :: "device \<Rightarrow> pty_link pty_api" where
  "link_api dev = \<lparr>pa_stdin = Pair None, pa_stdout = Pair None, pa_request_pty = Pair None,
     pa_shell = link_shell dev, pa_write = link_write dev, pa_read = link_read\<rparr>"

section \<open>The wait finds what the server has sent\<close>

lemma index_of_earliest:
  assumes "index_of buf t = Some i" "buf @ out = a @ t @ b"
  shows "i \<le> length a"
proof (rule ccontr)
  assume "\<not> i \<le> length a"
  have i: "i + length t \<le> length buf" using index_of_Some[OF assms(1)] by simp
  then have len: "length a + length t \<le> length buf" using \<open>\<not> i \<le> length a\<close> by simp
  have "drop (length a) (buf @ out) = t @ b" using assms(2) by simp
  then have "drop (length a) buf @ out = t @ b" using len by simp
  then have "prefix t (drop (length a) buf)" using len
    by (metis append_eq_append_conv_if append_take_drop_id length_drop prefixI prefix_append prefix_length_prefix prefixI add_le_imp_le_diff add.commute)
  then show False using index_of_first[OF assms(1), of "length a"] \<open>\<not> i \<le> length a\<close> by simp
qed

lemma drop_suffix: "i + n \<le> length a + n \<Longrightarrow> suffix b (drop (i + length t) (a @ t @ b))"
proof -
  assume "i + n \<le> length a + n"
  then have "drop (i + length t) (a @ t @ b) = drop (i + length t) (a @ t) @ b" by simp
  then show ?thesis by (simp add: suffixI)
qed

text \<open>
  A wait for something that is on its way ends, and leaves at least what follows any one
  occurrence of it.
\<close>

lemma read_until_found:
  assumes "buf @ pl_out l = a @ t @ b" "t \<noteq> []"
  shows "\<exists>buf' l'. read_until link_read t buf l = Some ((None, buf'), l')
    \<and> pl_line l' = pl_line l \<and> suffix b (buf' @ pl_out l')"
  using assms
proof (induction "length (pl_out l)" arbitrary: buf l rule: less_induct)
  case less
  show ?case
  proof (cases "index_of buf t")
    case (Some i)
    then have "i \<le> length a" using index_of_earliest less.prems(1) by blast
    then have "suffix b (drop (i + length t) (buf @ pl_out l))"
      unfolding less.prems(1) by (intro drop_suffix) simp
    moreover have "i + length t \<le> length buf" using index_of_Some[OF Some] by simp
    ultimately show ?thesis using Some by (subst read_until.simps) simp
  next
    case None
    have ne: "pl_out l \<noteq> []"
    proof
      assume "pl_out l = []"
      then have "contains buf t" using less.prems(1) by (auto simp: contains_sublist sublist_def)
      then show False using None by (simp add: contains_def)
    qed
    obtain k where k: "0 < k" "link_read l = (Got (take k (pl_out l)) None,
        l\<lparr>pl_out := drop k (pl_out l), pl_sizes := tl (pl_sizes l)\<rparr>)"
    proof (rule that)
      let ?k = "case pl_sizes l of [] \<Rightarrow> 4096 | n # _ \<Rightarrow> max 1 (min n 4096)"
      show "0 < ?k" by (auto split: list.split)
      show "link_read l = (Got (take ?k (pl_out l)) None, l\<lparr>pl_out := drop ?k (pl_out l), pl_sizes := tl (pl_sizes l)\<rparr>)"
        using ne by (simp add: link_read_def Let_def)
    qed
    let ?l = "l\<lparr>pl_out := drop k (pl_out l), pl_sizes := tl (pl_sizes l)\<rparr>"
    have "read_until link_read t buf l = read_until link_read t (buf @ take k (pl_out l)) ?l"
      using None k ne by (subst read_until.simps) (simp add: Let_def)
    moreover have "length (pl_out ?l) < length (pl_out l)" using ne k(1) by simp
    from less.hyps[OF this, of "buf @ take k (pl_out l)"] have
      "\<exists>buf' l'. read_until link_read t (buf @ take k (pl_out l)) ?l = Some ((None, buf'), l')
        \<and> pl_line l' = pl_line ?l \<and> suffix b (buf' @ pl_out l')"
      using less.prems by simp
    ultimately show ?thesis by simp
  qed
qed

section \<open>The client gets through\<close>

definition plain_line :: "string \<Rightarrow> bool" where
  "plain_line line \<longleftrightarrow> line \<noteq> [] \<and> list_all (\<lambda>b. \<not> is_control b) line \<and> \<not> leaves line"

lemma link_write_line:
  assumes "pl_line l = Some []" "plain_line line"
  shows "link_write dev (line @ [NL]) l = l\<lparr>pl_line := Some [], pl_out := pl_out l @ shown_line dev line\<rparr>"
proof -
  have c: "list_all (\<lambda>b. \<not> is_control b) line" "\<not> leaves line" using assms(2) by (simp_all add: plain_line_def)
  have "concat (map (\<lambda>b. [b]) line) = line" by (induction line) auto
  then show ?thesis using assms(1) pty_line[OF c, of dev "[]"]
    by (simp add: link_write_def shown_line_def exec_blank)
qed

lemma prompt_not_Nil: "prompt_of dev \<noteq> []"
  by (simp add: prompt_of_def)

lemma pty_cmds_link:
  assumes "\<forall>cmd \<in> set cmds. plain_line cmd" "pl_line l = Some []"
  shows "\<exists>buf' l'. pty_cmds (link_api dev) (prompt_of dev) cmds buf l = Some ((None, buf'), l')
    \<and> pl_line l' = Some []"
  using assms
proof (induction cmds arbitrary: buf l)
  case (Cons cmd cmds)
  have cmd: "plain_line cmd" "cmd \<noteq> []" using Cons.prems(1) by (simp_all add: plain_line_def)
  let ?l = "link_write dev (cmd @ [NL]) l" and ?b = "[CR, NL] @ exec dev cmd @ prompt_of dev"
  have w: "pl_line ?l = Some []" "buf @ pl_out ?l = (buf @ pl_out l) @ cmd @ ?b"
    using link_write_line[OF Cons.prems(2) cmd(1)] by (simp_all add: shown_line_def)
  obtain buf1 l1 where 1: "read_until link_read cmd buf ?l = Some ((None, buf1), l1)"
    "pl_line l1 = Some []" "suffix ?b (buf1 @ pl_out l1)"
    using read_until_found[OF w(2) cmd(2)] w(1) by metis
  from 1(3) obtain x where "buf1 @ pl_out l1 = (x @ [CR, NL] @ exec dev cmd) @ prompt_of dev @ []"
    by (auto simp: suffix_def)
  from read_until_found[OF this prompt_not_Nil] obtain buf2 l2 where
    2: "read_until link_read (prompt_of dev) buf1 l1 = Some ((None, buf2), l2)" "pl_line l2 = Some []"
    using 1(2) by metis
  obtain buf' l' where 3: "pty_cmds (link_api dev) (prompt_of dev) cmds buf2 l2 = Some ((None, buf'), l')"
    "pl_line l' = Some []" using Cons.IH[OF _ 2(2)] Cons.prems(1) by fastforce
  have "pty_cmds (link_api dev) (prompt_of dev) (cmd # cmds) buf l = Some ((None, buf'), l')"
    using 1(1) 2(1) 3(1) by (simp add: link_api_def)
  then show ?case using 3(2) by blast
qed simp

lemma plain_prep: "\<forall>cmd \<in> set prep_cmds. plain_line cmd"
  by code_simp

lemma plain_show: "\<forall>cmd \<in> set (replicate n ''show version''). plain_line cmd"
proof -
  have "plain_line ''show version''" by code_simp
  then show ?thesis by simp
qed

lemma link_exit:
  assumes "pl_line l = Some []"
  shows "pl_line (link_write dev (''exit'' @ [NL]) l) = None"
proof -
  have "list_all (\<lambda>b. \<not> is_control b) ''exit''" "leaves ''exit''" by code_simp+
  then show ?thesis using assms pty_exit[of "''exit''" dev "[]"] by (simp add: link_write_def)
qed

lemma pty_exec_cmds_link:
  "\<exists>l. pty_exec_cmds (link_api dev) (prompt_of dev) n (link_start sizes) = Some (None, l) \<and> pl_line l = None"
proof -
  let ?api = "link_api dev"
  let ?l0 = "snd (link_shell dev (link_start sizes))"
  have opened: "pty_open ?api (link_start sizes) = (None, ?l0)"
    by (simp add: pty_open_def link_api_def link_shell_def)
  have l0: "pl_line ?l0 = Some []" "[] @ pl_out ?l0 = [] @ prompt_of dev @ []" by (simp_all add: link_shell_def)
  obtain buf1 l1 where 1: "read_until link_read (prompt_of dev) [] ?l0 = Some ((None, buf1), l1)"
    "pl_line l1 = Some []" using read_until_found[OF l0(2) prompt_not_Nil] l0(1) by metis
  obtain buf2 l2 where 2: "pty_cmds ?api (prompt_of dev) prep_cmds buf1 l1 = Some ((None, buf2), l2)"
    "pl_line l2 = Some []" using pty_cmds_link[OF plain_prep 1(2)] by blast
  obtain buf3 l3 where 3: "pty_cmds ?api (prompt_of dev) (replicate n ''show version'') buf2 l2 = Some ((None, buf3), l3)"
    "pl_line l3 = Some []" using pty_cmds_link[OF plain_show 2(2)] by blast
  have r: "pa_read ?api = link_read" "pa_write ?api = link_write dev" by (simp_all add: link_api_def)
  have "pty_exec_cmds ?api (prompt_of dev) n (link_start sizes) = Some (None, link_write dev (''exit'' @ [NL]) l3)"
    by (simp only: pty_exec_cmds_def opened r 1(1) 2(1) 3(1) option.case prod.case)
  then show ?thesis using link_exit[OF 3(2)] by blast
qed

end
