(* ===== verification/BenchSsh.thy ===== *)
theory BenchSsh
  imports BenchCore PtyClient
begin

text \<open>
  The SSH drivers of \<open>internal/bench\<close>: \<open>SSH\<close> in \<open>bench.go\<close> and \<open>Tunnel\<close> in \<open>tunnel.go\<close>. The SSH
  library and the network are a record of operations over a world; those that wait for the peer
  may never return, which is \<open>None\<close>. A connection of the library is a \<open>'c\<close>, its TCP connection a
  \<open>'t\<close>, a session an \<open>'s\<close>.
\<close>

record ('t, 'c, 's, 'w) ssh_lib =
  sl_tcp :: "string \<Rightarrow> 'w \<Rightarrow> 't result \<times> 'w"
  sl_tcp_close :: "'t \<Rightarrow> 'w \<Rightarrow> 'w"
  sl_counts :: "'t \<Rightarrow> 'w \<Rightarrow> conn"
  sl_client :: "string \<Rightarrow> string \<Rightarrow> string \<Rightarrow> 't \<Rightarrow> 'w \<Rightarrow> ('c result \<times> 'w) option"
  sl_close :: "'c \<Rightarrow> 'w \<Rightarrow> 'w"
  sl_session :: "'c \<Rightarrow> 'w \<Rightarrow> ('s result \<times> 'w) option"
  sl_sess_close :: "'s \<Rightarrow> 'w \<Rightarrow> 'w"
  sl_output :: "'s \<Rightarrow> string \<Rightarrow> 'w \<Rightarrow> (string result \<times> 'w) option"
  sl_pty :: "'s \<Rightarrow> 'w pty_api"

type_synonym 'w exec = "'w \<Rightarrow> (string option \<times> 'w) option"

section \<open>Dialling and executing\<close>

text \<open>\<open>rtcount.Wrap\<close> makes the counters of the TCP connection, which \<open>sl_counts\<close> reads.\<close>

definition ssh_dial_counted ::
  "('t, 'c, 's, 'w) ssh_lib \<Rightarrow> string \<Rightarrow> string \<Rightarrow> string \<Rightarrow> 'w \<Rightarrow> (('c \<times> 't) result \<times> 'w) option" where
  "ssh_dial_counted lib addr user pass w =
     (case sl_tcp lib addr w of
        (Inl e, w1) \<Rightarrow> Some (Inl e, w1)
      | (Inr tc, w1) \<Rightarrow> do {
          (r, w2) \<leftarrow> sl_client lib addr user pass tc w1;
          Some (case r of
             Inl e \<Rightarrow> (Inl e, sl_tcp_close lib tc w2)
           | Inr c \<Rightarrow> (Inr (c, tc), w2))
        })"

text \<open>One session with one exec request, the body of every exec loop.\<close>

definition one_exec :: "('t, 'c, 's, 'w) ssh_lib \<Rightarrow> string \<Rightarrow> 'c \<Rightarrow> 'w exec" where
  "one_exec lib cmd c w = do {
     (r, w1) \<leftarrow> sl_session lib c w;
     (case r of
        Inl e \<Rightarrow> Some (Some e, w1)
      | Inr s \<Rightarrow> do {
          (out, w2) \<leftarrow> sl_output lib s cmd w1;
          Some (case out of Inl e \<Rightarrow> Some e | Inr _ \<Rightarrow> None, sl_sess_close lib s w2)
        })
   }"

fun exec_shows :: "('t, 'c, 's, 'w) ssh_lib \<Rightarrow> nat \<Rightarrow> 'c \<Rightarrow> 'w exec" where
  "exec_shows lib 0 c w = Some (None, w)"
| "exec_shows lib (Suc n) c w = do {
     (err, w1) \<leftarrow> one_exec lib ''show version'' c w;
     (case err of Some e \<Rightarrow> Some (Some e, w1) | None \<Rightarrow> exec_shows lib n c w1)
   }"

definition pty_exec :: "('t, 'c, 's, 'w) ssh_lib \<Rightarrow> string \<Rightarrow> nat \<Rightarrow> 'c \<Rightarrow> 'w exec" where
  "pty_exec lib prompt n c w = do {
     (r, w1) \<leftarrow> sl_session lib c w;
     (case r of
        Inl e \<Rightarrow> Some (Some e, w1)
      | Inr s \<Rightarrow> do {
          (err, w2) \<leftarrow> pty_exec_cmds (sl_pty lib s) prompt n w1;
          Some (err, sl_sess_close lib s w2)
        })
   }"

section \<open>Modes\<close>

text \<open>\<open>conn.Close\<close> is deferred: it runs after the time has been taken.\<close>

definition fresh_iter ::
  "bench_config \<Rightarrow> 'w bench_env \<Rightarrow> ('t, 'c, 's, 'w) ssh_lib \<Rightarrow> string \<Rightarrow> ('c \<Rightarrow> 'w exec) \<Rightarrow> 'w iteration" where
  "fresh_iter cf env lib addr exec_fn idx st =
     (case st of (cnt, w) \<Rightarrow> do {
        let (snap, w1) = resource_snap cf env w;
        let (start, w2) = be_now env w1;
        (r, w3) \<leftarrow> ssh_dial_counted lib addr (cf_user cf) (cf_pass cf) w2;
        (case r of
           Inl e \<Rightarrow> Some (err_duration, cnt, w3)
         | Inr (c, cc) \<Rightarrow> do {
             (err, w4) \<leftarrow> exec_fn c w3;
             Some (case err of
                Some e \<Rightarrow> (err_duration, cnt, sl_close lib c w4)
              | None \<Rightarrow>
                  (case since_start env start
                          (resource_record cf env idx snap (record_conn idx (sl_counts lib cc w4) cnt, w4)) of
                     (d, cnt1, w5) \<Rightarrow> (d, cnt1, sl_close lib c w5)))
           })
      })"

definition ssh_fresh_bench ::
  "bench_config \<Rightarrow> 'w bench_env \<Rightarrow> ('t, 'c, 's, 'w) ssh_lib \<Rightarrow> string \<Rightarrow> ('c \<Rightarrow> 'w exec) \<Rightarrow>
     'w \<Rightarrow> ((int list \<times> iter_counts) \<times> 'w) option" where
  "ssh_fresh_bench cf env lib addr exec_fn = run_mode cf env (fresh_iter cf env lib addr exec_fn)"

text \<open>
  A mode on one connection: dial, warm up, iterate, close; no results when the dial fails. The
  warm-up's errors are dropped.
\<close>

definition ssh_reuse_bench ::
  "bench_config \<Rightarrow> 'w bench_env \<Rightarrow> ('t, 'c, 's, 'w) ssh_lib \<Rightarrow> ('c \<Rightarrow> 'w exec) \<Rightarrow> ('c \<Rightarrow> 'w exec) \<Rightarrow>
     'w \<Rightarrow> ((int list \<times> iter_counts) option \<times> 'w) option" where
  "ssh_reuse_bench cf env lib warm work w = do {
     (r, w1) \<leftarrow> ssh_dial_counted lib (cf_addr cf) (cf_user cf) (cf_pass cf) w;
     (case r of
        Inl e \<Rightarrow> Some (None, w1)
      | Inr (c, cc) \<Rightarrow> do {
          (_, w2) \<leftarrow> warm c w1;
          (tc, w3) \<leftarrow> run_mode cf env (shared_iter cf env (\<lambda>w. Some (sl_counts lib cc w)) (work c)) w2;
          Some (Some tc, sl_close lib c w3)
        })
   }"

section \<open>The drivers\<close>

definition ssh_modes_exec ::
  "bench_config \<Rightarrow> 'w bench_env \<Rightarrow> ('t, 'c, 's, 'w) ssh_lib \<Rightarrow> 'w \<Rightarrow> (bench_result list \<times> 'w) option" where
  "ssh_modes_exec cf env lib w = do {
     (fresh, w1) \<leftarrow> ssh_fresh_bench cf env lib (cf_addr cf) (exec_shows lib (cf_commands cf)) (pkt_reset cf env w);
     (reuse, w2) \<leftarrow> ssh_reuse_bench cf env lib (one_exec lib ''show version'')
        (exec_shows lib (cf_commands cf)) (pkt_reset cf env w1);
     (batch, w3) \<leftarrow> ssh_fresh_bench cf env lib (cf_addr cf)
        (one_exec lib (generate_exec_payload (cf_commands cf))) (pkt_reset cf env w2);
     Some ([summarize_mode cf env ''ssh'' ''fresh-conn'' fresh w3]
         @ (case reuse of None \<Rightarrow> [] | Some tc \<Rightarrow> [summarize_mode cf env ''ssh'' ''reuse-conn'' tc w3])
         @ [summarize_mode cf env ''ssh'' ''batch-exec'' batch w3], w3)
   }"

definition ssh_modes_pty ::
  "bench_config \<Rightarrow> 'w bench_env \<Rightarrow> ('t, 'c, 's, 'w) ssh_lib \<Rightarrow> 'w \<Rightarrow> (bench_result list \<times> 'w) option" where
  "ssh_modes_pty cf env lib w = do {
     let prompt = cf_hostname cf @ ''#'';
     (fresh, w1) \<leftarrow> ssh_fresh_bench cf env lib (cf_addr cf) (pty_exec lib prompt (cf_commands cf)) (pkt_reset cf env w);
     let first = summarize_mode cf env ''ssh'' ''pty-fresh'' fresh w1;
     (reuse, w2) \<leftarrow> ssh_reuse_bench cf env lib (pty_exec lib prompt 1)
        (pty_exec lib prompt (cf_commands cf)) (pkt_reset cf env w1);
     Some (first # (case reuse of None \<Rightarrow> [] | Some tc \<Rightarrow> [summarize_mode cf env ''ssh'' ''pty-reuse'' tc w2]), w2)
   }"

definition ssh_bench ::
  "bench_config \<Rightarrow> 'w bench_env \<Rightarrow> ('t, 'c, 's, 'w) ssh_lib \<Rightarrow> 'w \<Rightarrow> (bench_result list \<times> 'w) option" where
  "ssh_bench cf env lib w = do {
     (execs, w1) \<leftarrow> ssh_modes_exec cf env lib w;
     (ptys, w2) \<leftarrow> ssh_modes_pty cf env lib w1;
     Some (execs @ ptys, w2)
   }"

definition tunnel_modes ::
  "bench_config \<Rightarrow> 'w bench_env \<Rightarrow> ('t, 'c, 's, 'w) ssh_lib \<Rightarrow> string \<Rightarrow> string \<Rightarrow>
     'w \<Rightarrow> (bench_result list \<times> 'w) option" where
  "tunnel_modes cf env lib addr op w = do {
     (fresh, w1) \<leftarrow> ssh_fresh_bench cf env lib addr (exec_shows lib (cf_commands cf)) (pkt_reset cf env w);
     let first = summarize_mode cf env ''tunnel'' op fresh w1;
     (batch, w2) \<leftarrow> ssh_fresh_bench cf env lib addr
        (one_exec lib (generate_exec_payload (cf_commands cf))) (pkt_reset cf env w1);
     Some ([first, summarize_mode cf env ''tunnel'' (op @ ''-batch'') batch w2], w2)
   }"

text \<open>The addresses of the two front ends; an empty one is skipped.\<close>

definition tunnel_bench ::
  "bench_config \<Rightarrow> 'w bench_env \<Rightarrow> ('t, 'c, 's, 'w) ssh_lib \<Rightarrow> string \<Rightarrow> string \<Rightarrow>
     'w \<Rightarrow> (bench_result list \<times> 'w) option" where
  "tunnel_bench cf env lib https_addr h3_addr w = do {
     (one, w1) \<leftarrow> (if https_addr \<noteq> [] then tunnel_modes cf env lib https_addr ''ssh-https-ssh'' w else Some ([], w));
     (two, w2) \<leftarrow> (if h3_addr \<noteq> [] then tunnel_modes cf env lib h3_addr ''ssh-http3-ssh'' w1 else Some ([], w1));
     Some (one @ two, w2)
   }"

section \<open>No connection stays open\<close>

definition pty_keeps :: "('w \<Rightarrow> 'o) \<Rightarrow> 'w pty_api \<Rightarrow> bool" where
  "pty_keeps obs api \<longleftrightarrow> (\<forall>w s. obs (snd (pa_stdin api w)) = obs w \<and> obs (snd (pa_stdout api w)) = obs w
     \<and> obs (snd (pa_request_pty api w)) = obs w \<and> obs (snd (pa_shell api w)) = obs w
     \<and> obs (pa_write api s w) = obs w \<and> obs (snd (pa_read api w)) = obs w)"

lemma pty_keeps_eq:
  assumes "pty_keeps obs api"
  shows "pa_stdin api w = (e, w') \<Longrightarrow> obs w' = obs w" "pa_stdout api w = (e, w') \<Longrightarrow> obs w' = obs w"
    "pa_request_pty api w = (e, w') \<Longrightarrow> obs w' = obs w" "pa_shell api w = (e, w') \<Longrightarrow> obs w' = obs w"
    "pa_read api w = (ev, w') \<Longrightarrow> obs w' = obs w" "obs (pa_write api s w) = obs w"
  using assms unfolding pty_keeps_def by (metis snd_conv)+

lemma read_until_keeps:
  assumes "pty_keeps obs api" "read_until (pa_read api) target buf w = Some (r, w')"
  shows "obs w' = obs w"
proof -
  have "read_until rd target buf w = Some x \<Longrightarrow>
      (\<forall>w ev w'. rd w = (ev, w') \<longrightarrow> obs w' = obs w) \<longrightarrow> obs (snd x) = obs w" for rd x
    by (rule read_until.raw_induct[where P = "\<lambda>rd _ _ w x.
          (\<forall>w ev w'. rd w = (ev, w') \<longrightarrow> obs w' = obs w) \<longrightarrow> obs (snd x) = obs w"])
      (auto simp: Let_def split: option.splits prod.splits pty_event.splits)
  from this[OF assms(2)] show ?thesis using pty_keeps_eq(5)[OF assms(1)] by auto
qed

lemma pty_cmds_keeps:
  assumes k: "pty_keeps obs api"
  shows "pty_cmds api prompt cmds buf w = Some (r, w') \<Longrightarrow> obs w' = obs w"
proof (induction cmds arbitrary: buf w)
  case (Cons cmd cmds)
  note rd = read_until_keeps[OF k]
  from Cons.prems show ?case
    by (auto split: option.splits dest!: rd Cons.IH simp: pty_keeps_eq(6)[OF k])
qed simp

lemma pty_open_keeps:
  assumes k: "pty_keeps obs api"
  shows "pty_open api w = (e, w') \<Longrightarrow> obs w' = obs w"
  by (auto simp: pty_open_def split: prod.splits option.splits dest!: pty_keeps_eq(1-4)[OF k])

lemma pty_exec_cmds_keeps:
  assumes k: "pty_keeps obs api"
  shows "keeps obs (pty_exec_cmds api prompt n)"
proof (rule keepsI)
  fix w a w' assume r: "pty_exec_cmds api prompt n w = Some (a, w')"
  note rd = read_until_keeps[OF k]
  show "obs w' = obs w"
    using r by (auto simp: pty_exec_cmds_def pty_keeps_eq(6)[OF k] split: prod.splits option.splits
        dest!: rd pty_cmds_keeps[OF k] pty_open_keeps[OF k])
qed

text \<open>Sessions neither open nor close connections.\<close>

definition sessions_keep :: "('w \<Rightarrow> 'o) \<Rightarrow> ('t, 'c, 's, 'w) ssh_lib \<Rightarrow> bool" where
  "sessions_keep obs lib \<longleftrightarrow> (\<forall>c. keeps obs (sl_session lib c)) \<and> (\<forall>s cmd. keeps obs (sl_output lib s cmd))
     \<and> (\<forall>s w. obs (sl_sess_close lib s w) = obs w) \<and> (\<forall>s. pty_keeps obs (sl_pty lib s))"

lemma sessions_keep_eq:
  assumes "sessions_keep obs lib"
  shows "sl_session lib c w = Some (r, w') \<Longrightarrow> obs w' = obs w" "sl_output lib s cmd w = Some (out, w') \<Longrightarrow> obs w' = obs w"
    "obs (sl_sess_close lib s w) = obs w" "pty_keeps obs (sl_pty lib s)"
  using assms unfolding sessions_keep_def by (metis keepsD)+

lemma one_exec_keeps: "sessions_keep obs lib \<Longrightarrow> keeps obs (one_exec lib cmd c)"
proof (rule keepsI)
  fix w e w' assume k: "sessions_keep obs lib" and "one_exec lib cmd c w = Some (e, w')"
  then show "obs w' = obs w"
    by (auto simp: one_exec_def sessions_keep_eq(3)[OF k] split: sum.splits elim!: bind_SomeE
        dest!: sessions_keep_eq(1,2)[OF k])
qed

lemma exec_shows_keeps: "sessions_keep obs lib \<Longrightarrow> keeps obs (exec_shows lib n c)"
proof (rule keepsI)
  fix w e w' assume k: "sessions_keep obs lib"
  show "exec_shows lib n c w = Some (e, w') \<Longrightarrow> obs w' = obs w"
    by (induction n arbitrary: w)
      (auto split: option.splits elim!: bind_SomeE dest!: keepsD[OF one_exec_keeps[OF k]])
qed

lemma pty_exec_keeps: "sessions_keep obs lib \<Longrightarrow> keeps obs (pty_exec lib prompt n c)"
proof (rule keepsI)
  fix w e w' assume k: "sessions_keep obs lib" and "pty_exec lib prompt n c w = Some (e, w')"
  then show "obs w' = obs w"
    by (auto simp: pty_exec_def sessions_keep_eq(3)[OF k] split: sum.splits elim!: bind_SomeE
        dest!: sessions_keep_eq(1)[OF k] keepsD[OF pty_exec_cmds_keeps[OF sessions_keep_eq(4)[OF k]]])
qed

text \<open>A driver keeps what its modes keep.\<close>

lemma drivers_keep:
  assumes env: "env_keeps obs env"
    and fresh: "\<And>addr n. keeps obs (ssh_fresh_bench cf env lib addr (exec_shows lib n))"
      "\<And>addr cmd. keeps obs (ssh_fresh_bench cf env lib addr (one_exec lib cmd))"
  shows "(\<And>addr prompt n. keeps obs (ssh_fresh_bench cf env lib addr (pty_exec lib prompt n))) \<Longrightarrow>
      (\<And>cmd n. keeps obs (ssh_reuse_bench cf env lib (one_exec lib cmd) (exec_shows lib n))) \<Longrightarrow>
      (\<And>prompt m n. keeps obs (ssh_reuse_bench cf env lib (pty_exec lib prompt m) (pty_exec lib prompt n))) \<Longrightarrow>
      keeps obs (ssh_bench cf env lib)"
    and "keeps obs (tunnel_bench cf env lib https_addr h3_addr)"
proof -
  note k = env_frame(4)[OF env] keepsD[OF fresh(1)] keepsD[OF fresh(2)]
  have modes: "keeps obs (tunnel_modes cf env lib addr op)" for addr op
    by (rule keepsI) (auto simp: tunnel_modes_def Let_def k(1) elim!: bind_SomeE dest!: k(2-3))
  show "keeps obs (tunnel_bench cf env lib https_addr h3_addr)"
    by (rule keepsI) (auto simp: tunnel_bench_def split: if_splits elim!: bind_SomeE dest!: keepsD[OF modes])
  assume p: "\<And>addr prompt n. keeps obs (ssh_fresh_bench cf env lib addr (pty_exec lib prompt n))"
    and r: "\<And>cmd n. keeps obs (ssh_reuse_bench cf env lib (one_exec lib cmd) (exec_shows lib n))"
    and q: "\<And>prompt m n. keeps obs (ssh_reuse_bench cf env lib (pty_exec lib prompt m) (pty_exec lib prompt n))"
  note k' = keepsD[OF p] keepsD[OF r] keepsD[OF q]
  have e: "keeps obs (ssh_modes_exec cf env lib)"
    by (rule keepsI) (auto simp: ssh_modes_exec_def Let_def k(1) elim!: bind_SomeE dest!: k(2-3) k')
  have t: "keeps obs (ssh_modes_pty cf env lib)"
    by (rule keepsI) (auto simp: ssh_modes_pty_def Let_def k(1) elim!: bind_SomeE dest!: k(2-3) k')
  show "keeps obs (ssh_bench cf env lib)"
    by (rule keepsI) (auto simp: ssh_bench_def elim!: bind_SomeE dest!: keepsD[OF e] keepsD[OF t])
qed

text \<open>
  What the drivers rely on: a dial opens one new TCP connection, a failed one none; closing an SSH
  connection closes the TCP connection it runs on; nothing else opens or closes.
\<close>

locale counted_ssh =
  fixes lib :: "('t, 'c, 's, 'w) ssh_lib" and opened :: "'w \<Rightarrow> 't set" and via :: "'c \<Rightarrow> 't"
  assumes tcp_ok: "sl_tcp lib a w = (Inr t, w') \<Longrightarrow> t \<notin> opened w \<and> opened w' = insert t (opened w)"
    and tcp_err: "sl_tcp lib a w = (Inl e, w') \<Longrightarrow> opened w' = opened w"
    and tcp_closed: "opened (sl_tcp_close lib t w) = opened w - {t}"
    and client_ok: "sl_client lib a u p t w = Some (Inr c, w') \<Longrightarrow> via c = t \<and> opened w' = opened w"
    and client_err: "sl_client lib a u p t w = Some (Inl e, w') \<Longrightarrow> opened w' = opened w"
    and closed: "opened (sl_close lib c w) = opened w - {via c}"
    and sessions: "sessions_keep opened lib"
begin

lemma dial_err: "ssh_dial_counted lib a u p w = Some (Inl e, w') \<Longrightarrow> opened w' = opened w"
  by (auto simp: ssh_dial_counted_def tcp_closed split: prod.splits sum.splits elim!: bind_SomeE
      dest!: tcp_ok tcp_err client_err client_ok)

lemma dial_ok:
  "ssh_dial_counted lib a u p w = Some (Inr (c, cc), w') \<Longrightarrow>
     via c = cc \<and> cc \<notin> opened w \<and> opened w' = insert cc (opened w)"
  by (auto simp: ssh_dial_counted_def split: prod.splits sum.splits elim!: bind_SomeE
      dest!: tcp_ok client_ok)

lemmas execs_keep = one_exec_keeps[OF sessions] exec_shows_keeps[OF sessions] pty_exec_keeps[OF sessions]

lemma fresh_iter_keeps:
  assumes env: "env_keeps opened env" and exec: "\<And>c. keeps opened (exec_fn c)"
  shows "iter_keeps opened (fresh_iter cf env lib addr exec_fn)"
proof (rule iter_keepsI)
  fix idx cnt w d cnt' w' assume r: "fresh_iter cf env lib addr exec_fn idx (cnt, w) = Some (d, cnt', w')"
  obtain snap w1 where 1: "resource_snap cf env w = (snap, w1)" by (cases "resource_snap cf env w")
  obtain start w2 where 2: "be_now env w1 = (start, w2)" by (cases "be_now env w1")
  have w2: "opened w2 = opened w" using env_keeps_eq(1,2)[OF env] 1 2 by metis
  obtain res w3 where 3: "ssh_dial_counted lib addr (cf_user cf) (cf_pass cf) w2 = Some (res, w3)"
    using r 1 2 by (auto simp: fresh_iter_def bind_eq_Some_conv)
  show "opened w' = opened w"
  proof (cases res)
    case (Inl e)
    then show ?thesis using r 1 2 3 w2 dial_err by (auto simp: fresh_iter_def)
  next
    case (Inr ccc)
    obtain c cc where c: "ccc = (c, cc)" by (cases ccc)
    then obtain err w4 where 4: "exec_fn c w3 = Some (err, w4)"
      using r 1 2 3 Inr by (auto simp: fresh_iter_def bind_eq_Some_conv)
    have o: "via c = cc" "cc \<notin> opened w" "opened w4 = insert cc (opened w)"
      using dial_ok[of addr _ _ w2 c cc w3] 3 Inr c w2 keepsD[OF exec 4] by simp_all
    have "\<exists>w5. opened w5 = opened w4 \<and> w' = sl_close lib c w5"
      using r 1 2 3 4 Inr c
      by (auto simp: fresh_iter_def split: option.splits prod.splits dest!: finish_keeps[OF env])
    then show ?thesis using o closed by auto
  qed
qed

lemma fresh_bench_keeps:
  "env_keeps opened env \<Longrightarrow> (\<And>c. keeps opened (exec_fn c)) \<Longrightarrow> keeps opened (ssh_fresh_bench cf env lib addr exec_fn)"
  unfolding ssh_fresh_bench_def by (intro run_mode_keeps fresh_iter_keeps)

lemma reuse_bench_keeps:
  assumes env: "env_keeps opened env" and exec: "\<And>c. keeps opened (warm c)" "\<And>c. keeps opened (work c)"
  shows "keeps opened (ssh_reuse_bench cf env lib warm work)"
proof (rule keepsI)
  fix w tc w' assume "ssh_reuse_bench cf env lib warm work w = Some (tc, w')"
  then obtain r w1 where d: "ssh_dial_counted lib (cf_addr cf) (cf_user cf) (cf_pass cf) w = Some (r, w1)"
    and r: "(case r of Inl e \<Rightarrow> Some (None, w1) | Inr (c, cc) \<Rightarrow> do {
          (_, w2) \<leftarrow> warm c w1;
          (tc, w3) \<leftarrow> run_mode cf env (shared_iter cf env (\<lambda>w. Some (sl_counts lib cc w)) (work c)) w2;
          Some (Some tc, sl_close lib c w3)
        }) = Some (tc, w')"
    by (auto simp: ssh_reuse_bench_def elim!: bind_SomeE)
  show "opened w' = opened w"
  proof (cases r)
    case (Inl e)
    then show ?thesis using d r dial_err by simp
  next
    case (Inr ccc)
    obtain c cc where c: "ccc = (c, cc)" by (cases ccc)
    with r Inr obtain e w2 tc' w3 where s: "warm c w1 = Some (e, w2)" "w' = sl_close lib c w3"
      "run_mode cf env (shared_iter cf env (\<lambda>w. Some (sl_counts lib cc w)) (work c)) w2 = Some (tc', w3)"
      by (auto elim!: bind_SomeE)
    have "opened w3 = opened w1"
      using keepsD[OF exec(1) s(1)] keepsD[OF run_mode_keeps[OF shared_iter_keeps[OF env exec(2)]] s(3)] by simp
    moreover have "via c = cc" "cc \<notin> opened w" "opened w1 = insert cc (opened w)"
      using d Inr c dial_ok by auto
    ultimately show ?thesis using s(2) closed by auto
  qed
qed

lemma ssh_bench_keeps:
  assumes env: "env_keeps opened env"
  shows "keeps opened (ssh_bench cf env lib)"
  by (rule drivers_keep(1)[OF env]) (intro fresh_bench_keeps[OF env] reuse_bench_keeps[OF env] execs_keep)+

lemma tunnel_bench_keeps:
  assumes env: "env_keeps opened env"
  shows "keeps opened (tunnel_bench cf env lib https_addr h3_addr)"
  by (rule drivers_keep(2)[OF env]) (intro fresh_bench_keeps[OF env] execs_keep)+

end

section \<open>Every mode of a driver succeeds on a site that is up\<close>

text \<open>
  A site that is up: dials with the configured credentials succeed, an open connection gives
  sessions, a session answers a command and holds a terminal session.
\<close>

locale ssh_site = counted_ssh lib opened via
  for lib :: "('t, 'c, 's, 'w) ssh_lib" and opened :: "'w \<Rightarrow> 't set" and via :: "'c \<Rightarrow> 't" +
  fixes env :: "'w bench_env" and cf :: bench_config and addr :: string
    and clk :: "'w \<Rightarrow> int" and up :: "'w \<Rightarrow> bool" and session_up :: "'c \<Rightarrow> 's \<Rightarrow> 'w \<Rightarrow> bool"
  assumes env_keeps_opened: "env_keeps opened env" and env_clock: "env_up clk up env"
    and tcp_up: "up w \<Longrightarrow> \<exists>t w'. sl_tcp lib addr w = (Inr t, w') \<and> up w' \<and> clk w \<le> clk w'"
    and client_up: "up w \<Longrightarrow> t \<in> opened w \<Longrightarrow>
      \<exists>c w'. sl_client lib addr (cf_user cf) (cf_pass cf) t w = Some (Inr c, w') \<and> up w' \<and> clk w \<le> clk w'"
    and session_up: "up w \<Longrightarrow> via c \<in> opened w \<Longrightarrow>
      \<exists>s w'. sl_session lib c w = Some (Inr s, w') \<and> session_up c s w' \<and> up w' \<and> clk w \<le> clk w'"
    and output_up: "up w \<Longrightarrow> session_up c s w \<Longrightarrow>
      \<exists>out w'. sl_output lib s cmd w = Some (Inr out, w') \<and> up w' \<and> clk w \<le> clk w'"
    and pty_up: "up w \<Longrightarrow> session_up c s w \<Longrightarrow>
      \<exists>w'. pty_exec_cmds (sl_pty lib s) (cf_hostname cf @ ''#'') n w = Some (None, w') \<and> up w' \<and> clk w \<le> clk w'"
    and sess_close_up: "up w \<Longrightarrow> up (sl_sess_close lib s w) \<and> clk w \<le> clk (sl_sess_close lib s w)"
    and close_up: "up w \<Longrightarrow> up (sl_close lib c w) \<and> clk w \<le> clk (sl_close lib c w)"
begin

text \<open>The state while a connection is in use.\<close>

definition using_conn :: "'c \<Rightarrow> 'w \<Rightarrow> bool" where
  "using_conn c w \<longleftrightarrow> up w \<and> via c \<in> opened w"

lemma env_using: "env_up clk (using_conn c) env"
proof -
  have "opened (snd (be_now env w)) = opened w" "opened (snd (be_usage env w)) = opened w"
    "opened (be_pkt_reset env w) = opened w" for w
    using env_frame(1-3)[OF env_keeps_opened] by simp_all
  then show ?thesis using env_clock unfolding env_up_def using_conn_def by (metis snd_conv)
qed

lemma dial_up:
  assumes "up w"
  shows "\<exists>c cc w'. ssh_dial_counted lib addr (cf_user cf) (cf_pass cf) w = Some (Inr (c, cc), w')
    \<and> using_conn c w' \<and> clk w \<le> clk w'"
proof -
  obtain t w1 where 1: "sl_tcp lib addr w = (Inr t, w1)" "up w1" "clk w \<le> clk w1" using tcp_up[OF assms] by blast
  then have "t \<in> opened w1" using tcp_ok by blast
  then obtain c w2 where 2: "sl_client lib addr (cf_user cf) (cf_pass cf) t w1 = Some (Inr c, w2)" "up w2" "clk w1 \<le> clk w2"
    using client_up[OF 1(2)] by blast
  have "via c \<in> opened w2" using client_ok[OF 2(1)] \<open>t \<in> opened w1\<close> by simp
  then show ?thesis using 1 2 by (auto simp: ssh_dial_counted_def using_conn_def)
qed

lemma one_exec_up: "gets_done clk (using_conn c) (one_exec lib cmd c) (\<lambda>e. e = None)"
proof (rule gets_doneI)
  fix w assume u: "using_conn c w"
  obtain s w1 where 1: "sl_session lib c w = Some (Inr s, w1)" "session_up c s w1" "up w1" "clk w \<le> clk w1"
    using session_up u unfolding using_conn_def by blast
  obtain out w2 where 2: "sl_output lib s cmd w1 = Some (Inr out, w2)" "up w2" "clk w1 \<le> clk w2"
    using output_up[OF 1(3,2)] by blast
  have r: "one_exec lib cmd c w = Some (None, sl_sess_close lib s w2)" using 1 2 by (simp add: one_exec_def)
  have "opened (sl_sess_close lib s w2) = opened w" using keepsD[OF execs_keep(1) r] .
  then show "\<exists>a w'. one_exec lib cmd c w = Some (a, w') \<and> a = None \<and> using_conn c w' \<and> clk w \<le> clk w'"
    using r 1 2 sess_close_up[OF 2(2), of s] u by (auto simp: using_conn_def)
qed

lemma exec_shows_up: "gets_done clk (using_conn c) (exec_shows lib n c) (\<lambda>e. e = None)"
proof (rule gets_doneI)
  fix w show "using_conn c w \<Longrightarrow>
    \<exists>a w'. exec_shows lib n c w = Some (a, w') \<and> a = None \<and> using_conn c w' \<and> clk w \<le> clk w'"
  proof (induction n arbitrary: w)
    case (Suc n)
    obtain w1 where 1: "one_exec lib ''show version'' c w = Some (None, w1)" "using_conn c w1" "clk w \<le> clk w1"
      using gets_doneE[OF one_exec_up Suc.prems] by metis
    show ?case using Suc.IH[OF 1(2)] 1 by fastforce
  qed simp
qed

lemma pty_exec_up: "gets_done clk (using_conn c) (pty_exec lib (cf_hostname cf @ ''#'') n c) (\<lambda>e. e = None)"
proof (rule gets_doneI)
  fix w assume u: "using_conn c w"
  obtain s w1 where 1: "sl_session lib c w = Some (Inr s, w1)" "session_up c s w1" "up w1" "clk w \<le> clk w1"
    using session_up u unfolding using_conn_def by blast
  obtain w2 where 2: "pty_exec_cmds (sl_pty lib s) (cf_hostname cf @ ''#'') n w1 = Some (None, w2)" "up w2" "clk w1 \<le> clk w2"
    using pty_up[OF 1(3,2)] by blast
  have r: "pty_exec lib (cf_hostname cf @ ''#'') n c w = Some (None, sl_sess_close lib s w2)"
    using 1 2 by (simp add: pty_exec_def)
  have "opened (sl_sess_close lib s w2) = opened w" using keepsD[OF execs_keep(3) r] .
  then show "\<exists>a w'. pty_exec lib (cf_hostname cf @ ''#'') n c w = Some (a, w') \<and> a = None \<and> using_conn c w' \<and> clk w \<le> clk w'"
    using r 1 2 sess_close_up[OF 2(2), of s] u by (auto simp: using_conn_def)
qed

lemma fresh_iter_up:
  assumes exec: "\<And>c. gets_done clk (using_conn c) (exec_fn c) (\<lambda>e. e = None)"
  shows "iter_up clk up (fresh_iter cf env lib addr exec_fn)"
  unfolding iter_up_def
proof (intro allI impI)
  fix idx cnt w assume w: "up w"
  obtain snap w1 where 1: "resource_snap cf env w = (snap, w1)" by (cases "resource_snap cf env w")
  obtain start w2 where 2: "be_now env w1 = (start, w2)" by (cases "be_now env w1")
  note w1 = env_up_eq(2)[OF env_clock w 1]
  note w2 = env_up_eq(1)[OF env_clock conjunct1[OF w1] 2]
  obtain c cc w3 where 3: "ssh_dial_counted lib addr (cf_user cf) (cf_pass cf) w2 = Some (Inr (c, cc), w3)"
    "using_conn c w3" "clk w2 \<le> clk w3" using dial_up w2 by blast
  obtain e w4 where 4: "exec_fn c w3 = Some (e, w4)" "e = None" "using_conn c w4" "clk w3 \<le> clk w4"
    by (rule gets_doneE[OF exec 3(2)])
  obtain d cnt' w5 where 5: "since_start env start
      (resource_record cf env idx snap (record_conn idx (sl_counts lib cc w4) cnt, w4)) = (d, cnt', w5)"
    "0 \<le> d" "using_conn c w5" "clk w4 \<le> clk w5"
    using finish_up[OF env_using 4(3), of start cf idx snap "record_conn idx (sl_counts lib cc w4) cnt"] w2 3(3) 4(4) by auto
  have "fresh_iter cf env lib addr exec_fn idx (cnt, w) = Some (d, cnt', sl_close lib c w5)"
    using 1 2 3 4 5 by (simp add: fresh_iter_def)
  then show "\<exists>d cnt' w'. fresh_iter cf env lib addr exec_fn idx (cnt, w) = Some (d, cnt', w')
      \<and> 0 \<le> d \<and> up w' \<and> clk w \<le> clk w'"
    using close_up[of w5 c] w1 w2 3(3) 4(4) 5 by (fastforce simp: using_conn_def)
qed

lemma fresh_bench_up:
  "(\<And>c. gets_done clk (using_conn c) (exec_fn c) (\<lambda>e. e = None)) \<Longrightarrow> 0 < cf_concurrency cf \<Longrightarrow>
     gets_done clk up (ssh_fresh_bench cf env lib addr exec_fn) (\<lambda>tc. err_duration \<notin> set (fst tc))"
  unfolding ssh_fresh_bench_def by (intro run_mode_up fresh_iter_up)

lemma reuse_bench_up:
  assumes warm: "\<And>c. gets_done clk (using_conn c) (warm c) (\<lambda>e. e = None)"
    and work: "\<And>c. gets_done clk (using_conn c) (work c) (\<lambda>e. e = None)" and a: "cf_addr cf = addr" and n: "0 < cf_concurrency cf"
  shows "gets_done clk up (ssh_reuse_bench cf env lib warm work)
    (\<lambda>r. \<exists>tc. r = Some tc \<and> err_duration \<notin> set (fst tc))"
proof (rule gets_doneI)
  fix w assume w: "up w"
  obtain c cc w1 where 1: "ssh_dial_counted lib addr (cf_user cf) (cf_pass cf) w = Some (Inr (c, cc), w1)"
    "using_conn c w1" "clk w \<le> clk w1" using dial_up[OF w] by blast
  obtain e w2 where 2: "warm c w1 = Some (e, w2)" "e = None" "using_conn c w2" "clk w1 \<le> clk w2"
    by (rule gets_doneE[OF warm 1(2)])
  obtain tc w3 where 3: "run_mode cf env (shared_iter cf env (\<lambda>w. Some (sl_counts lib cc w)) (work c)) w2 = Some (tc, w3)"
    "err_duration \<notin> set (fst tc)" "using_conn c w3" "clk w2 \<le> clk w3"
    by (rule gets_doneE[OF run_mode_up[OF shared_iter_up[OF env_using work] n] 2(3)])
  have "ssh_reuse_bench cf env lib warm work w = Some (Some tc, sl_close lib c w3)"
    using 1 2 3 a by (simp add: ssh_reuse_bench_def)
  then show "\<exists>r w'. ssh_reuse_bench cf env lib warm work w = Some (r, w')
      \<and> (\<exists>tc. r = Some tc \<and> err_duration \<notin> set (fst tc)) \<and> up w' \<and> clk w \<le> clk w'"
    using close_up[of w3 c] 1 2 3 by (fastforce simp: using_conn_def)
qed

lemma pkt_reset_up: "up w \<Longrightarrow> up (pkt_reset cf env w)"
  using env_up_eq(4)[OF env_clock] by blast

lemma ssh_exec_modes_up:
  assumes w: "up w" and a: "cf_addr cf = addr" and n: "0 < cf_concurrency cf"
  shows "\<exists>rs w'. ssh_modes_exec cf env lib w = Some (rs, w') \<and> up w' \<and> list_all (clean_row ''ssh'') rs
    \<and> map r_operation rs = [''fresh-conn'', ''reuse-conn'', ''batch-exec'']"
proof -
  obtain tc1 w1 where 1: "ssh_fresh_bench cf env lib addr (exec_shows lib (cf_commands cf)) (pkt_reset cf env w) = Some (tc1, w1)"
    "err_duration \<notin> set (fst tc1)" "up w1"
    by (rule gets_doneE[OF fresh_bench_up[OF exec_shows_up n] pkt_reset_up[OF w]])
  obtain r w2 where 2: "ssh_reuse_bench cf env lib (one_exec lib ''show version'')
      (exec_shows lib (cf_commands cf)) (pkt_reset cf env w1) = Some (r, w2)"
    "\<exists>tc. r = Some tc \<and> err_duration \<notin> set (fst tc)" "up w2"
    by (rule gets_doneE[OF reuse_bench_up[OF one_exec_up exec_shows_up a n] pkt_reset_up[OF 1(3)]])
  obtain tc3 w3 where 3: "ssh_fresh_bench cf env lib addr
      (one_exec lib (generate_exec_payload (cf_commands cf))) (pkt_reset cf env w2) = Some (tc3, w3)"
    "err_duration \<notin> set (fst tc3)" "up w3"
    by (rule gets_doneE[OF fresh_bench_up[OF one_exec_up n] pkt_reset_up[OF 2(3)]])
  from 2(2) obtain tc2 where tc2: "r = Some tc2" "err_duration \<notin> set (fst tc2)" by blast
  show ?thesis using 1 2(1) 3 tc2 a
    by (simp add: ssh_modes_exec_def summarize_mode_row(2) clean_summary)
qed

lemma ssh_pty_modes_up:
  assumes w: "up w" and a: "cf_addr cf = addr" and n: "0 < cf_concurrency cf"
  shows "\<exists>rs w'. ssh_modes_pty cf env lib w = Some (rs, w') \<and> up w' \<and> list_all (clean_row ''ssh'') rs
    \<and> map r_operation rs = [''pty-fresh'', ''pty-reuse'']"
proof -
  let ?prompt = "cf_hostname cf @ ''#''"
  obtain tc1 w1 where 1: "ssh_fresh_bench cf env lib addr (pty_exec lib ?prompt (cf_commands cf)) (pkt_reset cf env w) = Some (tc1, w1)"
    "err_duration \<notin> set (fst tc1)" "up w1"
    by (rule gets_doneE[OF fresh_bench_up[OF pty_exec_up n] pkt_reset_up[OF w]])
  obtain r w2 where 2: "ssh_reuse_bench cf env lib (pty_exec lib ?prompt 1)
      (pty_exec lib ?prompt (cf_commands cf)) (pkt_reset cf env w1) = Some (r, w2)"
    "\<exists>tc. r = Some tc \<and> err_duration \<notin> set (fst tc)" "up w2"
    by (rule gets_doneE[OF reuse_bench_up[OF pty_exec_up pty_exec_up a n] pkt_reset_up[OF 1(3)]])
  from 2(2) obtain tc2 where tc2: "r = Some tc2" "err_duration \<notin> set (fst tc2)" by blast
  show ?thesis using 1 2(1,3) tc2 a
    by (simp add: ssh_modes_pty_def Let_def summarize_mode_row(2) clean_summary)
qed

lemma ssh_bench_up:
  assumes w: "up w" and a: "cf_addr cf = addr" and n: "0 < cf_concurrency cf"
  shows "\<exists>rs w'. ssh_bench cf env lib w = Some (rs, w') \<and> up w' \<and> opened w' = opened w
    \<and> list_all (clean_row ''ssh'') rs
    \<and> map r_operation rs = [''fresh-conn'', ''reuse-conn'', ''batch-exec'', ''pty-fresh'', ''pty-reuse'']"
proof -
  obtain rs1 w1 where 1: "ssh_modes_exec cf env lib w = Some (rs1, w1)" "up w1" "list_all (clean_row ''ssh'') rs1"
    "map r_operation rs1 = [''fresh-conn'', ''reuse-conn'', ''batch-exec'']"
    using ssh_exec_modes_up[OF assms] by (elim exE conjE) (rule that)
  obtain rs2 w2 where 2: "ssh_modes_pty cf env lib w1 = Some (rs2, w2)" "up w2" "list_all (clean_row ''ssh'') rs2"
    "map r_operation rs2 = [''pty-fresh'', ''pty-reuse'']"
    using ssh_pty_modes_up[OF 1(2) a n] by (elim exE conjE) (rule that)
  have r: "ssh_bench cf env lib w = Some (rs1 @ rs2, w2)" using 1(1) 2(1) by (simp add: ssh_bench_def)
  show ?thesis using r keepsD[OF ssh_bench_keeps[OF env_keeps_opened] r] 1(3,4) 2(2-4) by simp
qed

end

text \<open>
  The packets of a mode are snapshotted when its row is made. The rows of the first three modes
  are all made after the third, so all carry the packets of the third.
\<close>

lemma ssh_exec_packets:
  assumes "ssh_modes_exec cf env lib w = Some (rs, w')" "cf_pkt_counter cf"
  shows "\<forall>r \<in> set rs. r_packets_in r = int (fst (be_pkt_snapshot env w')) \<and> r_packets_out r = int (snd (be_pkt_snapshot env w'))"
  using assms by (auto simp: ssh_modes_exec_def summarize_mode_packets elim!: bind_SomeE split: option.splits)

end
