(* ===== verification/Site.thy ===== *)
theory Site
  imports BenchSsh Loopback
begin

text \<open>
  A site to benchmark: the SSH server of the model behind a network with a schedule of faults, a
  clock that advances on every reading and a packet counter. It interprets what the SSH drivers
  rely on: a handshake goes through the server's password callback, an exec request through its
  session handler, a terminal through its terminal session.

  Connections are numbered. Requests count as a write and a read; the bytes of a terminal session
  are not counted.
\<close>

record site =
  si_dev :: device
  si_open :: "nat set"
  si_next :: nat
  si_counts :: "nat \<Rightarrow> conn"
  si_clock :: int
  si_tick :: nat
  si_faults :: "bool list"
  si_link :: pty_link
  si_pkts :: "nat \<times> nat"
  si_sent :: string
  si_got :: nat

definition site_start :: "device \<Rightarrow> nat \<Rightarrow> bool list \<Rightarrow> site" where
  "site_start dev tick faults = \<lparr>si_dev = dev, si_open = {}, si_next = 0, si_counts = (\<lambda>_. wrap_conn),
     si_clock = 0, si_tick = tick, si_faults = faults, si_link = link_start [], si_pkts = (0, 0),
     si_sent = [], si_got = 0\<rparr>"

section \<open>The environment\<close>

definition site_env :: "(int \<Rightarrow> nat \<Rightarrow> nat list) \<Rightarrow> site bench_env" where
  "site_env ord = \<lparr>be_now = (\<lambda>w. (si_clock w + int (si_tick w), w\<lparr>si_clock := si_clock w + int (si_tick w)\<rparr>)),
     be_usage = (\<lambda>w. ((Inl ''not available'', 0, 0, 0), w)),
     be_pkt_reset = (\<lambda>w. w\<lparr>si_pkts := (0, 0)\<rparr>), be_pkt_snapshot = si_pkts,
     be_sleep = (\<lambda>d w. w\<lparr>si_clock := si_clock w + max 0 d\<rparr>), be_order = ord\<rparr>"

section \<open>The network and the SSH library\<close>

definition site_fault :: "site \<Rightarrow> bool \<times> site" where
  "site_fault w = (case si_faults w of [] \<Rightarrow> (False, w) | f # fs \<Rightarrow> (f, w\<lparr>si_faults := fs\<rparr>))"

text \<open>A request and its answer on a connection.\<close>

definition site_trip :: "nat \<Rightarrow> site \<Rightarrow> site" where
  "site_trip t w = w\<lparr>si_counts := (si_counts w)(t := fold conn_io [Wr, Rd] (si_counts w t)),
     si_pkts := (fst (si_pkts w) + 1, snd (si_pkts w) + 1)\<rparr>"

definition site_tcp :: "string \<Rightarrow> site \<Rightarrow> nat result \<times> site" where
  "site_tcp addr w =
     (case site_fault w of
        (True, w') \<Rightarrow> (Inl ''connection refused'', w')
      | (False, w') \<Rightarrow> (Inr (si_next w'), w'\<lparr>si_next := Suc (si_next w'), si_open := insert (si_next w') (si_open w'),
            si_counts := (si_counts w')(si_next w' := wrap_conn)\<rparr>))"

definition site_close :: "nat \<Rightarrow> site \<Rightarrow> site" where
  "site_close t w = w\<lparr>si_open := si_open w - {t}\<rparr>"

definition site_client :: "string \<Rightarrow> string \<Rightarrow> string \<Rightarrow> nat \<Rightarrow> site \<Rightarrow> (nat result \<times> site) option" where
  "site_client addr user pass t w =
     (case site_fault w of
        (True, w') \<Rightarrow> Some (Inl ''EOF'', w')
      | (False, w') \<Rightarrow>
          (case password_callback (username (si_dev w')) (password (si_dev w')) user pass of
             Some e \<Rightarrow> Some (Inl e, site_trip t w')
           | None \<Rightarrow> Some (Inr t, site_trip t w')))"

definition site_session :: "nat \<Rightarrow> site \<Rightarrow> (nat result \<times> site) option" where
  "site_session c w =
     (case site_fault w of
        (True, w') \<Rightarrow> Some (Inl ''EOF'', w')
      | (False, w') \<Rightarrow>
          (if c \<in> si_open w' then Some (Inr c, (site_trip c w')\<lparr>si_link := link_start [], si_sent := [], si_got := 0\<rparr>)
           else Some (Inl ''EOF'', w')))"

definition site_output :: "nat \<Rightarrow> string \<Rightarrow> site \<Rightarrow> (string result \<times> site) option" where
  "site_output c cmd w =
     (case site_fault w of
        (True, w') \<Rightarrow> Some (Inl ''EOF'', w')
      | (False, w') \<Rightarrow>
          Some (if c \<in> si_open w' then client_output (handle_session (si_dev w') [exec_request cmd] []) else Inl ''EOF'',
            site_trip c w'))"

text \<open>An operation on the link of the session, as one on the site.\<close>

definition on_link :: "(pty_link \<Rightarrow> 'a \<times> pty_link) \<Rightarrow> site \<Rightarrow> 'a \<times> site" where
  "on_link f w = (case f (si_link w) of (r, l) \<Rightarrow> (r, w\<lparr>si_link := l\<rparr>))"

definition site_pty :: "device \<Rightarrow> site pty_api" where
  "site_pty dev = \<lparr>pa_stdin = Pair None, pa_stdout = Pair None, pa_request_pty = Pair None,
     pa_shell = on_link (link_shell dev), pa_write = (\<lambda>s w. w\<lparr>si_link := link_write dev s (si_link w)\<rparr>),
     pa_read = on_link link_read\<rparr>"

definition site_lib :: "device \<Rightarrow> (nat, nat, nat, site) ssh_lib" where
  "site_lib dev = \<lparr>sl_tcp = site_tcp, sl_tcp_close = site_close, sl_counts = (\<lambda>t w. si_counts w t),
     sl_client = site_client, sl_close = site_close, sl_session = site_session,
     sl_sess_close = (\<lambda>s w. w), sl_output = site_output, sl_pty = (\<lambda>s. site_pty dev)\<rparr>"

section \<open>The laws of the connections\<close>

text \<open>New connections get the next number; only numbers that have been given count as open.\<close>

definition site_opened :: "site \<Rightarrow> nat set" where
  "site_opened w = si_open w \<inter> {..<si_next w}"

lemma site_fault_frame [frame]:
  "si_open (snd (site_fault w)) = si_open w" "si_next (snd (site_fault w)) = si_next w"
  "si_dev (snd (site_fault w)) = si_dev w" "si_clock (snd (site_fault w)) = si_clock w"
  by (simp_all add: site_fault_def split: list.split)

lemma site_trip_frame [frame, simp]:
  "si_open (site_trip t w) = si_open w" "si_next (site_trip t w) = si_next w" "si_dev (site_trip t w) = si_dev w"
  "si_clock (site_trip t w) = si_clock w" "si_faults (site_trip t w) = si_faults w"
  "si_tick (site_trip t w) = si_tick w"
  by (simp_all add: site_trip_def)

lemma site_fault_eq: "site_fault w = (b, w') \<Longrightarrow> si_open w' = si_open w \<and> si_next w' = si_next w"
  using site_fault_frame(1,2)[of w] by simp

lemma on_link_frame [frame]: "site_opened (snd (on_link f w)) = site_opened w"
  by (simp add: on_link_def site_opened_def split: prod.split)

text \<open>What the set depends on.\<close>

definition site_table :: "site \<Rightarrow> nat set \<times> nat" where
  "site_table w = (si_open w, si_next w)"

lemma site_table_opened: "site_table w' = site_table w \<Longrightarrow> site_opened w' = site_opened w"
  by (simp add: site_table_def site_opened_def)

lemma site_fault_table: "site_fault w = (b, w') \<Longrightarrow> site_table w' = site_table w"
  using site_fault_eq[of w b w'] by (simp add: site_table_def)

lemma site_table_frame [frame, simp]:
  "site_table (site_trip t w) = site_table w" "site_table (w\<lparr>si_link := l\<rparr>) = site_table w"
  "site_table (w\<lparr>si_link := l, si_sent := sent, si_got := n\<rparr>) = site_table w"
  by (simp_all add: site_table_def)

lemma site_op_table:
  "site_session c w = Some (s, w') \<Longrightarrow> site_table w' = site_table w"
  "site_output c cmd w = Some (out, w') \<Longrightarrow> site_table w' = site_table w"
  "site_client a u p t w = Some (r, w') \<Longrightarrow> site_table w' = site_table w"
proof -
  obtain b w1 where f: "site_fault w = (b, w1)" by (cases "site_fault w")
  note t = site_fault_table[OF f]
  show "site_session c w = Some (s, w') \<Longrightarrow> site_table w' = site_table w"
    using f t by (cases b) (auto simp: site_session_def split: if_splits)
  show "site_output c cmd w = Some (out, w') \<Longrightarrow> site_table w' = site_table w"
    using f t by (cases b) (auto simp: site_output_def)
  show "site_client a u p t w = Some (r, w') \<Longrightarrow> site_table w' = site_table w"
    using f t by (cases b) (auto simp: site_client_def split: option.splits)
qed

lemma site_sessions: "sessions_keep site_opened (site_lib dev)"
proof -
  have "pty_keeps site_opened (site_pty dev)"
    unfolding pty_keeps_def by (simp add: site_pty_def on_link_frame) (simp add: site_opened_def)
  moreover have "keeps site_opened (site_session c)" for c
    by (rule keepsI, rule site_table_opened, rule site_op_table(1))
  moreover have "keeps site_opened (site_output c cmd)" for c cmd
    by (rule keepsI, rule site_table_opened, rule site_op_table(2))
  ultimately show ?thesis by (simp add: sessions_keep_def site_lib_def)
qed

lemma site_tcp_opened:
  "site_tcp a w = (Inr t, w') \<Longrightarrow> t \<notin> site_opened w \<and> site_opened w' = insert t (site_opened w)"
  "site_tcp a w = (Inl e, w') \<Longrightarrow> site_opened w' = site_opened w"
proof -
  obtain b w1 where f: "site_fault w = (b, w1)" by (cases "site_fault w")
  note t = site_fault_eq[OF f]
  have i: "insert n A \<inter> {..<Suc n} = insert n (A \<inter> {..<n})" for n :: nat and A by auto
  show "t \<notin> site_opened w \<and> site_opened w' = insert t (site_opened w)" if "site_tcp a w = (Inr t, w')"
  proof -
    have "\<not> b" using that f by (cases b) (simp_all add: site_tcp_def)
    then have "t = si_next w1" "si_open w' = insert (si_next w1) (si_open w1)" "si_next w' = Suc (si_next w1)"
      using that f by (auto simp: site_tcp_def)
    then show ?thesis using t by (simp add: site_opened_def i del: Int_insert_left lessThan_Suc)
  qed
  show "site_opened w' = site_opened w" if "site_tcp a w = (Inl e, w')"
    using that f t by (cases b) (simp_all add: site_tcp_def site_opened_def)
qed

lemma site_client_same: "site_client a u p t w = Some (Inr c, w') \<Longrightarrow> c = t"
  by (cases "site_fault w"; cases "fst (site_fault w)") (auto simp: site_client_def split: option.splits)

interpretation site_conns: counted_ssh "site_lib dev" site_opened id for dev
proof
  show "sl_tcp (site_lib dev) a w = (Inr t, w') \<Longrightarrow> t \<notin> site_opened w \<and> site_opened w' = insert t (site_opened w)" for a w t w'
    using site_tcp_opened(1) by (simp add: site_lib_def)
  show "sl_tcp (site_lib dev) a w = (Inl e, w') \<Longrightarrow> site_opened w' = site_opened w" for a w e w'
    using site_tcp_opened(2) by (simp add: site_lib_def)
  show "sl_client (site_lib dev) a u p t w = Some (Inr c, w') \<Longrightarrow> id c = t \<and> site_opened w' = site_opened w" for a u p t w c w'
    using site_table_opened[OF site_op_table(3)[of a u p t w "Inr c" w']] site_client_same
    by (simp add: site_lib_def)
  show "sl_client (site_lib dev) a u p t w = Some (Inl e, w') \<Longrightarrow> site_opened w' = site_opened w" for a u p t w e w'
    using site_table_opened[OF site_op_table(3)[of a u p t w "Inl e" w']] by (simp add: site_lib_def)
  show "sessions_keep site_opened (site_lib dev)" by (rule site_sessions)
qed (auto simp: site_lib_def site_close_def site_opened_def)

section \<open>A site that is up\<close>

definition site_up :: "device \<Rightarrow> site \<Rightarrow> bool" where
  "site_up dev w \<longleftrightarrow> si_faults w = [] \<and> si_dev w = dev"

lemma site_fault_up: "si_faults w = [] \<Longrightarrow> site_fault w = (False, w)"
  by (simp add: site_fault_def)

text \<open>A terminal session on the link runs on the site as it does on the link alone.\<close>

lemma on_link_pair: "on_link f w = (r, w') \<longleftrightarrow> (\<exists>l. f (si_link w) = (r, l) \<and> w' = w\<lparr>si_link := l\<rparr>)"
  by (auto simp: on_link_def split: prod.split)

lemma read_until_on_link:
  "read_until link_read t buf l = Some (r, l') \<Longrightarrow> si_link (w :: site) = l \<Longrightarrow>
     read_until (on_link link_read) t buf w = Some (r, w\<lparr>si_link := l'\<rparr>)"
proof -
  have "read_until rd t buf l = Some x \<Longrightarrow>
      (\<forall>w. si_link w = l \<longrightarrow> read_until (on_link rd) t buf w = Some (fst x, w\<lparr>si_link := snd x\<rparr>))" for rd x
  proof (rule read_until.raw_induct[where P = "\<lambda>rd t buf l x.
      (\<forall>w. si_link w = l \<longrightarrow> read_until (on_link rd) t buf w = Some (fst x, w\<lparr>si_link := snd x\<rparr>))"])
    fix ru and rd :: "pty_link \<Rightarrow> pty_event \<times> pty_link" and t buf l x
    assume ih: "\<And>rd t buf l x. ru rd t buf l = Some x \<Longrightarrow>
        \<forall>w. si_link w = l \<longrightarrow> read_until (on_link rd) t buf w = Some (fst x, w\<lparr>si_link := snd x\<rparr>)"
      and r: "(case index_of buf t of None \<Rightarrow>
          (case rd l of (Got b err, w1) \<Rightarrow>
             let buf1 = if 0 < length b then buf @ b else buf
             in case err of None \<Rightarrow> ru rd t buf1 w1 | Some e \<Rightarrow> Some ((Some e, buf1), w1)
           | (Expired, w1) \<Rightarrow> Some ((Some ''timeout waiting'', buf), w1))
        | Some idx \<Rightarrow> Some ((None, drop (idx + length t) buf), l)) = Some x"
    show "\<forall>w. si_link w = l \<longrightarrow> read_until (on_link rd) t buf w = Some (fst x, w\<lparr>si_link := snd x\<rparr>)"
    proof (intro allI impI)
      fix w :: site assume w: "si_link w = l"
      show "read_until (on_link rd) t buf w = Some (fst x, w\<lparr>si_link := snd x\<rparr>)"
        using r w by (subst read_until.simps)
          (auto simp: on_link_def Let_def split: option.splits prod.splits pty_event.splits dest!: ih)
    qed
  qed
  from this[of link_read "(r, l')"] show "read_until link_read t buf l = Some (r, l') \<Longrightarrow> si_link w = l \<Longrightarrow>
     read_until (on_link link_read) t buf w = Some (r, w\<lparr>si_link := l'\<rparr>)" by simp
qed

lemma site_pty_sel [simp]:
  "pa_read (site_pty dev) = on_link link_read"
  "pa_write (site_pty dev) = (\<lambda>s w. w\<lparr>si_link := link_write dev s (si_link w)\<rparr>)"
  "pa_read (link_api dev) = link_read" "pa_write (link_api dev) = link_write dev"
  by (simp_all add: site_pty_def link_api_def)

lemma pty_cmds_on_link:
  "pty_cmds (link_api dev) prompt cmds buf (si_link w) = Some (r, l') \<Longrightarrow>
     pty_cmds (site_pty dev) prompt cmds buf w = Some (r, w\<lparr>si_link := l'\<rparr>)"
proof (induction cmds arbitrary: buf w)
  case (Cons cmd cmds)
  let ?w = "w\<lparr>si_link := link_write dev (cmd @ [NL]) (si_link w)\<rparr>"
  obtain e1 buf1 l1 where 1: "read_until link_read cmd buf (si_link ?w) = Some ((e1, buf1), l1)"
    using Cons.prems by (auto split: option.splits)
  note s1 = read_until_on_link[OF 1 refl]
  show ?case
  proof (cases e1)
    case None
    obtain e2 buf2 l2 where 2: "read_until link_read prompt buf1 (si_link (?w\<lparr>si_link := l1\<rparr>)) = Some ((e2, buf2), l2)"
      using Cons.prems 1 None by (auto split: option.splits)
    note s2 = read_until_on_link[OF 2 refl]
    show ?thesis
    proof (cases e2)
      case None
      have "pty_cmds (link_api dev) prompt cmds buf2 (si_link (?w\<lparr>si_link := l2\<rparr>)) = Some (r, l')"
        using Cons.prems 1 2 None \<open>e1 = None\<close> by simp
      from Cons.IH[OF this] show ?thesis using s1 s2 None \<open>e1 = None\<close> by simp
    qed (use Cons.prems 1 2 s1 s2 \<open>e1 = None\<close> in auto)
  qed (use Cons.prems 1 s1 in auto)
qed simp

lemma pty_exec_cmds_site:
  assumes "si_link w = link_start sizes"
  shows "\<exists>l. pty_exec_cmds (site_pty dev) (prompt_of dev) n w = Some (None, w\<lparr>si_link := l\<rparr>)"
proof -
  obtain l where l: "pty_exec_cmds (link_api dev) (prompt_of dev) n (link_start sizes) = Some (None, l)"
    using pty_exec_cmds_link by blast
  let ?l0 = "snd (link_shell dev (link_start sizes))" and ?w0 = "w\<lparr>si_link := snd (link_shell dev (link_start sizes))\<rparr>"
  have opened: "pty_open (link_api dev) (link_start sizes) = (None, ?l0)" "pty_open (site_pty dev) w = (None, ?w0)"
    using assms by (simp_all add: pty_open_def link_api_def site_pty_def link_shell_def on_link_def)
  obtain buf1 l1 where 1: "read_until link_read (prompt_of dev) [] (si_link ?w0) = Some ((None, buf1), l1)"
    using l opened(1) by (auto simp: pty_exec_cmds_def split: option.splits)
  let ?w1 = "?w0\<lparr>si_link := l1\<rparr>"
  obtain buf2 l2 where 2: "pty_cmds (link_api dev) (prompt_of dev) prep_cmds buf1 (si_link ?w1) = Some ((None, buf2), l2)"
    using l opened(1) 1 by (auto simp: pty_exec_cmds_def split: option.splits)
  let ?w2 = "?w1\<lparr>si_link := l2\<rparr>"
  obtain buf3 l3 where 3: "pty_cmds (link_api dev) (prompt_of dev) (replicate n ''show version'') buf2 (si_link ?w2) = Some ((None, buf3), l3)"
    using l opened(1) 1 2 by (auto simp: pty_exec_cmds_def split: option.splits)
  show ?thesis
    using read_until_on_link[OF 1 refl] pty_cmds_on_link[OF 2] pty_cmds_on_link[OF 3]
    by (auto simp: pty_exec_cmds_def opened(2))
qed

text \<open>A configuration with the credentials and the name of the device.\<close>

definition config_for :: "device \<Rightarrow> bench_config \<Rightarrow> bench_config" where
  "config_for dev cf = cf\<lparr>cf_user := username dev, cf_pass := password dev, cf_hostname := hostname dev\<rparr>"

lemma site_env_up: "env_up si_clock (site_up dev) (site_env ord)"
  unfolding env_up_def by (simp add: site_env_def site_up_def)

lemma site_env_keeps: "env_keeps site_opened (site_env ord)"
  by (simp add: env_keeps_def site_env_def site_opened_def)

interpretation site_site: ssh_site "site_lib dev" site_opened id "site_env ord" "config_for dev cf" addr si_clock "site_up dev"
  "\<lambda>c s w. s = c \<and> c \<in> site_opened w \<and> si_link w = link_start []" for dev cf addr ord
proof
  show "env_keeps site_opened (site_env ord)" by (rule site_env_keeps)
  show "env_up si_clock (site_up dev) (site_env ord)" by (rule site_env_up)
  fix w :: site assume up: "site_up dev w"
  then have u: "si_faults w = []" "si_dev w = dev" by (simp_all add: site_up_def)
  note f = site_fault_up[OF u(1)]
  show "\<exists>t w'. sl_tcp (site_lib dev) addr w = (Inr t, w') \<and> site_up dev w' \<and> si_clock w \<le> si_clock w'"
    using f u by (simp add: site_lib_def site_tcp_def site_up_def)
  show "\<exists>c w'. sl_client (site_lib dev) addr (cf_user (config_for dev cf)) (cf_pass (config_for dev cf)) t w = Some (Inr c, w') \<and> site_up dev w' \<and> si_clock w \<le> si_clock w'" for t
    using f u by (simp add: site_lib_def site_client_def site_up_def config_for_def password_callback_def)
  show "\<exists>s w'. sl_session (site_lib dev) c w = Some (Inr s, w') \<and> (s = c \<and> c \<in> site_opened w' \<and> si_link w' = link_start [])
      \<and> site_up dev w' \<and> si_clock w \<le> si_clock w'" if "id c \<in> site_opened w" for c
    using f u that by (simp add: site_lib_def site_session_def site_up_def site_opened_def)
  show "\<exists>out w'. sl_output (site_lib dev) s cmd w = Some (Inr out, w') \<and> site_up dev w' \<and> si_clock w \<le> si_clock w'"
    if "s = c \<and> c \<in> site_opened w \<and> si_link w = link_start []" for c s cmd
    using f u that by (simp add: site_lib_def site_output_def site_up_def site_opened_def client_output_exec del: handle_session.simps)
  show "\<exists>w'. pty_exec_cmds (sl_pty (site_lib dev) s) (cf_hostname (config_for dev cf) @ ''#'') n w = Some (None, w')
      \<and> site_up dev w' \<and> si_clock w \<le> si_clock w'"
    if "s = c \<and> c \<in> site_opened w \<and> si_link w = link_start []" for c s n
    using pty_exec_cmds_site[of w "[]" dev n] that u
    by (auto simp: site_lib_def config_for_def prompt_of_def site_up_def)
qed (simp_all add: site_lib_def site_up_def site_close_def)

end
