(* ===== verification/BenchNetconf.thy ===== *)
theory BenchNetconf
  imports BenchSsh NetconfServer
begin

text \<open>
  The NETCONF driver, \<open>internal/bench/netconf.go\<close>. The SSH library has the operations of a
  subsystem channel as well: \<open>rl_pending\<close> is what the peer has sent in answer to all that has
  been written so far and has not been read, \<open>rl_ended\<close> whether it has closed its side,
  \<open>rl_leave\<close> consumes up to what is given.

  A read that needs more than the peer will send waits for ever; that, and the panic of the
  chunked reader, is \<open>None\<close>. The window of the channel is taken to be large enough for a batch.
\<close>

record ('t, 'c, 's, 'w) netconf_lib = "('t, 'c, 's, 'w) ssh_lib" +
  rl_stdin :: "'s \<Rightarrow> 'w \<Rightarrow> string option \<times> 'w"
  rl_stdout :: "'s \<Rightarrow> 'w \<Rightarrow> string option \<times> 'w"
  rl_subsystem :: "'s \<Rightarrow> string \<Rightarrow> 'w \<Rightarrow> (string option \<times> 'w) option"
  rl_write :: "'s \<Rightarrow> string \<Rightarrow> 'w \<Rightarrow> string option \<times> 'w"
  rl_pending :: "'s \<Rightarrow> 'w \<Rightarrow> string"
  rl_ended :: "'s \<Rightarrow> 'w \<Rightarrow> bool"
  rl_leave :: "'s \<Rightarrow> string \<Rightarrow> 'w \<Rightarrow> 'w"

section \<open>The channel\<close>

definition frame_text :: "frame_err \<Rightarrow> string" where
  "frame_text e =
     (case e of Eof \<Rightarrow> ''EOF'' | UnexpectedEof \<Rightarrow> ''unexpected EOF'' | HelloTooLarge \<Rightarrow> ''hello too large''
      | BadChunkSize num \<Rightarrow> ''invalid chunk size'' | Expected a b \<Rightarrow> ''unexpected byte'' | MakeslicePanic \<Rightarrow> ''panic'')"

definition chan_read ::
  "('t, 'c, 's, 'w) netconf_lib \<Rightarrow> (string \<Rightarrow> string read) \<Rightarrow> 's \<Rightarrow> 'w \<Rightarrow> (string result \<times> 'w) option" where
  "chan_read lib rd s w =
     (case rd (rl_pending lib s w) of
        (Inl e, rest) \<Rightarrow>
          if e = MakeslicePanic \<or> (e = Eof \<or> e = UnexpectedEof) \<and> \<not> rl_ended lib s w then None
          else Some (Inl (frame_text e), rl_leave lib s rest w)
      | (Inr v, rest) \<Rightarrow> Some (Inr v, rl_leave lib s rest w))"

definition read_hello :: "string \<Rightarrow> string read" where
  "read_hello s = (case read_eom s of ((b, Some e), rest) \<Rightarrow> (Inl e, rest) | ((b, None), rest) \<Rightarrow> (Inr b, rest))"

definition netconf_hello :: "('t, 'c, 's, 'w) netconf_lib \<Rightarrow> 's \<Rightarrow> 'w exec" where
  "netconf_hello lib s w = do {
     (r, w1) \<leftarrow> chan_read lib read_hello s w;
     Some (case r of
        Inl e \<Rightarrow> (Some e, w1)
      | Inr _ \<Rightarrow> rl_write lib s (client_hello @ [NL] @ eom) w1)
   }"

text \<open>\<open>pipeChannel.Close\<close>.\<close>

definition chan_close :: "('t, 'c, 's, 'w) netconf_lib \<Rightarrow> 'c \<Rightarrow> 's \<Rightarrow> 'w \<Rightarrow> 'w" where
  "chan_close lib c s w = sl_close (ssh_lib.truncate lib) c (sl_sess_close (ssh_lib.truncate lib) s w)"

definition netconf_cleanup :: "('t, 'c, 's, 'w) netconf_lib \<Rightarrow> 'c \<Rightarrow> 's \<Rightarrow> 'w \<Rightarrow> 'w" where
  "netconf_cleanup lib c s w =
     (case rl_write lib s (write_chunked (close_session_rpc 999)) w of (_, w1) \<Rightarrow> chan_close lib c s w1)"

section \<open>Dialling\<close>

text \<open>The steps on a session, up to the first that fails; each failure closes it.\<close>

definition netconf_start :: "('t, 'c, 's, 'w) netconf_lib \<Rightarrow> 's \<Rightarrow> 'w exec" where
  "netconf_start lib s w =
     (case rl_stdin lib s w of (Some e, w1) \<Rightarrow> Some (Some e, w1) | (None, w1) \<Rightarrow>
      (case rl_stdout lib s w1 of (Some e, w2) \<Rightarrow> Some (Some e, w2) | (None, w2) \<Rightarrow> do {
         (err, w3) \<leftarrow> rl_subsystem lib s ''netconf'' w2;
         (case err of
            Some e \<Rightarrow> Some (Some (''subsystem: '' @ e), w3)
          | None \<Rightarrow> do {
              (err, w4) \<leftarrow> netconf_hello lib s w3;
              Some (map_option (\<lambda>e. ''hello: '' @ e) err, w4)
            })
       }))"

definition netconf_dial ::
  "('t, 'c, 's, 'w) netconf_lib \<Rightarrow> string \<Rightarrow> string \<Rightarrow> string \<Rightarrow> 'w \<Rightarrow> (('c \<times> 's \<times> 't) result \<times> 'w) option" where
  "netconf_dial lib addr user pass w =
     (case sl_tcp (ssh_lib.truncate lib) addr w of
        (Inl e, w1) \<Rightarrow> Some (Inl (''dial: '' @ e), w1)
      | (Inr tc, w1) \<Rightarrow> do {
          (r, w2) \<leftarrow> sl_client (ssh_lib.truncate lib) addr user pass tc w1;
          (case r of
             Inl e \<Rightarrow> Some (Inl (''ssh: '' @ e), sl_tcp_close (ssh_lib.truncate lib) tc w2)
           | Inr c \<Rightarrow> do {
               (r, w3) \<leftarrow> sl_session (ssh_lib.truncate lib) c w2;
               (case r of
                  Inl e \<Rightarrow> Some (Inl (''session: '' @ e), sl_close (ssh_lib.truncate lib) c w3)
                | Inr s \<Rightarrow> do {
                    (err, w4) \<leftarrow> netconf_start lib s w3;
                    Some (case err of
                       Some e \<Rightarrow> (Inl e, chan_close lib c s w4)
                     | None \<Rightarrow> (Inr (c, s, tc), w4))
                  })
             })
        })"

section \<open>Requests\<close>

text \<open>Write a request, read its reply.\<close>

definition nc_request :: "('t, 'c, 's, 'w) netconf_lib \<Rightarrow> 's \<Rightarrow> string \<Rightarrow> 'w exec" where
  "nc_request lib s msg w =
     (case rl_write lib s (write_chunked msg) w of
        (Some e, w1) \<Rightarrow> Some (Some e, w1)
      | (None, w1) \<Rightarrow> do {
          (r, w2) \<leftarrow> chan_read lib read_chunked s w1;
          Some (case r of Inl e \<Rightarrow> Some e | Inr _ \<Rightarrow> None, w2)
        })"

text \<open>The state of a driver is the world with its message counter.\<close>

fun nc_gets :: "('t, 'c, 's, 'w) netconf_lib \<Rightarrow> 's \<Rightarrow> nat \<Rightarrow> ('w \<times> int) exec" where
  "nc_gets lib s 0 v = Some (None, v)"
| "nc_gets lib s (Suc n) (w, i) = do {
     (err, w1) \<leftarrow> nc_request lib s (get_rpc (i + 1) ''show version'') w;
     (case err of Some e \<Rightarrow> Some (Some e, (w1, i + 1)) | None \<Rightarrow> nc_gets lib s n (w1, i + 1))
   }"

fun nc_write_gets :: "('t, 'c, 's, 'w) netconf_lib \<Rightarrow> 's \<Rightarrow> nat \<Rightarrow> 'w \<times> int \<Rightarrow> string option \<times> ('w \<times> int)" where
  "nc_write_gets lib s 0 v = (None, v)"
| "nc_write_gets lib s (Suc n) (w, i) =
     (case rl_write lib s (write_chunked (get_rpc (i + 1) ''show version'')) w of
        (Some e, w1) \<Rightarrow> (Some e, (w1, i + 1))
      | (None, w1) \<Rightarrow> nc_write_gets lib s n (w1, i + 1))"

fun nc_read_replies :: "('t, 'c, 's, 'w) netconf_lib \<Rightarrow> 's \<Rightarrow> nat \<Rightarrow> 'w exec" where
  "nc_read_replies lib s 0 w = Some (None, w)"
| "nc_read_replies lib s (Suc n) w = do {
     (r, w1) \<leftarrow> chan_read lib read_chunked s w;
     (case r of Inl e \<Rightarrow> Some (Some e, w1) | Inr _ \<Rightarrow> nc_read_replies lib s n w1)
   }"

definition nc_batch :: "('t, 'c, 's, 'w) netconf_lib \<Rightarrow> 's \<Rightarrow> nat \<Rightarrow> ('w \<times> int) exec" where
  "nc_batch lib s n v =
     (case nc_write_gets lib s n v of
        (Some e, v1) \<Rightarrow> Some (Some e, v1)
      | (None, (w1, i)) \<Rightarrow> do { (err, w2) \<leftarrow> nc_read_replies lib s n w1; Some (err, (w2, i)) })"

definition edit_cmds :: "nat \<Rightarrow> string" where
  "edit_cmds n = join [NL] (replicate n (''interface GigabitEthernet1'' @ [NL] @ ''description bench''))"

definition nc_edit_commit :: "('t, 'c, 's, 'w) netconf_lib \<Rightarrow> 's \<Rightarrow> nat \<Rightarrow> ('w \<times> int) exec" where
  "nc_edit_commit lib s n v =
     (case v of (w, i) \<Rightarrow> do {
        (err, w1) \<leftarrow> nc_request lib s (edit_config_rpc (i + 1) (edit_cmds n)) w;
        (case err of
           Some e \<Rightarrow> Some (Some e, (w1, i + 1))
         | None \<Rightarrow> do {
             (err, w2) \<leftarrow> nc_request lib s (commit_rpc (i + 2)) w1;
             Some (err, (w2, i + 2))
           })
      })"

section \<open>Modes\<close>

definition nc_fresh_iter ::
  "bench_config \<Rightarrow> 'w bench_env \<Rightarrow> ('t, 'c, 's, 'w) netconf_lib \<Rightarrow> 'w iteration" where
  "nc_fresh_iter cf env lib idx st =
     (case st of (cnt, w) \<Rightarrow> do {
        let (snap, w1) = resource_snap cf env w;
        let (start, w2) = be_now env w1;
        (r, w3) \<leftarrow> netconf_dial lib (cf_addr cf) (cf_user cf) (cf_pass cf) w2;
        (case r of
           Inl e \<Rightarrow> Some (err_duration, cnt, w3)
         | Inr (c, s, cc) \<Rightarrow> do {
             (err, (w4, _)) \<leftarrow> nc_gets lib s (cf_commands cf) (w3, 0);
             let w5 = netconf_cleanup lib c s w4;
             Some (case err of
                Some e \<Rightarrow> (err_duration, cnt, w5)
              | None \<Rightarrow> since_start env start
                  (resource_record cf env idx snap (record_conn idx (sl_counts (ssh_lib.truncate lib) cc w5) cnt, w5)))
           })
      })"

text \<open>A mode on one session; no results when the dial fails. The counter starts at 1.\<close>

definition nc_shared_mode ::
  "bench_config \<Rightarrow> 'w bench_env \<Rightarrow> ('t, 'c, 's, 'w) netconf_lib \<Rightarrow> ('s \<Rightarrow> ('w \<times> int) exec) \<Rightarrow>
     'w \<Rightarrow> ((int list \<times> iter_counts) option \<times> 'w) option" where
  "nc_shared_mode cf env lib work w = do {
     (r, w1) \<leftarrow> netconf_dial lib (cf_addr cf) (cf_user cf) (cf_pass cf) w;
     (case r of
        Inl e \<Rightarrow> Some (None, w1)
      | Inr (c, s, cc) \<Rightarrow> do {
          (tc, (w2, _)) \<leftarrow> run_mode cf env
             (shared_iter cf (local_env env) (\<lambda>(w, i). Some (sl_counts (ssh_lib.truncate lib) cc w)) (work s)) (w1, 1);
          Some (Some tc, netconf_cleanup lib c s w2)
        })
   }"

text \<open>The modes after the first: a mode whose dial fails ends the run with the rows so far.\<close>

fun nc_modes ::
  "bench_config \<Rightarrow> 'w bench_env \<Rightarrow> ('t, 'c, 's, 'w) netconf_lib \<Rightarrow> (string \<times> ('s \<Rightarrow> ('w \<times> int) exec)) list \<Rightarrow>
     (string \<times> (int list \<times> iter_counts)) list \<Rightarrow> 'w \<Rightarrow> ((string \<times> (int list \<times> iter_counts)) list \<times> 'w) option" where
  "nc_modes cf env lib [] acc w = Some (acc, w)"
| "nc_modes cf env lib ((op, work) # modes) acc w = do {
     (r, w1) \<leftarrow> nc_shared_mode cf env lib work (pkt_reset cf env w);
     (case r of None \<Rightarrow> Some (acc, w1) | Some tc \<Rightarrow> nc_modes cf env lib modes (acc @ [(op, tc)]) w1)
   }"

definition netconf_bench ::
  "bench_config \<Rightarrow> 'w bench_env \<Rightarrow> ('t, 'c, 's, 'w) netconf_lib \<Rightarrow> 'w \<Rightarrow> (bench_result list \<times> 'w) option" where
  "netconf_bench cf env lib w = do {
     (fresh, w1) \<leftarrow> run_mode cf env (nc_fresh_iter cf env lib) (pkt_reset cf env w);
     (rows, w2) \<leftarrow> nc_modes cf env lib
        [(''reuse-session'', \<lambda>s. nc_gets lib s (cf_commands cf)),
         (''batch-rpc'', \<lambda>s. nc_batch lib s (cf_commands cf)),
         (''edit-commit'', \<lambda>s. nc_edit_commit lib s (cf_commands cf))]
        [(''fresh-session'', fresh)] w1;
     Some (map (\<lambda>(op, tc). summarize_mode cf env ''netconf'' op tc w2) rows, w2)
   }"

text \<open>
  The modes on a shared channel run their iterations with \<open>RunParallel\<close>, without a lock. Readers
  that overlap break the framing: when one has taken the first byte of a reply, the other fails.
\<close>

lemma overlapping_reads_fail: "\<exists>e r. read_chunked (tl (write_chunked data @ rest)) = (Inl e, r)"
  by (simp add: read_chunked_def write_chunked_def read_chunks.simps[of "[]" "CHR ''#'' # _"]
      split: prod.splits sum.splits)

section \<open>No connection stays open\<close>

text \<open>Operations on a channel neither open nor close connections.\<close>

definition chan_keeps :: "('w \<Rightarrow> 'o) \<Rightarrow> ('t, 'c, 's, 'w) netconf_lib \<Rightarrow> bool" where
  "chan_keeps obs lib \<longleftrightarrow> (\<forall>s w. obs (snd (rl_stdin lib s w)) = obs w \<and> obs (snd (rl_stdout lib s w)) = obs w)
     \<and> (\<forall>s name. keeps obs (rl_subsystem lib s name))
     \<and> (\<forall>s msg w. obs (snd (rl_write lib s msg w)) = obs w) \<and> (\<forall>s rest w. obs (rl_leave lib s rest w) = obs w)"

lemma chan_keeps_eq:
  assumes "chan_keeps obs lib"
  shows "rl_stdin lib s w = (e, w') \<Longrightarrow> obs w' = obs w" "rl_stdout lib s w = (e, w') \<Longrightarrow> obs w' = obs w"
    "rl_subsystem lib s name w = Some (e, w') \<Longrightarrow> obs w' = obs w" "rl_write lib s msg w = (e, w') \<Longrightarrow> obs w' = obs w"
    "obs (rl_leave lib s rest w) = obs w"
  using assms unfolding chan_keeps_def by (metis snd_conv keepsD)+

lemma chan_read_keeps:
  "chan_keeps obs lib \<Longrightarrow> chan_read lib rd s w = Some (r, w') \<Longrightarrow> obs w' = obs w"
  by (auto simp: chan_read_def chan_keeps_eq(5) split: prod.splits sum.splits if_splits)

lemma nc_ops_keep:
  assumes k: "chan_keeps obs lib"
  shows "netconf_hello lib s w = Some (e, w') \<Longrightarrow> obs w' = obs w"
    and "netconf_start lib s w = Some (e, w') \<Longrightarrow> obs w' = obs w"
    and "nc_request lib s msg w = Some (e, w') \<Longrightarrow> obs w' = obs w"
proof -
  note d = chan_keeps_eq(1-4)[OF k] chan_read_keeps[OF k]
  show h: "netconf_hello lib s w = Some (e, w') \<Longrightarrow> obs w' = obs w" for w e w'
    by (auto simp: netconf_hello_def elim!: bind_SomeE split: sum.splits dest!: d)
  show "netconf_start lib s w = Some (e, w') \<Longrightarrow> obs w' = obs w"
    by (auto simp: netconf_start_def elim!: bind_SomeE split: prod.splits option.splits dest!: d h)
  show "nc_request lib s msg w = Some (e, w') \<Longrightarrow> obs w' = obs w"
    by (auto simp: nc_request_def elim!: bind_SomeE split: prod.splits option.splits dest!: d)
qed

lemma nc_gets_keeps:
  assumes k: "chan_keeps obs lib"
  shows "nc_gets lib s n v = Some (e, v') \<Longrightarrow> obs (fst v') = obs (fst v)"
proof (induction n arbitrary: v)
  case (Suc n)
  obtain w i where v: "v = (w, i)" by (cases v)
  from Suc.prems v show ?case
    by (auto elim!: bind_SomeE split: option.splits dest!: nc_ops_keep(3)[OF k] Suc.IH)
qed simp

lemma nc_write_gets_keeps:
  assumes k: "chan_keeps obs lib"
  shows "nc_write_gets lib s n v = (e, v') \<Longrightarrow> obs (fst v') = obs (fst v)"
proof (induction n arbitrary: v)
  case (Suc n)
  obtain w i where v: "v = (w, i)" by (cases v)
  from Suc.prems v show ?case
    by (auto split: prod.splits option.splits dest!: chan_keeps_eq(4)[OF k] Suc.IH)
qed simp

lemma nc_read_replies_keeps:
  assumes k: "chan_keeps obs lib"
  shows "nc_read_replies lib s n w = Some (e, w') \<Longrightarrow> obs w' = obs w"
  by (induction n arbitrary: w)
    (auto elim!: bind_SomeE split: sum.splits dest!: chan_read_keeps[OF k])

lemma nc_works_keep:
  assumes k: "chan_keeps obs lib"
  shows "keeps (\<lambda>v. obs (fst v)) (nc_gets lib s n)" "keeps (\<lambda>v. obs (fst v)) (nc_batch lib s n)"
    "keeps (\<lambda>v. obs (fst v)) (nc_edit_commit lib s n)"
proof -
  show "keeps (\<lambda>v. obs (fst v)) (nc_gets lib s n)" by (rule keepsI, rule nc_gets_keeps[OF k])
  show "keeps (\<lambda>v. obs (fst v)) (nc_batch lib s n)"
  proof (rule keepsI)
    fix v e v' assume r: "nc_batch lib s n v = Some (e, v')"
    obtain e1 w1 i where 1: "nc_write_gets lib s n v = (e1, (w1, i))" by (cases "nc_write_gets lib s n v") auto
    then show "obs (fst v') = obs (fst v)"
      using r nc_write_gets_keeps[OF k 1]
      by (auto simp: nc_batch_def elim!: bind_SomeE split: option.splits dest!: nc_read_replies_keeps[OF k])
  qed
  show "keeps (\<lambda>v. obs (fst v)) (nc_edit_commit lib s n)"
    by (rule keepsI) (auto simp: nc_edit_commit_def elim!: bind_SomeE split: prod.splits option.splits
        dest!: nc_ops_keep(3)[OF k])
qed

locale counted_netconf = counted_ssh "ssh_lib.truncate lib" opened via
  for lib :: "('t, 'c, 's, 'w) netconf_lib" and opened :: "'w \<Rightarrow> 't set" and via :: "'c \<Rightarrow> 't" +
  assumes channels: "chan_keeps opened lib"
begin

lemma chan_closes: "opened (chan_close lib c s w) = opened w - {via c}"
  using closed sessions_keep_eq(3)[OF sessions] by (simp add: chan_close_def)

lemma cleanup_closes: "opened (netconf_cleanup lib c s w) = opened w - {via c}"
  using chan_keeps_eq(4)[OF channels] by (auto simp: netconf_cleanup_def chan_closes split: prod.split)

lemma netconf_dial_opens:
  assumes "netconf_dial lib addr user pass w = Some (r, w')"
  shows "case r of Inl e \<Rightarrow> opened w' = opened w
    | Inr (c, s, cc) \<Rightarrow> via c = cc \<and> cc \<notin> opened w \<and> opened w' = insert cc (opened w)"
proof -
  obtain rt w1 where 1: "sl_tcp (ssh_lib.truncate lib) addr w = (rt, w1)" by (cases "sl_tcp (ssh_lib.truncate lib) addr w")
  show ?thesis
  proof (cases rt)
    case (Inl e)
    then show ?thesis using assms 1 tcp_err by (auto simp: netconf_dial_def)
  next
    case (Inr tc)
    have o1: "tc \<notin> opened w" "opened w1 = insert tc (opened w)" using tcp_ok 1 Inr by auto
    obtain rc w2 where 2: "sl_client (ssh_lib.truncate lib) addr user pass tc w1 = Some (rc, w2)"
      using assms 1 Inr by (auto simp: netconf_dial_def elim!: bind_SomeE)
    show ?thesis
    proof (cases rc)
      case (Inl e)
      then show ?thesis using assms 1 2 \<open>rt = Inr tc\<close> o1 client_err tcp_closed by (auto simp: netconf_dial_def)
    next
      case (Inr c)
      have o2: "via c = tc" "opened w2 = opened w1" using client_ok 2 Inr by auto
      obtain rs w3 where 3: "sl_session (ssh_lib.truncate lib) c w2 = Some (rs, w3)"
        using assms 1 2 Inr \<open>rt = Inr tc\<close> by (auto simp: netconf_dial_def elim!: bind_SomeE)
      have o3: "opened w3 = opened w2" using sessions_keep_eq(1)[OF sessions 3] .
      show ?thesis
      proof (cases rs)
        case (Inl e)
        then show ?thesis using assms 1 2 3 \<open>rt = Inr tc\<close> \<open>rc = Inr c\<close> o1 o2 o3 closed
          by (auto simp: netconf_dial_def)
      next
        case (Inr s)
        obtain err w4 where 4: "netconf_start lib s w3 = Some (err, w4)"
          using assms 1 2 3 Inr \<open>rt = Inr tc\<close> \<open>rc = Inr c\<close> by (auto simp: netconf_dial_def elim!: bind_SomeE)
        have o4: "opened w4 = opened w3" using nc_ops_keep(2)[OF channels 4] .
        then show ?thesis using assms 1 2 3 4 Inr \<open>rt = Inr tc\<close> \<open>rc = Inr c\<close> o1 o2 o3 chan_closes
          by (cases err) (auto simp: netconf_dial_def)
      qed
    qed
  qed
qed

lemma nc_fresh_iter_keeps:
  assumes env: "env_keeps opened env"
  shows "iter_keeps opened (nc_fresh_iter cf env lib)"
proof (rule iter_keepsI)
  fix idx cnt w d cnt' w' assume r: "nc_fresh_iter cf env lib idx (cnt, w) = Some (d, cnt', w')"
  obtain snap w1 where 1: "resource_snap cf env w = (snap, w1)" by (cases "resource_snap cf env w")
  obtain start w2 where 2: "be_now env w1 = (start, w2)" by (cases "be_now env w1")
  have w2: "opened w2 = opened w" using env_keeps_eq(1)[OF env 2] env_keeps_eq(2)[OF env 1] by simp
  obtain res w3 where 3: "netconf_dial lib (cf_addr cf) (cf_user cf) (cf_pass cf) w2 = Some (res, w3)"
    using r 1 2 by (auto simp: nc_fresh_iter_def elim!: bind_SomeE)
  note o = netconf_dial_opens[OF 3]
  show "opened w' = opened w"
  proof (cases res)
    case (Inl e)
    then show ?thesis using r 1 2 3 w2 o by (simp add: nc_fresh_iter_def)
  next
    case (Inr x)
    obtain c s cc where c: "x = (c, s, cc)" by (cases x)
    obtain err w4 i where 4: "nc_gets lib s (cf_commands cf) (w3, 0) = Some (err, (w4, i))"
      using r 1 2 3 Inr c by (auto simp: nc_fresh_iter_def elim!: bind_SomeE)
    have o4: "opened (netconf_cleanup lib c s w4) = opened w"
      using nc_gets_keeps[OF channels 4] o Inr c w2 cleanup_closes by auto
    show ?thesis
    proof (cases err)
      case (Some e)
      then show ?thesis using r 1 2 3 4 Inr c o4 by (simp add: nc_fresh_iter_def Let_def)
    next
      case None
      then have "since_start env start (resource_record cf env idx snap
          (record_conn idx (sl_counts (ssh_lib.truncate lib) cc (netconf_cleanup lib c s w4)) cnt, netconf_cleanup lib c s w4))
          = (d, cnt', w')" using r 1 2 3 4 Inr c by (simp add: nc_fresh_iter_def Let_def)
      then show ?thesis using finish_keeps[OF env] o4 by metis
    qed
  qed
qed

lemma nc_shared_mode_keeps:
  assumes env: "env_keeps opened env" and work: "\<And>s. keeps (\<lambda>v. opened (fst v)) (work s)"
  shows "keeps opened (nc_shared_mode cf env lib work)"
proof (rule keepsI)
  fix w tc w' assume r: "nc_shared_mode cf env lib work w = Some (tc, w')"
  obtain res w1 where 1: "netconf_dial lib (cf_addr cf) (cf_user cf) (cf_pass cf) w = Some (res, w1)"
    using r by (auto simp: nc_shared_mode_def elim!: bind_SomeE)
  note o = netconf_dial_opens[OF 1]
  show "opened w' = opened w"
  proof (cases res)
    case (Inl e)
    then show ?thesis using r 1 o by (simp add: nc_shared_mode_def)
  next
    case (Inr x)
    obtain c s cc where c: "x = (c, s, cc)" by (cases x)
    obtain tc' w2 i where 2: "run_mode cf env (shared_iter cf (local_env env)
        (\<lambda>(w, i). Some (sl_counts (ssh_lib.truncate lib) cc w)) (work s)) (w1, 1) = Some (tc', (w2, i))"
      "w' = netconf_cleanup lib c s w2"
      using r 1 Inr c by (auto simp: nc_shared_mode_def elim!: bind_SomeE)
    have "opened w2 = opened w1"
      using keepsD[OF run_mode_keeps[OF shared_iter_keeps[OF local_env_keeps[OF env] work]] 2(1)] by simp
    then show ?thesis using 2(2) o Inr c cleanup_closes by auto
  qed
qed

lemma nc_modes_keeps:
  assumes env: "env_keeps opened env"
  shows "\<forall>(op, work) \<in> set modes. \<forall>s. keeps (\<lambda>v. opened (fst v)) (work s) \<Longrightarrow>
     nc_modes cf env lib modes acc w = Some (rows, w') \<Longrightarrow> opened w' = opened w"
proof (induction modes arbitrary: acc w)
  case (Cons m modes)
  obtain op work where m: "m = (op, work)" by (cases m)
  obtain r w1 where 1: "nc_shared_mode cf env lib work (pkt_reset cf env w) = Some (r, w1)"
    using Cons.prems(2) m by (auto elim!: bind_SomeE)
  have o: "opened w1 = opened w"
    using keepsD[OF nc_shared_mode_keeps[OF env] 1] Cons.prems(1) m env_frame(4)[OF env] by simp
  show ?case
  proof (cases r)
    case None
    then show ?thesis using Cons.prems(2) m 1 o by simp
  next
    case (Some tc)
    then show ?thesis using Cons.prems m 1 o Cons.IH[of "acc @ [(op, tc)]" w1] by simp
  qed
qed simp

lemma netconf_bench_keeps:
  assumes env: "env_keeps opened env"
  shows "keeps opened (netconf_bench cf env lib)"
proof (rule keepsI)
  fix w rs w' assume r: "netconf_bench cf env lib w = Some (rs, w')"
  define modes where "modes = [(''reuse-session'', \<lambda>s. nc_gets lib s (cf_commands cf)),
         (''batch-rpc'', \<lambda>s. nc_batch lib s (cf_commands cf)),
         (''edit-commit'', \<lambda>s. nc_edit_commit lib s (cf_commands cf))]"
  obtain fresh w1 rows where 1: "run_mode cf env (nc_fresh_iter cf env lib) (pkt_reset cf env w) = Some (fresh, w1)"
    "nc_modes cf env lib modes [(''fresh-session'', fresh)] w1 = Some (rows, w')"
    using r unfolding netconf_bench_def modes_def[symmetric] by (auto elim!: bind_pairE)
  have "\<forall>(op, work) \<in> set modes. \<forall>s. keeps (\<lambda>v. opened (fst v)) (work s)"
    using nc_works_keep[OF channels] by (simp add: modes_def)
  from nc_modes_keeps[OF env this 1(2)] show "opened w' = opened w"
    using keepsD[OF run_mode_keeps[OF nc_fresh_iter_keeps[OF env]] 1(1)] env_frame(4)[OF env] by simp
qed

end

end
