(* ===== verification/NetconfSite.thy ===== *)
theory NetconfSite
  imports Site BenchNetconf
begin

text \<open>
  The site of \<open>Site\<close> with the NETCONF subsystem: what a client has written on its session goes
  through the session of the NETCONF server, whose output is what the client has to read. It
  interprets what the NETCONF driver relies on. \<open>um\<close> is the server's XML decoder.
\<close>

definition nc_output :: "unmarshal \<Rightarrow> device \<Rightarrow> string \<Rightarrow> string" where
  "nc_output um dev sent = concat (fst (run_session um dev all_ok sent))"

definition nc_site_write :: "nat \<Rightarrow> string \<Rightarrow> site \<Rightarrow> string option \<times> site" where
  "nc_site_write s msg w =
     (case site_fault w of
        (True, w') \<Rightarrow> (Some ''EOF'', w')
      | (False, w') \<Rightarrow> (None, (site_trip s w')\<lparr>si_sent := si_sent w' @ msg\<rparr>))"

definition nc_site_pending :: "unmarshal \<Rightarrow> device \<Rightarrow> site \<Rightarrow> string" where
  "nc_site_pending um dev w = drop (si_got w) (nc_output um dev (si_sent w))"

definition nc_site_lib :: "unmarshal \<Rightarrow> device \<Rightarrow> (nat, nat, nat, site) netconf_lib" where
  "nc_site_lib um dev = ssh_lib.extend (site_lib dev) \<lparr>rl_stdin = (\<lambda>s. Pair None), rl_stdout = (\<lambda>s. Pair None),
     rl_subsystem = (\<lambda>s name w. Some (None, w)), rl_write = nc_site_write,
     rl_pending = (\<lambda>s. nc_site_pending um dev), rl_ended = (\<lambda>s w. contains (si_sent w) ''<close-session''),
     rl_leave = (\<lambda>s rest w. w\<lparr>si_got := length (nc_output um dev (si_sent w)) - length rest\<rparr>)\<rparr>"

lemma nc_site_lib_truncate: "ssh_lib.truncate (nc_site_lib um dev) = site_lib dev"
  by (simp add: nc_site_lib_def ssh_lib.defs)

lemma nc_site_sel [simp]:
  "rl_stdin (nc_site_lib um dev) s = Pair None" "rl_stdout (nc_site_lib um dev) s = Pair None"
  "rl_subsystem (nc_site_lib um dev) s name = (\<lambda>w. Some (None, w))" "rl_write (nc_site_lib um dev) = nc_site_write"
  "rl_pending (nc_site_lib um dev) s = nc_site_pending um dev"
  "rl_ended (nc_site_lib um dev) s w = contains (si_sent w) ''<close-session''"
  "rl_leave (nc_site_lib um dev) s rest w = w\<lparr>si_got := length (nc_output um dev (si_sent w)) - length rest\<rparr>"
  by (simp_all add: nc_site_lib_def ssh_lib.defs)

lemma nc_site_channels: "chan_keeps site_opened (nc_site_lib um dev)"
proof -
  have "site_table (snd (nc_site_write s msg w)) = site_table w" for s msg w
  proof -
    obtain b w1 where f: "site_fault w = (b, w1)" by (cases "site_fault w")
    have "site_table ((site_trip s w1)\<lparr>si_sent := si_sent w1 @ msg\<rparr>) = site_table w1"
      by (simp add: site_table_def)
    then show ?thesis using f site_fault_table[OF f] by (cases b) (simp_all add: nc_site_write_def)
  qed
  then have "site_opened (snd (nc_site_write s msg w)) = site_opened w" for s msg w
    by (rule site_table_opened)
  then show ?thesis by (auto simp: chan_keeps_def keeps_def site_opened_def)
qed

interpretation nc_site_conns: counted_netconf "nc_site_lib um dev" site_opened id for um dev
  unfolding counted_netconf_def counted_netconf_axioms_def nc_site_lib_truncate
  using site_conns.counted_ssh_axioms nc_site_channels by blast

section \<open>A request is answered\<close>

text \<open>
  After the hello and some requests of the client, all answered and all but the last of the
  answers read.
\<close>

definition nc_session :: "unmarshal \<Rightarrow> device \<Rightarrow> string list \<Rightarrow> string list \<Rightarrow> site \<Rightarrow> bool" where
  "nc_session um dev msgs unread w \<longleftrightarrow> si_faults w = []
     \<and> si_sent w = (client_hello @ [NL]) @ eom @ concat (map write_chunked msgs)
     \<and> nc_output um dev (si_sent w) = take (si_got w) (nc_output um dev (si_sent w)) @ concat (map write_chunked unread)
     \<and> si_got w + length (concat (map write_chunked unread)) = length (nc_output um dev (si_sent w))"

definition fits :: "string \<Rightarrow> bool" where
  "fits msg \<longleftrightarrow> msg \<noteq> [] \<and> length msg \<le> max_alloc"

definition request_fits :: "string \<Rightarrow> bool" where
  "request_fits msg \<longleftrightarrow> fits msg \<and> \<not> contains msg ''<close-session''"

lemma nc_output_requests:
  assumes "\<forall>m \<in> set msgs. request_fits m"
  shows "nc_output um dev ((client_hello @ [NL]) @ eom @ concat (map write_chunked msgs)) =
    (server_hello @ [NL] @ eom) @ concat (map (\<lambda>m. write_chunked (dispatch um dev m)) msgs)"
proof -
  let ?chss = "map (\<lambda>m. [(dec (length m), m)]) msgs"
  have w: "concat (map write_chunked msgs) = concat (map frame_wire ?chss)"
    by (induction msgs) (simp_all add: write_chunked_frame)
  have g: "\<forall>chs \<in> set ?chss. list_all good_chunk chs \<and> \<not> contains (body_of chs) ''<close-session''"
    using assms written_good by (auto simp: request_fits_def fits_def)
  have e: "session_loop um dev all_ok k [] = ([], Returned)" for k
    by (subst session_loop.simps) (simp add: read_chunked_def read_chunks.simps end_of_def)
  have "session_loop um dev all_ok 1 (concat (map frame_wire ?chss) @ []) = (map (answer um dev) ?chss, Returned)"
    using session_steps[OF g, of um dev 1 "[]"] e by simp
  moreover have "read_eom ((client_hello @ [NL]) @ eom @ concat (map frame_wire ?chss)) =
      ((client_hello @ [NL], None), concat (map frame_wire ?chss))"
    by (rule read_eom_hello[OF hello_client])
  ultimately have "run_session um dev all_ok ((client_hello @ [NL]) @ eom @ concat (map frame_wire ?chss)) =
      ((server_hello @ [NL] @ eom) # map (answer um dev) ?chss, Returned)"
    by (simp add: run_session_def)
  then show ?thesis unfolding nc_output_def w by (simp add: answer_def comp_def)
qed

text \<open>A request written after others adds its answer to what is unread.\<close>

lemma nc_site_write_request:
  assumes "nc_session um dev msgs unread w" "\<forall>m \<in> set (msgs @ [msg]). request_fits m"
  shows "\<exists>w'. nc_site_write s (write_chunked msg) w = (None, w')
    \<and> nc_session um dev (msgs @ [msg]) (unread @ [dispatch um dev msg]) w'"
proof -
  let ?full = "\<lambda>ms. (client_hello @ [NL]) @ eom @ concat (map write_chunked ms)" and ?out = "nc_output um dev (si_sent w)"
  have s: "si_faults w = []" "si_sent w = ?full msgs"
    "?out = take (si_got w) ?out @ concat (map write_chunked unread)"
    "si_got w + length (concat (map write_chunked unread)) = length ?out"
    using assms(1) unfolding nc_session_def by blast+
  let ?w = "(site_trip s w)\<lparr>si_sent := si_sent w @ write_chunked msg\<rparr>"
  have sent: "si_sent ?w = ?full (msgs @ [msg])" using s(2) by simp
  have out: "nc_output um dev (si_sent ?w) = ?out @ write_chunked (dispatch um dev msg)"
    using nc_output_requests[OF assms(2), of um dev] nc_output_requests[of msgs um dev] assms(2) sent s(2) by simp
  have got: "si_got ?w = si_got w" by (simp add: site_trip_def)
  have "take (si_got w) (?out @ write_chunked (dispatch um dev msg)) = take (si_got w) ?out" using s(4) by simp
  then have "nc_session um dev (msgs @ [msg]) (unread @ [dispatch um dev msg]) ?w"
    unfolding nc_session_def out got using s(1,3,4) sent by simp
  then show ?thesis using s(1) by (simp add: nc_site_write_def site_fault_up)
qed

text \<open>A read takes the first answer.\<close>

lemma nc_site_read_reply:
  assumes "nc_session um dev msgs (r # unread) w" "fits r"
  shows "\<exists>w'. chan_read (nc_site_lib um dev) read_chunked s w = Some (Inr r, w') \<and> nc_session um dev msgs unread w'"
proof -
  let ?out = "nc_output um dev (si_sent w)" and ?rest = "concat (map write_chunked unread)"
  have s: "?out = take (si_got w) ?out @ write_chunked r @ ?rest"
    "si_got w + length (write_chunked r @ ?rest) = length ?out"
    using assms(1) unfolding nc_session_def list.map concat.simps by blast+
  have "nc_site_pending um dev w = write_chunked r @ ?rest"
    unfolding nc_site_pending_def by (metis append_eq_conv_conj append_take_drop_id s(1) same_append_eq)
  moreover have "read_chunked (write_chunked r @ ?rest) = (Inr r, ?rest)"
    using assms(2) by (intro chunked_read_write) (simp_all add: fits_def)
  ultimately have c: "chan_read (nc_site_lib um dev) read_chunked s w = Some (Inr r, w\<lparr>si_got := length ?out - length ?rest\<rparr>)"
    by (simp add: chan_read_def)
  have "?out = (take (si_got w) ?out @ write_chunked r) @ ?rest" using s(1) by simp
  then have "take (length ?out - length ?rest) ?out @ ?rest = ?out" by (metis append_eq_conv_conj length_append diff_add_inverse2)
  moreover have le: "length ?rest \<le> length ?out" using s(2) by simp
  ultimately have "nc_session um dev msgs unread (w\<lparr>si_got := length ?out - length ?rest\<rparr>)"
    using assms(1) le by (simp add: nc_session_def)
  then show ?thesis using c by blast
qed

text \<open>So the gets of a mode succeed: one request, one answer, in order.\<close>

lemma nc_gets_on_site:
  assumes "nc_session um dev msgs [] w" "\<forall>m \<in> set msgs. request_fits m"
    and "\<And>j. i < j \<Longrightarrow> j \<le> i + int n \<Longrightarrow> request_fits (get_rpc j ''show version'')"
    and "\<And>m. fits (dispatch um dev m)"
  shows "\<exists>w'. nc_gets (nc_site_lib um dev) s n (w, i) = Some (None, (w', i + int n))
    \<and> nc_session um dev (msgs @ map (\<lambda>k. get_rpc (i + int k) ''show version'') [1..<Suc n]) [] w'"
  using assms
proof (induction n arbitrary: w i msgs)
  case (Suc n)
  let ?msg = "get_rpc (i + 1) ''show version''"
  have m: "request_fits ?msg" using Suc.prems(3)[of "i + 1"] by simp
  obtain w1 where 1: "nc_site_write s (write_chunked ?msg) w = (None, w1)"
    "nc_session um dev (msgs @ [?msg]) [dispatch um dev ?msg] w1"
    using nc_site_write_request[OF Suc.prems(1), of ?msg s] Suc.prems(2) m by auto
  obtain w2 where 2: "chan_read (nc_site_lib um dev) read_chunked s w1 = Some (Inr (dispatch um dev ?msg), w2)"
    "nc_session um dev (msgs @ [?msg]) [] w2"
    using nc_site_read_reply[OF 1(2) Suc.prems(4)] by blast
  have r: "nc_request (nc_site_lib um dev) s ?msg w = Some (None, w2)" using 1 2 by (simp add: nc_request_def)
  have "\<forall>m \<in> set (msgs @ [?msg]). request_fits m" using Suc.prems(2) m by simp
  from Suc.IH[OF 2(2) this, of "i + 1"] Suc.prems(3,4) obtain w' where 3:
    "nc_gets (nc_site_lib um dev) s n (w2, i + 1) = Some (None, (w', i + 1 + int n))"
    "nc_session um dev ((msgs @ [?msg]) @ map (\<lambda>k. get_rpc (i + 1 + int k) ''show version'') [1..<Suc n]) [] w'"
    by auto
  have "map (\<lambda>k. get_rpc (i + int k) ''show version'') [1..<Suc (Suc n)] =
      ?msg # map (\<lambda>k. get_rpc (i + 1 + int k) ''show version'') [1..<Suc n]"
    by (simp add: upt_conv_Cons map_Suc_upt[symmetric] comp_def add.assoc del: upt_Suc)
  then show ?case using r 3 by (simp add: add.assoc)
qed simp

end
