(* ===== verification/BenchHttp.thy ===== *)
theory BenchHttp
  imports BenchCore Headend RestconfServer
begin

text \<open>
  The HTTP drivers of \<open>internal/bench\<close>: \<open>HTTPS\<close> and \<open>Proxy\<close> (\<open>bench.go\<close>), \<open>HTTP3\<close>
  (\<open>http3.go\<close>) and \<open>RESTCONF\<close> (\<open>restconf.go\<close>). The HTTP transports of the library are a record
  of operations; the dial functions that the code gives them are modelled. A dial function stores
  the counting connections it makes in a variable of its driver: a state is a world with the
  connections that the variable holds.

  \<open>client.Do\<close> returns: the clients have a time-out. An address is the host and port of a
  listener, which a URL carries as they are; \<open>parse_err\<close> is the text of a parse error.
\<close>

section \<open>Dial functions\<close>

type_synonym ('w, 't) local = "'w \<times> 't list"
type_synonym ('c, 'v) dialer = "string \<Rightarrow> 'v \<Rightarrow> 'c result \<times> 'v"

record ('t, 'c, 'w) net_lib =
  nl_dial :: "string \<Rightarrow> 'w \<Rightarrow> 't result \<times> 'w"
  nl_close :: "'t \<Rightarrow> 'w \<Rightarrow> 'w"
  nl_counts :: "'t \<Rightarrow> 'w \<Rightarrow> conn"
  nl_tls :: "'t \<Rightarrow> 'w \<Rightarrow> 'c result \<times> 'w"

text \<open>
  Dial, wrap, handshake. The first mode of \<open>HTTPS\<close> appends the connection to a slice; the others
  assign it to a variable.
\<close>

definition tls_dial :: "bool \<Rightarrow> ('t, 'c, 'w) net_lib \<Rightarrow> ('c, ('w, 't) local) dialer" where
  "tls_dial appending net addr v =
     (case v of (w, conns) \<Rightarrow>
        (case nl_dial net addr w of
           (Inl e, w1) \<Rightarrow> (Inl e, (w1, conns))
         | (Inr tc, w1) \<Rightarrow>
             let conns1 = (if appending then conns @ [tc] else [tc])
             in case nl_tls net tc w1 of
                  (Inl e, w2) \<Rightarrow> (Inl e, (nl_close net tc w2, conns1))
                | (Inr c, w2) \<Rightarrow> (Inr c, (w2, conns1))))"

text \<open>\<open>h3Dial\<close>: a UDP socket of its own for each QUIC connection.\<close>

record ('t, 'c, 'w) udp_lib =
  ul_resolve :: "string \<Rightarrow> string option"
  ul_listen :: "'w \<Rightarrow> 't result \<times> 'w"
  ul_counts :: "'t \<Rightarrow> 'w \<Rightarrow> conn"
  ul_quic :: "'t \<Rightarrow> string \<Rightarrow> 'w \<Rightarrow> 'c result \<times> 'w"

definition h3_dial :: "('t, 'c, 'w) udp_lib \<Rightarrow> ('c, ('w, 't) local) dialer" where
  "h3_dial udp addr v =
     (case v of (w, conns) \<Rightarrow>
        (case ul_resolve udp addr of
           Some e \<Rightarrow> (Inl e, v)
         | None \<Rightarrow>
             (case ul_listen udp w of
                (Inl e, w1) \<Rightarrow> (Inl e, (w1, conns))
              | (Inr uc, w1) \<Rightarrow>
                  (case ul_quic udp uc addr w1 of (r, w2) \<Rightarrow> (r, (w2, [uc]))))))"

text \<open>The counters behind the variable, nil before the first dial.\<close>

definition last_conn :: "('t \<Rightarrow> 'w \<Rightarrow> conn) \<Rightarrow> ('w, 't) local \<Rightarrow> conn option" where
  "last_conn counts v = (case v of (w, conns) \<Rightarrow> if conns = [] then None else Some (counts (last conns) w))"

section \<open>Requests\<close>

text \<open>
  The settings of the transports that the code makes: keep-alives on, off, one idle connection,
  HTTP/3, HTTP/3 with a session cache, and that with 0-RTT allowed. \<open>hl_release\<close> is
  \<open>CloseIdleConnections\<close>, or \<open>Close\<close> for HTTP/3. A transport without a dial function
  has the library's own.
\<close>

datatype tr_kind = KeepAlive | NoKeepAlive | OneIdle | Http3 | Http3Cached | Http3ZeroRtt

record ('tr, 'c, 'v) http_lib =
  hl_new :: "tr_kind \<Rightarrow> ('c, 'v) dialer option \<Rightarrow> 'v \<Rightarrow> 'tr \<times> 'v"
  hl_do :: "'tr \<Rightarrow> string \<Rightarrow> http_request \<Rightarrow> 'v \<Rightarrow> http_response result \<times> 'v"
  hl_release :: "'tr \<Rightarrow> 'v \<Rightarrow> 'v"

type_synonym 'v request_op = "'v \<Rightarrow> string option \<times> 'v"

text \<open>What follows \<open>client.Do\<close>: the body is read and dropped, the status checked.\<close>

definition answer_status :: "http_response result \<Rightarrow> string option" where
  "answer_status r =
     (case r of
        Inl e \<Rightarrow> Some e
      | Inr resp \<Rightarrow> if status resp \<noteq> 200 then Some (''HTTP '' @ dec (status resp)) else None)"

definition http_send ::
  "('tr, 'c, 'v) http_lib \<Rightarrow> 'tr \<Rightarrow> string \<Rightarrow> string \<Rightarrow> string \<Rightarrow> http_request result \<Rightarrow> 'v request_op" where
  "http_send lib tr addr user pass req v =
     (case req of
        Inl e \<Rightarrow> (Some e, v)
      | Inr r \<Rightarrow>
          (case hl_do lib tr addr (r\<lparr>auth_cred := set_basic_auth user pass\<rparr>) v of
             (resp, v1) \<Rightarrow> (answer_status resp, v1)))"

definition do_http_exec ::
  "(string \<Rightarrow> string) \<Rightarrow> ('tr, 'c, 'v) http_lib \<Rightarrow> 'tr \<Rightarrow> string \<Rightarrow> string \<Rightarrow> string \<Rightarrow> 'v request_op" where
  "do_http_exec parse_err lib tr addr user pass =
     http_send lib tr addr user pass (new_request parse_err ''GET'' ''/admin/exec/show+version'' [])"

definition do_proxy_post ::
  "(string \<Rightarrow> string) \<Rightarrow> ('tr, 'c, 'v) http_lib \<Rightarrow> 'tr \<Rightarrow> string \<Rightarrow> string \<Rightarrow> string \<Rightarrow> string \<Rightarrow> 'v request_op" where
  "do_proxy_post parse_err lib tr addr user pass payload =
     http_send lib tr addr user pass (new_request parse_err ''POST'' ''/admin/config'' payload)"

definition restconf_get ::
  "(string \<Rightarrow> string) \<Rightarrow> ('tr, 'c, 'v) http_lib \<Rightarrow> 'tr \<Rightarrow> string \<Rightarrow> string \<Rightarrow> string \<Rightarrow> string \<Rightarrow> string \<Rightarrow> 'v request_op" where
  "restconf_get parse_err lib tr addr user pass cmd accept =
     http_send lib tr addr user pass
       (map_sum id (\<lambda>r. r\<lparr>accept_hdr := accept\<rparr>) (new_request parse_err ''GET'' (command_to_path cmd) []))"

definition restconf_patch ::
  "(string \<Rightarrow> string) \<Rightarrow> ('tr, 'c, 'v) http_lib \<Rightarrow> 'tr \<Rightarrow> string \<Rightarrow> string \<Rightarrow> string \<Rightarrow> nat \<Rightarrow> 'v request_op" where
  "restconf_patch parse_err lib tr addr user pass cmds =
     http_send lib tr addr user pass
       (map_sum id (\<lambda>r. r\<lparr>content_hdr := ''application/yang-patch+json''\<rparr>)
         (new_request parse_err ''PATCH'' ''/restconf/data/'' (concat (replicate cmds (''show version'' @ [NL])))))"

text \<open>A command loop: up to the first error.\<close>

fun repeat_op :: "nat \<Rightarrow> 'v request_op \<Rightarrow> 'v request_op" where
  "repeat_op 0 f v = (None, v)"
| "repeat_op (Suc n) f v =
     (case f v of (Some e, v1) \<Rightarrow> (Some e, v1) | (None, v1) \<Rightarrow> repeat_op n f v1)"

section \<open>Modes\<close>

text \<open>
  What a mode needs besides the configuration: the library, the kind of its transports, their dial
  function, how its variable is read, and what is done with a transport in the end.
\<close>

record ('tr, 'c, 't, 'w) http_setup =
  hs_lib :: "('tr, 'c, ('w, 't) local) http_lib"
  hs_kind :: tr_kind
  hs_dial :: "('c, ('w, 't) local) dialer option"
  hs_counts :: "'t \<Rightarrow> 'w \<Rightarrow> conn"
  hs_after :: "'tr \<Rightarrow> ('w, 't) local \<Rightarrow> ('w, 't) local"

definition https_setup ::
  "('tr, 'c, ('w, 't) local) http_lib \<Rightarrow> ('t, 'c, 'w) net_lib \<Rightarrow> tr_kind \<Rightarrow> bool \<Rightarrow> ('tr, 'c, 't, 'w) http_setup" where
  "https_setup lib net kind appending = \<lparr>hs_lib = lib, hs_kind = kind, hs_dial = Some (tls_dial appending net),
     hs_counts = nl_counts net, hs_after = (\<lambda>tr v. v)\<rparr>"

definition restconf_setup ::
  "('tr, 'c, ('w, 't) local) http_lib \<Rightarrow> ('t, 'c, 'w) net_lib \<Rightarrow> tr_kind \<Rightarrow> ('tr, 'c, 't, 'w) http_setup" where
  "restconf_setup lib net kind = \<lparr>hs_lib = lib, hs_kind = kind, hs_dial = Some (tls_dial False net),
     hs_counts = nl_counts net, hs_after = hl_release lib\<rparr>"

definition http3_setup ::
  "('tr, 'c, ('w, 't) local) http_lib \<Rightarrow> ('t, 'c, 'w) udp_lib \<Rightarrow> tr_kind \<Rightarrow> ('tr, 'c, 't, 'w) http_setup" where
  "http3_setup lib udp kind = \<lparr>hs_lib = lib, hs_kind = kind, hs_dial = Some (h3_dial udp),
     hs_counts = ul_counts udp, hs_after = hl_release lib\<rparr>"

text \<open>
  A mode on one transport: a warm-up whose error is dropped, the iterations, and the end of the
  transport.
\<close>

definition http_shared_mode ::
  "bench_config \<Rightarrow> 'w bench_env \<Rightarrow> ('tr, 'c, 't, 'w) http_setup \<Rightarrow> ('tr \<Rightarrow> ('w, 't) local request_op) \<Rightarrow>
     ('tr \<Rightarrow> ('w, 't) local request_op) \<Rightarrow> 'w \<Rightarrow> ((int list \<times> iter_counts) \<times> 'w) option" where
  "http_shared_mode cf env hs warm work w = do {
     let (tr, v1) = hl_new (hs_lib hs) (hs_kind hs) (hs_dial hs) (w, []);
     let (_, v2) = warm tr v1;
     (tc, v3) \<leftarrow> run_mode cf env (shared_iter cf (local_env env) (last_conn (hs_counts hs)) (\<lambda>v. Some (work tr v))) v2;
     Some (tc, fst (hs_after hs tr v3))
   }"

text \<open>
  A mode with a transport per iteration. \<open>fails\<close> and \<open>record\<close> are what becomes of the transport
  after a failed command, and what of the variable is recorded after the last good one.
\<close>

definition http_fresh_iter ::
  "bench_config \<Rightarrow> 'w bench_env \<Rightarrow> ('tr, 'c, 't, 'w) http_setup \<Rightarrow> ('tr \<Rightarrow> ('w, 't) local \<Rightarrow> ('w, 't) local) \<Rightarrow>
     (nat \<Rightarrow> 'tr \<Rightarrow> iter_counts \<Rightarrow> ('w, 't) local \<Rightarrow> iter_counts \<times> ('w, 't) local) \<Rightarrow>
     ('tr \<Rightarrow> ('w, 't) local request_op) \<Rightarrow> 'w iteration" where
  "http_fresh_iter cf env hs fails record work idx st =
     (case st of (cnt, w) \<Rightarrow>
        let (snap, w1) = resource_snap cf env w;
            (start, w2) = be_now env w1;
            (tr, v1) = hl_new (hs_lib hs) (hs_kind hs) (hs_dial hs) (w2, []);
            (err, v2) = repeat_op (cf_commands cf) (work tr) v1
        in Some (case err of
             Some e \<Rightarrow> (err_duration, cnt, fst (fails tr v2))
           | None \<Rightarrow> (case record idx tr cnt v2 of (cnt1, v3) \<Rightarrow>
               since_start env start (resource_record cf env idx snap (cnt1, fst v3)))))"

definition record_last :: "('t \<Rightarrow> 'w \<Rightarrow> conn) \<Rightarrow> nat \<Rightarrow> iter_counts \<Rightarrow> ('w, 't) local \<Rightarrow> iter_counts" where
  "record_last counts idx cnt v = (case last_conn counts v of Some c \<Rightarrow> record_conn idx c cnt | None \<Rightarrow> cnt)"

definition record_last_packet :: "('t \<Rightarrow> 'w \<Rightarrow> conn) \<Rightarrow> nat \<Rightarrow> iter_counts \<Rightarrow> ('w, 't) local \<Rightarrow> iter_counts" where
  "record_last_packet counts idx cnt v = (case last_conn counts v of Some c \<Rightarrow> record_packet idx c cnt | None \<Rightarrow> cnt)"

text \<open>\<open>HTTPS\<close> records all connections; \<open>RESTCONF\<close> releases, then records the last; \<open>HTTP3\<close> records, then closes.\<close>

definition https_fresh_iter ::
  "bench_config \<Rightarrow> 'w bench_env \<Rightarrow> ('tr, 'c, 't, 'w) http_setup \<Rightarrow> ('tr \<Rightarrow> ('w, 't) local request_op) \<Rightarrow> 'w iteration" where
  "https_fresh_iter cf env hs = http_fresh_iter cf env hs (\<lambda>tr v. v)
     (\<lambda>idx tr cnt v. (record_conns idx (map (\<lambda>t. hs_counts hs t (fst v)) (snd v)) cnt, v))"

definition restconf_fresh_iter ::
  "bench_config \<Rightarrow> 'w bench_env \<Rightarrow> ('tr, 'c, 't, 'w) http_setup \<Rightarrow> ('tr \<Rightarrow> ('w, 't) local request_op) \<Rightarrow> 'w iteration" where
  "restconf_fresh_iter cf env hs = http_fresh_iter cf env hs (\<lambda>tr v. v)
     (\<lambda>idx tr cnt v. let v1 = hs_after hs tr v in (record_last (hs_counts hs) idx cnt v1, v1))"

definition http3_fresh_iter ::
  "bench_config \<Rightarrow> 'w bench_env \<Rightarrow> ('tr, 'c, 't, 'w) http_setup \<Rightarrow> ('tr \<Rightarrow> ('w, 't) local request_op) \<Rightarrow> 'w iteration" where
  "http3_fresh_iter cf env hs = http_fresh_iter cf env hs (hs_after hs)
     (\<lambda>idx tr cnt v. (record_last_packet (hs_counts hs) idx cnt v, hs_after hs tr v))"

section \<open>The drivers\<close>

definition multi_path :: "nat \<Rightarrow> string" where
  "multi_path n = join ''/'' (replicate n ''show+version'')"

definition https_multi_get ::
  "(string \<Rightarrow> string) \<Rightarrow> ('tr, 'c, 'v) http_lib \<Rightarrow> 'tr \<Rightarrow> bench_config \<Rightarrow> 'v request_op" where
  "https_multi_get parse_err lib tr cf =
     http_send lib tr (cf_addr cf) (cf_user cf) (cf_pass cf)
       (new_request parse_err ''GET'' (''/admin/exec/'' @ multi_path (cf_commands cf)) [])"

definition https_bench ::
  "(string \<Rightarrow> string) \<Rightarrow> bench_config \<Rightarrow> 'w bench_env \<Rightarrow> ('tr, 'c, ('w, 't) local) http_lib \<Rightarrow>
     ('t, 'c, 'w) net_lib \<Rightarrow> 'w \<Rightarrow> (bench_result list \<times> 'w) option" where
  "https_bench parse_err cf env lib net w = do {
     let get = (\<lambda>tr. do_http_exec parse_err lib tr (cf_addr cf) (cf_user cf) (cf_pass cf));
     let post = (\<lambda>tr. do_proxy_post parse_err lib tr (cf_addr cf) (cf_user cf) (cf_pass cf)
                        (generate_exec_payload (cf_commands cf)));
     let keep = https_setup lib net KeepAlive False;
     (fresh, w1) \<leftarrow> run_mode cf env (https_fresh_iter cf env (https_setup lib net NoKeepAlive True) get) (pkt_reset cf env w);
     (reuse, w2) \<leftarrow> http_shared_mode cf env keep get (\<lambda>tr. repeat_op (cf_commands cf) (get tr)) (pkt_reset cf env w1);
     (batch, w3) \<leftarrow> http_shared_mode cf env keep get post (pkt_reset cf env w2);
     let first = [summarize_mode cf env ''https'' ''fresh-conn'' fresh w3,
                  summarize_mode cf env ''https'' ''keep-alive'' reuse w3,
                  summarize_mode cf env ''https'' ''batch-post'' batch w3];
     let w4 = pkt_reset cf env w3;
     (if cf_commands cf > 1
      then do {
        (multi, w5) \<leftarrow> http_shared_mode cf env keep get (\<lambda>tr. https_multi_get parse_err lib tr cf) w4;
        Some (first @ [summarize_mode cf env ''https'' ''multi-cmd'' multi w5], w5)
      }
      else Some (first, w4))
   }"

definition restconf_bench ::
  "(string \<Rightarrow> string) \<Rightarrow> bench_config \<Rightarrow> 'w bench_env \<Rightarrow> ('tr, 'c, ('w, 't) local) http_lib \<Rightarrow>
     ('t, 'c, 'w) net_lib \<Rightarrow> 'w \<Rightarrow> (bench_result list \<times> 'w) option" where
  "restconf_bench parse_err cf env lib net w = do {
     let get = (\<lambda>accept tr. restconf_get parse_err lib tr (cf_addr cf) (cf_user cf) (cf_pass cf) ''show version'' accept);
     let patch = (\<lambda>tr. restconf_patch parse_err lib tr (cf_addr cf) (cf_user cf) (cf_pass cf) (cf_commands cf));
     let keep = restconf_setup lib net KeepAlive;
     (fresh, w1) \<leftarrow> run_mode cf env (restconf_fresh_iter cf env (restconf_setup lib net NoKeepAlive) (get json_type)) (pkt_reset cf env w);
     (reuse, w2) \<leftarrow> http_shared_mode cf env keep (get json_type) (\<lambda>tr. repeat_op (cf_commands cf) (get json_type tr)) (pkt_reset cf env w1);
     (batch, w3) \<leftarrow> http_shared_mode cf env keep (get json_type) patch (pkt_reset cf env w2);
     (xml, w4) \<leftarrow> http_shared_mode cf env keep (get xml_type) (\<lambda>tr. repeat_op (cf_commands cf) (get xml_type tr)) (pkt_reset cf env w3);
     Some ([summarize_mode cf env ''restconf'' ''fresh-conn'' fresh w4,
            summarize_mode cf env ''restconf'' ''keep-alive'' reuse w4,
            summarize_mode cf env ''restconf'' ''batch-patch'' batch w4,
            summarize_mode cf env ''restconf'' ''json-vs-xml'' xml w4], w4)
   }"

text \<open>
  The fourth mode warms the session cache with a transport of its own, which dials by itself; its
  error is only logged.
\<close>

definition http3_zero_rtt ::
  "bench_config \<Rightarrow> 'w bench_env \<Rightarrow> ('tr, 'c, ('w, 't) local) http_lib \<Rightarrow> ('t, 'c, 'w) udp_lib \<Rightarrow>
     ('tr \<Rightarrow> ('w, 't) local request_op) \<Rightarrow> 'w \<Rightarrow> ((int list \<times> iter_counts) \<times> 'w) option" where
  "http3_zero_rtt cf env lib udp get w =
     (let (warm_tr, v1) = hl_new lib Http3Cached None (w, []);
          (_, v2) = get warm_tr v1;
          w1 = be_sleep env 50000000 (fst (hl_release lib warm_tr v2))
      in run_mode cf env (http3_fresh_iter cf env (http3_setup lib udp Http3ZeroRtt) get) w1)"

definition http3_bench ::
  "(string \<Rightarrow> string) \<Rightarrow> bench_config \<Rightarrow> 'w bench_env \<Rightarrow> ('tr, 'c, ('w, 't) local) http_lib \<Rightarrow>
     ('t, 'c, 'w) udp_lib \<Rightarrow> 'w \<Rightarrow> (bench_result list \<times> 'w) option" where
  "http3_bench parse_err cf env lib udp w = do {
     let get = (\<lambda>tr. do_http_exec parse_err lib tr (cf_addr cf) (cf_user cf) (cf_pass cf));
     let post = (\<lambda>tr. do_proxy_post parse_err lib tr (cf_addr cf) (cf_user cf) (cf_pass cf)
                        (generate_exec_payload (cf_commands cf)));
     let h3 = http3_setup lib udp Http3;
     (fresh, w1) \<leftarrow> run_mode cf env (http3_fresh_iter cf env h3 get) (pkt_reset cf env w);
     (reuse, w2) \<leftarrow> http_shared_mode cf env h3 get (\<lambda>tr. repeat_op (cf_commands cf) (get tr)) (pkt_reset cf env w1);
     (batch, w3) \<leftarrow> http_shared_mode cf env h3 get post (pkt_reset cf env w2);
     let first = [summarize_mode cf env ''http3'' ''fresh-conn'' fresh w3,
                  summarize_mode cf env ''http3'' ''keep-alive'' reuse w3,
                  summarize_mode cf env ''http3'' ''batch-post'' batch w3];
     (zero, w4) \<leftarrow> http3_zero_rtt cf env lib udp get (pkt_reset cf env w3);
     Some (first @ [summarize_mode cf env ''http3'' ''0rtt-resumption'' zero w4], w4)
   }"

section \<open>What an iteration on fresh connections counts\<close>

text \<open>
  An iteration that dialled several connections has the trips of all of them recorded by
  \<open>HTTPS\<close>, and those of the last one only by \<open>RESTCONF\<close>.
\<close>

lemma all_conns_counted:
  assumes "idx < length (ic_trips cnt)" "ic_trips cnt ! idx = 0"
  shows "ic_trips (record_conns idx (map (\<lambda>t. counts t w) ts) cnt) ! idx = sum_list (map (\<lambda>t. int (trips (counts t w))) ts)"
  using assms by (simp add: record_conns_sum comp_def)

lemma last_conn_counted:
  assumes "idx < length (ic_trips cnt)"
  shows "ic_trips (record_last counts idx cnt (w, ts @ [t])) ! idx = int (trips (counts t w))"
  using assms by (simp add: record_last_def last_conn_def record_conn_def store_counts_def counts_of_def)

end
