(* ===== verification/BenchGnmi.thy ===== *)
theory BenchGnmi
  imports BenchHttp GnmiServer
begin

text \<open>
  The gNMI driver, \<open>internal/bench/gnmi.go\<close>. The gRPC library is a record of operations; its
  calls have no time-out, so one that never returns is \<open>None\<close>. The dial function given to it is
  modelled; its variable holds the last connection, as in \<open>BenchHttp\<close>. Messages are reduced as in
  \<open>GnmiServer\<close>; the encoding and the empty values of a Set are left out.
\<close>

record ('c, 's, 't, 'v) grpc_lib =
  gl_client :: "string \<Rightarrow> ('t, 'v) dialer \<Rightarrow> 'v \<Rightarrow> 'c result \<times> 'v"
  gl_get :: "'c \<Rightarrow> gnmi_path list \<Rightarrow> 'v \<Rightarrow> (get_response result \<times> 'v) option"
  gl_set :: "'c \<Rightarrow> set_request \<Rightarrow> 'v \<Rightarrow> (unit result \<times> 'v) option"
  gl_subscribe :: "'c \<Rightarrow> 'v \<Rightarrow> ('s result \<times> 'v) option"
  gl_send :: "'s \<Rightarrow> gnmi_path list \<Rightarrow> 'v \<Rightarrow> (string option \<times> 'v) option"
  gl_recv :: "'s \<Rightarrow> 'v \<Rightarrow> (subscribe_response result \<times> 'v) option"
  gl_close_send :: "'s \<Rightarrow> 'v \<Rightarrow> 'v"
  gl_close :: "'c \<Rightarrow> 'v \<Rightarrow> 'v"

type_synonym 'v rpc = "'v \<Rightarrow> (string option \<times> 'v) option"

section \<open>Calls\<close>

definition gnmi_paths :: "nat \<Rightarrow> gnmi_path list" where
  "gnmi_paths n = replicate n (cmd_to_path ''show version'')"

text \<open>The context dialer of \<open>gnmiDialOpts\<close>.\<close>

definition gnmi_dial :: "('t, 'c, 'w) net_lib \<Rightarrow> ('t, ('w, 't) local) dialer" where
  "gnmi_dial net addr v =
     (case v of (w, conns) \<Rightarrow>
        (case nl_dial net addr w of
           (Inl e, w1) \<Rightarrow> (Inl e, (w1, conns))
         | (Inr tc, w1) \<Rightarrow> (Inr tc, (w1, [tc]))))"

definition error_of :: "'a result \<Rightarrow> string option" where
  "error_of r = (case r of Inl e \<Rightarrow> Some e | Inr _ \<Rightarrow> None)"

definition gnmi_call_get :: "('c, 's, 't, 'v) grpc_lib \<Rightarrow> gnmi_path list \<Rightarrow> 'c \<Rightarrow> 'v rpc" where
  "gnmi_call_get lib paths c v = do { (r, v1) \<leftarrow> gl_get lib c paths v; Some (error_of r, v1) }"

fun gnmi_get_each :: "('c, 's, 't, 'v) grpc_lib \<Rightarrow> gnmi_path list \<Rightarrow> 'c \<Rightarrow> 'v rpc" where
  "gnmi_get_each lib [] c v = Some (None, v)"
| "gnmi_get_each lib (path # paths) c v = do {
     (err, v1) \<leftarrow> gnmi_call_get lib [path] c v;
     (case err of Some e \<Rightarrow> Some (Some e, v1) | None \<Rightarrow> gnmi_get_each lib paths c v1)
   }"

definition gnmi_call_set :: "('c, 's, 't, 'v) grpc_lib \<Rightarrow> gnmi_path list \<Rightarrow> 'c \<Rightarrow> 'v rpc" where
  "gnmi_call_set lib paths c v = do {
     (r, v1) \<leftarrow> gl_set lib c \<lparr>set_update = paths, set_replace = []\<rparr> v;
     Some (error_of r, v1)
   }"

text \<open>Responses are read until one that is a true sync response.\<close>

partial_function (option) gnmi_recv :: "('s \<Rightarrow> 'v \<Rightarrow> (subscribe_response result \<times> 'v) option) \<Rightarrow> 's \<Rightarrow> 'v rpc" where
  "gnmi_recv recv s v =
     (case recv s v of
        None \<Rightarrow> None
      | Some (Inl e, v1) \<Rightarrow> Some (Some e, v1)
      | Some (Inr resp, v1) \<Rightarrow> if resp = SyncResponse True then Some (None, v1) else gnmi_recv recv s v1)"

definition gnmi_call_subscribe :: "('c, 's, 't, 'v) grpc_lib \<Rightarrow> gnmi_path list \<Rightarrow> 'c \<Rightarrow> 'v rpc" where
  "gnmi_call_subscribe lib paths c v = do {
     (r, v1) \<leftarrow> gl_subscribe lib c v;
     (case r of
        Inl e \<Rightarrow> Some (Some e, v1)
      | Inr s \<Rightarrow> do {
          (err, v2) \<leftarrow> gl_send lib s paths v1;
          (case err of
             Some e \<Rightarrow> Some (Some e, v2)
           | None \<Rightarrow> do {
               (err, v3) \<leftarrow> gnmi_recv (gl_recv lib) s v2;
               Some (err, case err of Some e \<Rightarrow> v3 | None \<Rightarrow> gl_close_send lib s v3)
             })
        })
   }"

section \<open>Modes\<close>

definition gnmi_fresh_iter ::
  "bench_config \<Rightarrow> 'w bench_env \<Rightarrow> ('c, 's, 't, ('w, 't) local) grpc_lib \<Rightarrow> ('t, 'k, 'w) net_lib \<Rightarrow> 'w iteration" where
  "gnmi_fresh_iter cf env lib net idx st =
     (case st of (cnt, w) \<Rightarrow>
        let (snap, w1) = resource_snap cf env w;
            (start, w2) = be_now env w1
        in case gl_client lib (cf_addr cf) (gnmi_dial net) (w2, []) of
             (Inl e, v1) \<Rightarrow> Some (err_duration, cnt, fst v1)
           | (Inr c, v1) \<Rightarrow> do {
               (err, v2) \<leftarrow> gnmi_call_get lib (gnmi_paths (cf_commands cf)) c v1;
               let v3 = gl_close lib c v2;
               Some (case err of
                  Some e \<Rightarrow> (err_duration, cnt, fst v3)
                | None \<Rightarrow> since_start env start (resource_record cf env idx snap
                    (record_last (nl_counts net) idx cnt v3, fst v3)))
             })"

text \<open>A mode on one client; no results when it cannot be made.\<close>

definition gnmi_shared_mode ::
  "bench_config \<Rightarrow> 'w bench_env \<Rightarrow> ('c, 's, 't, ('w, 't) local) grpc_lib \<Rightarrow> ('t, 'k, 'w) net_lib \<Rightarrow>
     ('c \<Rightarrow> ('w, 't) local rpc) \<Rightarrow> 'w \<Rightarrow> ((int list \<times> iter_counts) option \<times> 'w) option" where
  "gnmi_shared_mode cf env lib net work w =
     (case gl_client lib (cf_addr cf) (gnmi_dial net) (w, []) of
        (Inl e, v1) \<Rightarrow> Some (None, fst v1)
      | (Inr c, v1) \<Rightarrow> do {
          (_, v2) \<leftarrow> gnmi_call_get lib (gnmi_paths 1) c v1;
          (tc, v3) \<leftarrow> run_mode cf env (shared_iter cf (local_env env) (last_conn (nl_counts net)) (work c)) v2;
          Some (Some tc, fst (gl_close lib c v3))
        })"

fun gnmi_modes ::
  "bench_config \<Rightarrow> 'w bench_env \<Rightarrow> ('c, 's, 't, ('w, 't) local) grpc_lib \<Rightarrow> ('t, 'k, 'w) net_lib \<Rightarrow>
     (string \<times> ('c \<Rightarrow> ('w, 't) local rpc)) list \<Rightarrow> (string \<times> (int list \<times> iter_counts)) list \<Rightarrow>
     'w \<Rightarrow> ((string \<times> (int list \<times> iter_counts)) list \<times> 'w) option" where
  "gnmi_modes cf env lib net [] acc w = Some (acc, w)"
| "gnmi_modes cf env lib net ((op, work) # modes) acc w = do {
     (r, w1) \<leftarrow> gnmi_shared_mode cf env lib net work (pkt_reset cf env w);
     (case r of None \<Rightarrow> Some (acc, w1) | Some tc \<Rightarrow> gnmi_modes cf env lib net modes (acc @ [(op, tc)]) w1)
   }"

definition gnmi_bench ::
  "bench_config \<Rightarrow> 'w bench_env \<Rightarrow> ('c, 's, 't, ('w, 't) local) grpc_lib \<Rightarrow> ('t, 'k, 'w) net_lib \<Rightarrow>
     'w \<Rightarrow> (bench_result list \<times> 'w) option" where
  "gnmi_bench cf env lib net w = do {
     let paths = gnmi_paths (cf_commands cf);
     (fresh, w1) \<leftarrow> run_mode cf env (gnmi_fresh_iter cf env lib net) (pkt_reset cf env w);
     (rows, w2) \<leftarrow> gnmi_modes cf env lib net
        [(''reuse-stream'', gnmi_get_each lib paths), (''batch-set'', gnmi_call_set lib paths),
         (''subscribe-once'', gnmi_call_subscribe lib paths)]
        [(''fresh-conn'', fresh)] w1;
     Some (map (\<lambda>(op, tc). summarize_mode cf env ''gnmi'' op tc w2) rows, w2)
   }"

section \<open>Reading a subscription\<close>

text \<open>
  Against a stream that holds what the server sends for a successful subscription, the loop
  consumes exactly that and returns without an error.
\<close>

definition stream_recv :: "unit \<Rightarrow> subscribe_response list \<Rightarrow> (subscribe_response result \<times> subscribe_response list) option" where
  "stream_recv u rs = (case rs of [] \<Rightarrow> Some (Inl ''EOF'', []) | r # rs' \<Rightarrow> Some (Inr r, rs'))"

lemma stream_recv_Cons: "stream_recv u (r # rs) = Some (Inr r, rs)"
  by (simp add: stream_recv_def)

lemma gnmi_recv_stream:
  assumes "SyncResponse True \<notin> set rs"
  shows "gnmi_recv stream_recv () (rs @ SyncResponse True # rest) = Some (None, rest)"
  using assms
proof (induction rs)
  case (Cons r rs)
  then show ?case by (subst gnmi_recv.simps) (auto simp: stream_recv_Cons)
qed (subst gnmi_recv.simps, simp add: stream_recv_Cons)

lemma subscribe_loop_shape:
  "subscribe_loop dev sends k paths = (rs, None) \<Longrightarrow> \<exists>us. rs = us @ [SyncResponse True] \<and> SyncResponse True \<notin> set us"
proof (induction paths arbitrary: k rs)
  case (Cons p paths)
  then obtain rs' where 1: "subscribe_loop dev sends (Suc k) paths = (rs', None)"
    "rs = Update p (exec dev (path_to_cmd p)) # rs'"
    by (auto split: option.splits prod.splits)
  obtain us where "rs' = us @ [SyncResponse True]" "SyncResponse True \<notin> set us" using Cons.IH[OF 1(1)] by blast
  then show ?case using 1(2) by (intro exI[of _ "Update p (exec dev (path_to_cmd p)) # us"]) simp
qed (auto split: option.splits)

lemma gnmi_client_reads_subscription:
  assumes "subscribe dev sends (Inr (Some paths)) = (rs, None)"
  shows "gnmi_recv stream_recv () rs = Some (None, [])"
  using subscribe_loop_shape[of dev sends 0 paths rs] assms gnmi_recv_stream[of _ "[]"]
  by (auto simp: subscribe_def)

end
