(* ===== verification/Sweep.thy ===== *)
theory Sweep
  imports BenchNetconf BenchGnmi
begin

text \<open>
  The concurrency sweep, \<open>internal/bench/scale.go\<close>: for each level, open that many connections,
  hold them, run the workload on all of them, close them.

  The goroutines that open run the same function; the ones that execute run in any order, which
  is the argument \<open>sched\<close>. An opening or a workload counts as one step, as an iteration does in
  \<open>RunParallel\<close>. The workload of a held connection runs once: the message counter that a
  NETCONF connection keeps between runs starts at 0.
\<close>

section \<open>Held connections\<close>

record 'w sweep_conn =
  sw_exec :: "'w \<Rightarrow> (string option \<times> 'w) option"
  sw_close :: "'w \<Rightarrow> 'w"

type_synonym 'w opener = "bench_config \<Rightarrow> 'w \<Rightarrow> ('w sweep_conn result \<times> 'w) option"

definition open_ssh :: "('t, 'c, 's, 'w) ssh_lib \<Rightarrow> 'w opener" where
  "open_ssh lib cf w = do {
     (r, w1) \<leftarrow> ssh_dial_counted lib (cf_addr cf) (cf_user cf) (cf_pass cf) w;
     Some (map_sum id (\<lambda>(c, cc). \<lparr>sw_exec = exec_shows lib (cf_commands cf) c, sw_close = sl_close lib c\<rparr>) r, w1)
   }"

text \<open>A transport of its own, warmed up by one request; released if that fails.\<close>

definition open_http ::
  "('tr, 'c, ('w, 't) local) http_lib \<Rightarrow> tr_kind \<Rightarrow> (bench_config \<Rightarrow> 'tr \<Rightarrow> ('w, 't) local request_op) \<Rightarrow> 'w opener" where
  "open_http lib kind get cf w =
     (let (tr, v1) = hl_new lib kind None (w, []);
          (err, v2) = get cf tr v1
      in Some (case err of
           Some e \<Rightarrow> (Inl e, fst (hl_release lib tr v2))
         | None \<Rightarrow> (Inr \<lparr>
             sw_exec = (\<lambda>w. case repeat_op (cf_commands cf) (get cf tr) (w, snd v2) of (err, v) \<Rightarrow> Some (err, fst v)),
             sw_close = (\<lambda>w. fst (hl_release lib tr (w, snd v2)))\<rparr>, fst v2)))"

definition open_https :: "(string \<Rightarrow> string) \<Rightarrow> ('tr, 'c, ('w, 't) local) http_lib \<Rightarrow> 'w opener" where
  "open_https parse_err lib =
     open_http lib OneIdle (\<lambda>cf tr. do_http_exec parse_err lib tr (cf_addr cf) (cf_user cf) (cf_pass cf))"

definition open_http3 :: "(string \<Rightarrow> string) \<Rightarrow> ('tr, 'c, ('w, 't) local) http_lib \<Rightarrow> 'w opener" where
  "open_http3 parse_err lib =
     open_http lib Http3 (\<lambda>cf tr. do_http_exec parse_err lib tr (cf_addr cf) (cf_user cf) (cf_pass cf))"

definition open_restconf :: "(string \<Rightarrow> string) \<Rightarrow> ('tr, 'c, ('w, 't) local) http_lib \<Rightarrow> 'w opener" where
  "open_restconf parse_err lib =
     open_http lib OneIdle (\<lambda>cf tr. restconf_get parse_err lib tr (cf_addr cf) (cf_user cf) (cf_pass cf) ''show version'' json_type)"

definition open_gnmi :: "('c, 's, 't, ('w, 't) local) grpc_lib \<Rightarrow> ('t, 'k, 'w) net_lib \<Rightarrow> 'w opener" where
  "open_gnmi lib net cf w =
     (case gl_client lib (cf_addr cf) (gnmi_dial net) (w, []) of
        (Inl e, v1) \<Rightarrow> Some (Inl e, fst v1)
      | (Inr c, v1) \<Rightarrow> do {
          (err, v2) \<leftarrow> gnmi_call_get lib (gnmi_paths 1) c v1;
          Some (case err of
             Some e \<Rightarrow> (Inl e, fst (gl_close lib c v2))
           | None \<Rightarrow> (Inr \<lparr>
               sw_exec = (\<lambda>w. map_option (map_prod id fst) (gnmi_call_get lib (gnmi_paths (cf_commands cf)) c (w, snd v2))),
               sw_close = (\<lambda>w. fst (gl_close lib c (w, snd v2)))\<rparr>, fst v2))
        })"

definition open_netconf :: "('t, 'c, 's, 'w) netconf_lib \<Rightarrow> 'w opener" where
  "open_netconf lib cf w = do {
     (r, w1) \<leftarrow> netconf_dial lib (cf_addr cf) (cf_user cf) (cf_pass cf) w;
     Some (map_sum id (\<lambda>(c, s, cc). \<lparr>
       sw_exec = (\<lambda>w. map_option (map_prod id fst) (nc_gets lib s (cf_commands cf) (w, 0))),
       sw_close = netconf_cleanup lib c s\<rparr>) r, w1)
   }"

definition sweep_openers ::
  "'w opener \<Rightarrow> 'w opener \<Rightarrow> 'w opener \<Rightarrow> 'w opener \<Rightarrow> 'w opener \<Rightarrow> 'w opener \<Rightarrow> string \<Rightarrow> 'w opener option" where
  "sweep_openers ssh https gnmi http3 netconf restconf = map_of
     [(''ssh'', ssh), (''https'', https), (''gnmi'', gnmi), (''http3'', http3), (''netconf'', netconf),
      (''restconf'', restconf)]"

section \<open>One level\<close>

record 'w sweep_env = "'w bench_env" +
  se_gc :: "'w \<Rightarrow> 'w"

definition live_heap :: "'w bench_env \<Rightarrow> 'w \<Rightarrow> int \<times> 'w" where
  "live_heap env w = (case be_usage env w of ((stat, mallocs, totalb, inuse), w1) \<Rightarrow> (inuse, w1))"

text \<open>The connections opened, in order, and the number of failures.\<close>

fun open_all :: "'w opener \<Rightarrow> bench_config \<Rightarrow> nat \<Rightarrow> 'w sweep_conn list \<times> nat \<Rightarrow> 'w \<Rightarrow> (('w sweep_conn list \<times> nat) \<times> 'w) option" where
  "open_all op cf 0 st w = Some (st, w)"
| "open_all op cf (Suc n) (conns, errs) w = do {
     (r, w1) \<leftarrow> op cf w;
     open_all op cf n (case r of Inl e \<Rightarrow> (conns, errs + 1) | Inr sc \<Rightarrow> (conns @ [sc], errs)) w1
   }"

definition exec_held :: "'w bench_env \<Rightarrow> 'w sweep_conn list \<Rightarrow> nat \<Rightarrow> 'w \<Rightarrow> (int \<times> 'w) option" where
  "exec_held env conns idx w = do {
     let (t0, w1) = be_now env w;
     (err, w2) \<leftarrow> sw_exec (conns ! idx) w1;
     Some (case err of
        Some e \<Rightarrow> (err_duration, w2)
      | None \<Rightarrow> (case be_now env w2 of (now, w3) \<Rightarrow> (now - t0, w3)))
   }"

definition close_all :: "'w sweep_conn list \<Rightarrow> 'w \<Rightarrow> 'w" where
  "close_all conns w = fold sw_close conns w"

text \<open>The row of the times of the held connections.\<close>

definition sweep_row ::
  "string \<Rightarrow> bench_config \<Rightarrow> 'w bench_env \<Rightarrow> nat \<Rightarrow> int list \<Rightarrow> f64 \<Rightarrow> f64 \<Rightarrow> f64 \<Rightarrow> 'w \<Rightarrow> bench_result" where
  "sweep_row transport cf env n per_conn setup_ms wall_ms live_mb w =
     (let r0 = summarize \<lparr>sc_transport = transport, sc_operation = ''sweep'', sc_commands = int (cf_commands cf),
            sc_iterations = int (length per_conn), sc_concurrency = int n, sc_profile = cf_profile cf,
            sc_rtt_ms = cf_rtt_ms cf, sc_jitter_ms = cf_jitter_ms cf, sc_loss_pct = cf_loss_pct cf,
            sc_times = per_conn, sc_counts = make_counters cf\<rparr>;
          r1 = (if cf_pkt_counter cf
                then r0\<lparr>r_packets_in := int (fst (be_pkt_snapshot env w)), r_packets_out := int (snd (be_pkt_snapshot env w))\<rparr>
                else r0);
          ops = (int (length per_conn) - r_errors r1) * int (cf_commands cf);
          r2 = r1\<lparr>r_sweep_n := int n, r_setup_ms := setup_ms, r_wall_ms := wall_ms, r_live_heap_mb := live_mb\<rparr>
      in if wall_ms > 0 then r2\<lparr>r_ops_per_sec := fdiv (f64_of_int ops) (fdiv wall_ms 1000)\<rparr> else r2)"

definition sweep_level ::
  "string \<Rightarrow> bench_config \<Rightarrow> nat \<Rightarrow> 'w opener \<Rightarrow> 'w sweep_env \<Rightarrow> (nat \<Rightarrow> nat list) \<Rightarrow> 'w \<Rightarrow> (bench_result \<times> 'w) option" where
  "sweep_level transport cf n op senv sched w = do {
     let env = bench_env.truncate senv;
     let (base, w1) = live_heap env (se_gc senv (pkt_reset cf env w));
     let (start, w2) = be_now env w1;
     ((conns, errs), w3) \<leftarrow> open_all op cf n ([], 0) w2;
     let (ready, w4) = be_now env w3;
     let setup_ms = ms_of (ready - start);
     let (peak, w5) = live_heap env w4;
     let live_mb = (if peak > base then fdiv (f64_of_int (peak - base)) 1048576 else 0);
     (if conns = []
      then Some ((summarize_mode cf env transport ''sweep'' ([err_duration], make_counters cf) w5)
             \<lparr>r_sweep_n := int n, r_setup_ms := setup_ms\<rparr>, w5)
      else do {
        let (wall, w6) = be_now env w5;
        (per_conn, w7) \<leftarrow> run_order (exec_held env conns) (sched (length conns)) (replicate (length conns) 0) w6;
        let (finished, w8) = be_now env w7;
        Some (sweep_row transport cf env n per_conn setup_ms (ms_of (finished - wall)) live_mb w8, close_all conns w8)
      })
   }"

fun sweep_levels ::
  "string \<Rightarrow> bench_config \<Rightarrow> int list \<Rightarrow> 'w opener \<Rightarrow> 'w sweep_env \<Rightarrow> (nat \<Rightarrow> nat list) \<Rightarrow>
     'w \<Rightarrow> (bench_result list \<times> 'w) option" where
  "sweep_levels transport cf [] op senv sched w = Some ([], w)"
| "sweep_levels transport cf (n # ns) op senv sched w =
     (if n < 1 then sweep_levels transport cf ns op senv sched w
      else do {
        (r, w1) \<leftarrow> sweep_level transport cf (nat n) op senv sched w;
        (rs, w2) \<leftarrow> sweep_levels transport cf ns op senv sched w1;
        Some (r # rs, w2)
      })"

text \<open>An unknown transport gives no results.\<close>

definition sweep ::
  "(string \<Rightarrow> 'w opener option) \<Rightarrow> string \<Rightarrow> bench_config \<Rightarrow> int list \<Rightarrow> 'w sweep_env \<Rightarrow> (nat \<Rightarrow> nat list) \<Rightarrow>
     'w \<Rightarrow> (bench_result list \<times> 'w) option" where
  "sweep openers transport cf levels senv sched w =
     (case openers transport of
        None \<Rightarrow> Some ([], w)
      | Some op \<Rightarrow> sweep_levels transport cf levels op senv sched w)"

section \<open>Rows\<close>

lemma sweep_row_fields:
  "r_transport (sweep_row tr cf env n per_conn a b c w) = tr"
  "r_sweep_n (sweep_row tr cf env n per_conn a b c w) = int n"
  "r_iterations (sweep_row tr cf env n per_conn a b c w) = int (length per_conn)"
  "r_errors (sweep_row tr cf env n per_conn a b c w) = int (count_list per_conn err_duration)"
proof -
  note d = sweep_row_def Let_def summarize_errors
  show "r_sweep_n (sweep_row tr cf env n per_conn a b c w) = int n"
    "r_errors (sweep_row tr cf env n per_conn a b c w) = int (count_list per_conn err_duration)"
    by (simp_all add: d)
  show "r_transport (sweep_row tr cf env n per_conn a b c w) = tr"
    "r_iterations (sweep_row tr cf env n per_conn a b c w) = int (length per_conn)"
    by (simp_all add: d) (simp_all add: summarize_def Let_def split: prod.split)
qed

lemma open_all_counts:
  "open_all op cf n (conns, errs) w = Some ((conns', errs'), w') \<Longrightarrow> length conns' + errs' = length conns + errs + n"
  by (induction n arbitrary: conns errs w) (fastforce elim!: bind_SomeE split: sum.splits)+

text \<open>The stages of a level.\<close>

lemma sweep_level_stages:
  assumes "sweep_level tr cf n op senv sched w = Some (r, w')"
  obtains base w1 start w2 conns errs w3 ready w4 peak w5 where
    "live_heap (bench_env.truncate senv) (se_gc senv (pkt_reset cf (bench_env.truncate senv) w)) = (base, w1)"
    "be_now (bench_env.truncate senv) w1 = (start, w2)" "open_all op cf n ([], 0) w2 = Some ((conns, errs), w3)"
    "be_now (bench_env.truncate senv) w3 = (ready, w4)" "live_heap (bench_env.truncate senv) w4 = (peak, w5)"
    "conns = [] \<Longrightarrow> w' = w5 \<and> r = (summarize_mode cf (bench_env.truncate senv) tr ''sweep'' ([err_duration], make_counters cf) w5)
       \<lparr>r_sweep_n := int n, r_setup_ms := ms_of (ready - start)\<rparr>"
    "conns \<noteq> [] \<Longrightarrow> \<exists>wall w6 per_conn w7 fin w8 heap. be_now (bench_env.truncate senv) w5 = (wall, w6)
       \<and> run_order (exec_held (bench_env.truncate senv) conns) (sched (length conns)) (replicate (length conns) 0) w6 = Some (per_conn, w7)
       \<and> be_now (bench_env.truncate senv) w7 = (fin, w8) \<and> w' = close_all conns w8
       \<and> r = sweep_row tr cf (bench_env.truncate senv) n per_conn (ms_of (ready - start)) (ms_of (fin - wall)) heap w8"
proof -
  let ?env = "bench_env.truncate senv"
  obtain base w1 where 1: "live_heap ?env (se_gc senv (pkt_reset cf ?env w)) = (base, w1)"
    by (cases "live_heap ?env (se_gc senv (pkt_reset cf ?env w))")
  obtain start w2 where 2: "be_now ?env w1 = (start, w2)" by (cases "be_now ?env w1")
  obtain conns errs w3 where 3: "open_all op cf n ([], 0) w2 = Some ((conns, errs), w3)"
    using assms 1 2 by (auto simp: sweep_level_def Let_def elim!: bind_SomeE)
  obtain ready w4 where 4: "be_now ?env w3 = (ready, w4)" by (cases "be_now ?env w3")
  obtain peak w5 where 5: "live_heap ?env w4 = (peak, w5)" by (cases "live_heap ?env w4")
  obtain wall w6 where 6: "be_now ?env w5 = (wall, w6)" by (cases "be_now ?env w5")
  show thesis
  proof (rule that[OF 1 2 3 4 5])
    assume "conns = []"
    then show "w' = w5 \<and> r = (summarize_mode cf ?env tr ''sweep'' ([err_duration], make_counters cf) w5)
       \<lparr>r_sweep_n := int n, r_setup_ms := ms_of (ready - start)\<rparr>"
      using assms 1 2 3 4 5 by (auto simp: sweep_level_def Let_def)
  next
    assume ne: "conns \<noteq> []"
    obtain per_conn w7 where 7: "run_order (exec_held ?env conns) (sched (length conns)) (replicate (length conns) 0) w6 = Some (per_conn, w7)"
      using assms 1 2 3 4 5 6 ne by (auto simp: sweep_level_def Let_def elim!: bind_SomeE)
    obtain fin w8 where 8: "be_now ?env w7 = (fin, w8)" by (cases "be_now ?env w7")
    show "\<exists>wall w6 per_conn w7 fin w8 heap. be_now ?env w5 = (wall, w6)
       \<and> run_order (exec_held ?env conns) (sched (length conns)) (replicate (length conns) 0) w6 = Some (per_conn, w7)
       \<and> be_now ?env w7 = (fin, w8) \<and> w' = close_all conns w8
       \<and> r = sweep_row tr cf ?env n per_conn (ms_of (ready - start)) (ms_of (fin - wall)) heap w8"
      using assms 1 2 3 4 5 6 7 8 ne by (auto simp: sweep_level_def Let_def)
  qed
qed

text \<open>
  A row tells the level, how many connections were opened (at most the level), and of those how
  many failed to execute. When none was opened it has one error, whatever the level.
\<close>

lemma sweep_level_row:
  assumes "sweep_level tr cf n op senv sched w = Some (r, w')"
  shows "r_sweep_n r = int n" "r_transport r = tr"
    and "(r_iterations r \<le> int n \<and> r_errors r \<le> r_iterations r)
      \<or> (r_iterations r = int (cf_iterations cf) \<and> r_errors r = 1)"
proof -
  obtain base w1 start w2 conns errs w3 ready w4 peak w5 where s:
    "open_all op cf n ([], 0) w2 = Some ((conns, errs), w3)"
    "conns = [] \<Longrightarrow> w' = w5 \<and> r = (summarize_mode cf (bench_env.truncate senv) tr ''sweep'' ([err_duration], make_counters cf) w5)
       \<lparr>r_sweep_n := int n, r_setup_ms := ms_of (ready - start)\<rparr>"
    "conns \<noteq> [] \<Longrightarrow> \<exists>wall w6 per_conn w7 fin w8 heap. be_now (bench_env.truncate senv) w5 = (wall, w6)
       \<and> run_order (exec_held (bench_env.truncate senv) conns) (sched (length conns)) (replicate (length conns) 0) w6 = Some (per_conn, w7)
       \<and> be_now (bench_env.truncate senv) w7 = (fin, w8) \<and> w' = close_all conns w8
       \<and> r = sweep_row tr cf (bench_env.truncate senv) n per_conn (ms_of (ready - start)) (ms_of (fin - wall)) heap w8"
    by (rule sweep_level_stages[OF assms]) (rule that)
  have n: "length conns \<le> n" using open_all_counts[OF s(1)] by simp
  have "r_sweep_n r = int n \<and> r_transport r = tr \<and> ((r_iterations r \<le> int n \<and> r_errors r \<le> r_iterations r)
      \<or> (r_iterations r = int (cf_iterations cf) \<and> r_errors r = 1))"
  proof (cases "conns = []")
    case True
    have i: "r_iterations (summarize_mode cf e tr op' tc v) = int (cf_iterations cf)" for e op' tc v
      by (simp add: summarize_mode_def Let_def) (simp add: summarize_def Let_def split: prod.split)
    show ?thesis using s(2)[OF True] by (simp add: summarize_mode_row i)
  next
    case False
    then obtain per_conn a b heap v u v' where r: "r = sweep_row tr cf (bench_env.truncate senv) n per_conn a b heap v"
      "run_order (exec_held (bench_env.truncate senv) conns) (sched (length conns)) (replicate (length conns) 0) u = Some (per_conn, v')"
      using s(3) by blast
    have "length per_conn = length conns" using run_order_length[OF r(2)] by simp
    moreover have "count_list per_conn err_duration \<le> length per_conn" by (rule count_le_length)
    ultimately show ?thesis using n by (simp add: r(1) sweep_row_fields)
  qed
  then show "r_sweep_n r = int n" "r_transport r = tr"
    "(r_iterations r \<le> int n \<and> r_errors r \<le> r_iterations r) \<or> (r_iterations r = int (cf_iterations cf) \<and> r_errors r = 1)"
    by simp_all
qed

lemma sweep_levels_rows:
  "sweep_levels tr cf levels op senv sched w = Some (rs, w') \<Longrightarrow>
     map r_sweep_n rs = filter (\<lambda>n. 1 \<le> n) levels \<and> list_all (\<lambda>r. r_transport r = tr) rs"
proof (induction levels arbitrary: w rs)
  case (Cons n levels)
  show ?case
  proof (cases "n < 1")
    case True
    then show ?thesis using Cons by simp
  next
    case False
    with Cons.prems obtain r w1 rs' where 1: "sweep_level tr cf (nat n) op senv sched w = Some (r, w1)"
      "sweep_levels tr cf levels op senv sched w1 = Some (rs', w')" "rs = r # rs'"
      by (auto elim!: bind_SomeE)
    then show ?thesis using False Cons.IH[OF 1(2)] sweep_level_row[OF 1(1)] by simp
  qed
qed simp

section \<open>Every held connection is closed\<close>

text \<open>
  What the sweep relies on: an opening that succeeds holds one new connection, which its
  \<open>sw_close\<close> closes; one that fails holds none.
\<close>

definition holds :: "('w \<Rightarrow> 't set) \<Rightarrow> 'w sweep_conn \<Rightarrow> 't \<Rightarrow> bool" where
  "holds opened sc t \<longleftrightarrow> (\<forall>w. opened (sw_close sc w) = opened w - {t}) \<and> keeps opened (sw_exec sc)"

locale held_open =
  fixes op :: "'w opener" and cf :: bench_config and opened :: "'w \<Rightarrow> 't set"
  assumes open_ok: "op cf w = Some (Inr sc, w') \<Longrightarrow> \<exists>t. t \<notin> opened w \<and> opened w' = insert t (opened w) \<and> holds opened sc t"
    and open_err: "op cf w = Some (Inl e, w') \<Longrightarrow> opened w' = opened w"
begin

lemma open_all_holds:
  "open_all op cf n (conns, errs) w = Some ((conns', errs'), w') \<Longrightarrow>
     list_all2 (holds opened) conns ts \<Longrightarrow> opened w = before \<union> set ts \<Longrightarrow> before \<inter> set ts = {} \<Longrightarrow>
     \<exists>ts'. list_all2 (holds opened) conns' ts' \<and> opened w' = before \<union> set ts' \<and> before \<inter> set ts' = {}"
proof (induction n arbitrary: conns errs ts w)
  case (Suc n)
  then obtain r w1 where 1: "op cf w = Some (r, w1)"
    "open_all op cf n (case r of Inl e \<Rightarrow> (conns, errs + 1) | Inr sc \<Rightarrow> (conns @ [sc], errs)) w1 = Some ((conns', errs'), w')"
    by (auto elim!: bind_SomeE)
  show ?case
  proof (cases r)
    case (Inl e)
    then show ?thesis using 1 Suc.IH[of conns "errs + 1" w1 ts] Suc.prems open_err by simp
  next
    case (Inr sc)
    then obtain t where t: "t \<notin> opened w" "opened w1 = insert t (opened w)" "holds opened sc t"
      using open_ok 1(1) by blast
    have "list_all2 (holds opened) (conns @ [sc]) (ts @ [t])" using Suc.prems(2) t(3) by (simp add: list_all2_appendI)
    moreover have "opened w1 = before \<union> set (ts @ [t])" "before \<inter> set (ts @ [t]) = {}"
      using t(1,2) Suc.prems(3,4) by auto
    ultimately show ?thesis using Suc.IH[of "conns @ [sc]" errs w1 "ts @ [t]"] 1(2) Inr by simp
  qed
qed auto

lemma close_all_closes:
  "list_all2 (holds opened) conns ts \<Longrightarrow> opened (close_all conns w) = opened w - set ts"
proof (induction conns ts arbitrary: w rule: list_all2_induct)
  case (Cons sc conns t ts)
  have "opened (close_all conns (sw_close sc w)) = opened (sw_close sc w) - set ts" by (rule Cons.IH)
  then show ?case using Cons.hyps(1) unfolding close_all_def holds_def by auto
qed (simp add: close_all_def)

lemma exec_held_keeps:
  assumes env: "env_keeps opened env" and h: "list_all2 (holds opened) conns ts" "idx < length conns"
  shows "exec_held env conns idx w = Some (d, w') \<Longrightarrow> opened w' = opened w"
proof -
  assume r: "exec_held env conns idx w = Some (d, w')"
  have k: "keeps opened (sw_exec (conns ! idx))"
    using list_all2_nthD[OF h] by (simp add: holds_def)
  obtain t0 w1 where 1: "be_now env w = (t0, w1)" by (cases "be_now env w")
  obtain err w2 where 2: "sw_exec (conns ! idx) w1 = Some (err, w2)"
    using r 1 by (auto simp: exec_held_def elim!: bind_SomeE)
  have o: "opened w2 = opened w" using env_keeps_eq(1)[OF env 1] keepsD[OF k 2] by simp
  obtain now w3 where 3: "be_now env w2 = (now, w3)" by (cases "be_now env w2")
  have "w' = w2 \<or> w' = w3" using r 1 2 3 by (cases err) (auto simp: exec_held_def)
  then show "opened w' = opened w" using o env_keeps_eq(1)[OF env 3] by auto
qed

lemma run_held_keeps:
  assumes env: "env_keeps opened env" and h: "list_all2 (holds opened) conns ts" and o: "\<forall>i \<in> set ord. i < length conns"
  shows "run_order (exec_held env conns) ord rs w = Some (rs', w') \<Longrightarrow> opened w' = opened w"
  using o
proof (induction ord arbitrary: rs w)
  case (Cons i ord)
  then obtain d w1 where 1: "exec_held env conns i w = Some (d, w1)"
    "run_order (exec_held env conns) ord (rs[i := d]) w1 = Some (rs', w')" by (auto split: option.splits)
  show ?case using Cons.IH[OF 1(2)] exec_held_keeps[OF env h _ 1(1)] Cons.prems(2) by simp
qed simp

lemma sweep_level_keeps:
  assumes env: "env_keeps opened (bench_env.truncate senv)" and gc: "\<And>w. opened (se_gc senv w) = opened w"
    and sched: "\<And>k. \<forall>i \<in> set (sched k). i < k"
    and r: "sweep_level tr cf n op senv sched w = Some (r, w')"
  shows "opened w' = opened w"
proof -
  let ?env = "bench_env.truncate senv"
  obtain base w1 start w2 conns errs w3 ready w4 peak w5 where s:
    "live_heap ?env (se_gc senv (pkt_reset cf ?env w)) = (base, w1)"
    "be_now ?env w1 = (start, w2)" "open_all op cf n ([], 0) w2 = Some ((conns, errs), w3)"
    "be_now ?env w3 = (ready, w4)" "live_heap ?env w4 = (peak, w5)"
    "conns = [] \<Longrightarrow> w' = w5"
    "conns \<noteq> [] \<Longrightarrow> \<exists>wall w6 per_conn w7 fin w8. be_now ?env w5 = (wall, w6)
       \<and> run_order (exec_held ?env conns) (sched (length conns)) (replicate (length conns) 0) w6 = Some (per_conn, w7)
       \<and> be_now ?env w7 = (fin, w8) \<and> w' = close_all conns w8"
    by (rule sweep_level_stages[OF r]) (rule that, assumption+, blast, blast)
  have heap: "opened v' = opened v" if "live_heap ?env v = (h, v')" for h v v'
    using env_frame(2)[OF env, of v] that by (cases "be_usage ?env v") (auto simp: live_heap_def)
  note now = env_keeps_eq(1)[OF env]
  have w2: "opened w2 = opened w" using heap[OF s(1)] now[OF s(2)] gc env_frame(4)[OF env] by simp
  obtain ts where ts: "list_all2 (holds opened) conns ts" "opened w3 = opened w \<union> set ts" "opened w \<inter> set ts = {}"
    using open_all_holds[OF s(3), of "[]" "opened w"] w2 by auto
  have w5: "opened w5 = opened w \<union> set ts" using now[OF s(4)] heap[OF s(5)] ts(2) by simp
  show ?thesis
  proof (cases "conns = []")
    case True
    then show ?thesis using s(6) w5 ts(1) by simp
  next
    case False
    then obtain wall w6 per_conn w7 fin w8 where e: "be_now ?env w5 = (wall, w6)"
      "run_order (exec_held ?env conns) (sched (length conns)) (replicate (length conns) 0) w6 = Some (per_conn, w7)"
      "be_now ?env w7 = (fin, w8)" "w' = close_all conns w8" using s(7) by blast
    have "opened w8 = opened w5"
      using now[OF e(1)] run_held_keeps[OF env ts(1) sched e(2)] now[OF e(3)] by simp
    then show ?thesis using close_all_closes[OF ts(1)] e(4) w5 ts(3) by auto
  qed
qed

lemma sweep_levels_keeps:
  assumes "env_keeps opened (bench_env.truncate senv)" "\<And>w. opened (se_gc senv w) = opened w"
    and "\<And>k. \<forall>i \<in> set (sched k). i < k"
  shows "sweep_levels tr cf levels op senv sched w = Some (rs, w') \<Longrightarrow> opened w' = opened w"
proof (induction levels arbitrary: w rs)
  case (Cons n levels)
  show ?case
  proof (cases "n < 1")
    case True
    then show ?thesis using Cons by simp
  next
    case False
    with Cons.prems obtain r w1 rs' where 1: "sweep_level tr cf (nat n) op senv sched w = Some (r, w1)"
      "sweep_levels tr cf levels op senv sched w1 = Some (rs', w')"
      by (auto elim!: bind_SomeE)
    then show ?thesis using Cons.IH[OF 1(2)] sweep_level_keeps[OF assms 1(1)] by simp
  qed
qed simp

end

section \<open>The connections of the SSH and NETCONF sweeps\<close>

lemma map_sum_id_iff:
  "map_sum id f r = Inl e \<longleftrightarrow> r = Inl e" "map_sum id f r = Inr x \<longleftrightarrow> (\<exists>y. r = Inr y \<and> f y = x)"
  by (cases r; auto)+

context counted_ssh begin

lemma open_ssh_holds: "held_open (open_ssh lib) cf opened"
proof
  show "\<exists>t. t \<notin> opened w \<and> opened w' = insert t (opened w) \<and> holds opened sc t"
    if o: "open_ssh lib cf w = Some (Inr sc, w')" for w sc w'
  proof -
    obtain c cc where 1: "ssh_dial_counted lib (cf_addr cf) (cf_user cf) (cf_pass cf) w = Some (Inr (c, cc), w')"
      and sc: "sc = \<lparr>sw_exec = exec_shows lib (cf_commands cf) c, sw_close = sl_close lib c\<rparr>"
      using o by (auto simp: open_ssh_def map_sum_id_iff elim!: bind_SomeE)
    have "holds opened sc cc" using closed execs_keep(2) dial_ok[OF 1] by (simp add: holds_def sc)
    then show ?thesis using dial_ok[OF 1] by blast
  qed
  show "opened w' = opened w" if o: "open_ssh lib cf w = Some (Inl e, w')" for w e w'
  proof -
    obtain r where 1: "ssh_dial_counted lib (cf_addr cf) (cf_user cf) (cf_pass cf) w = Some (r, w')" "r = Inl e"
      using o by (auto simp: open_ssh_def map_sum_id_iff elim!: bind_SomeE)
    then show ?thesis using dial_err by simp
  qed
qed

end

context counted_netconf begin

lemma open_netconf_holds: "held_open (open_netconf lib) cf opened"
proof
  show "\<exists>t. t \<notin> opened w \<and> opened w' = insert t (opened w) \<and> holds opened sc t"
    if o: "open_netconf lib cf w = Some (Inr sc, w')" for w sc w'
  proof -
    obtain c s cc where 1: "netconf_dial lib (cf_addr cf) (cf_user cf) (cf_pass cf) w = Some (Inr (c, s, cc), w')"
      and sc: "sc = \<lparr>sw_exec = (\<lambda>w. map_option (map_prod id fst) (nc_gets lib s (cf_commands cf) (w, 0))),
       sw_close = netconf_cleanup lib c s\<rparr>"
      using o by (auto simp: open_netconf_def map_sum_id_iff elim!: bind_SomeE)
    have "keeps opened (sw_exec sc)"
      by (rule keepsI) (auto simp: sc dest!: nc_gets_keeps[OF channels])
    then have "holds opened sc cc" using netconf_dial_opens[OF 1] cleanup_closes by (simp add: holds_def sc)
    then show ?thesis using netconf_dial_opens[OF 1] by auto
  qed
  show "opened w' = opened w" if o: "open_netconf lib cf w = Some (Inl e, w')" for w e w'
  proof -
    obtain r where 1: "netconf_dial lib (cf_addr cf) (cf_user cf) (cf_pass cf) w = Some (r, w')" "r = Inl e"
      using o by (auto simp: open_netconf_def map_sum_id_iff elim!: bind_SomeE)
    then show ?thesis using netconf_dial_opens[OF 1(1)] by simp
  qed
qed

end

end
