(* ===== verification/SweepSite.thy ===== *)
theory SweepSite
  imports NetconfSite Sweep
begin

text \<open>The SSH and NETCONF sweeps on the site of \<open>Site\<close>.\<close>

definition site_sweep_env :: "site sweep_env" where
  "site_sweep_env = bench_env.extend (site_env serial_order) \<lparr>se_gc = (\<lambda>w. w)\<rparr>"

lemma site_sweep_env_sel [simp]:
  "bench_env.truncate site_sweep_env = (site_env serial_order)" "se_gc site_sweep_env w = w"
  by (simp_all add: site_sweep_env_def bench_env.defs)

interpretation ssh_sweep: held_open "open_ssh (site_lib dev)" cf site_opened for dev cf
  by (rule counted_ssh.open_ssh_holds[OF site_conns.counted_ssh_axioms])

interpretation netconf_sweep: held_open "open_netconf (nc_site_lib um dev)" cf site_opened for um dev cf
  by (rule counted_netconf.open_netconf_holds[OF nc_site_conns.counted_netconf_axioms])

lemma site_sweeps_close:
  assumes "\<And>k. \<forall>i \<in> set (sched k). i < k"
    and "sweep_levels tr cf levels op site_sweep_env sched w = Some (rs, w')"
    and "op = open_ssh (site_lib dev) \<or> op = open_netconf (nc_site_lib um dev)"
  shows "site_opened w' = site_opened w"
  using assms(3)
proof
  assume "op = open_ssh (site_lib dev)"
  then show ?thesis using ssh_sweep.sweep_levels_keeps[of site_sweep_env sched tr cf levels dev w rs w'] site_env_keeps assms by simp
next
  assume "op = open_netconf (nc_site_lib um dev)"
  then show ?thesis
    using netconf_sweep.sweep_levels_keeps[of site_sweep_env sched tr cf levels um dev w rs w'] site_env_keeps assms by simp
qed

section \<open>A sweep over SSH succeeds\<close>

context ssh_site
begin

text \<open>A held connection that is open and runs the commands.\<close>

definition ready_conn :: "nat \<Rightarrow> 'w sweep_conn \<Rightarrow> 'w \<Rightarrow> bool" where
  "ready_conn k sc w \<longleftrightarrow> (\<exists>c. sw_exec sc = exec_shows lib k c \<and> sw_close sc = sl_close lib c \<and> via c \<in> opened w)"

lemma ready_conn_mono: "ready_conn k sc w \<Longrightarrow> opened w \<subseteq> opened w' \<Longrightarrow> ready_conn k sc w'"
  unfolding ready_conn_def by blast

lemma open_all_up:
  assumes "up w" "cf_addr cf' = addr" "cf_user cf' = cf_user cf" "cf_pass cf' = cf_pass cf"
    and "\<forall>sc \<in> set conns. ready_conn (cf_commands cf') sc w"
  shows "\<exists>conns' w'. open_all (open_ssh lib) cf' n (conns, errs) w = Some ((conns', errs), w') \<and> up w'
    \<and> length conns' = length conns + n \<and> (\<forall>sc \<in> set conns'. ready_conn (cf_commands cf') sc w')"
  using assms(1,5)
proof (induction n arbitrary: w conns)
  case (Suc n)
  obtain c cc w1 where 1: "ssh_dial_counted lib addr (cf_user cf) (cf_pass cf) w = Some (Inr (c, cc), w1)" "using_conn c w1"
    using dial_up[OF Suc.prems(1)] by blast
  let ?sc = "\<lparr>sw_exec = exec_shows lib (cf_commands cf') c, sw_close = sl_close lib c\<rparr>"
  have o: "open_ssh lib cf' w = Some (Inr ?sc, w1)" using 1 assms(2-4) by (simp add: open_ssh_def)
  have sub: "opened w \<subseteq> opened w1" using held_open.open_ok[OF open_ssh_holds o] by blast
  have "ready_conn (cf_commands cf') ?sc w1" using 1(2) by (auto simp: ready_conn_def using_conn_def)
  then have "\<forall>sc \<in> set (conns @ [?sc]). ready_conn (cf_commands cf') sc w1"
    using Suc.prems(2) ready_conn_mono[OF _ sub] by simp
  from Suc.IH[OF _ this] 1(2) obtain conns' w' where
    "open_all (open_ssh lib) cf' n (conns @ [?sc], errs) w1 = Some ((conns', errs), w')" "up w'"
    "length conns' = length conns + Suc n" "\<forall>sc \<in> set conns'. ready_conn (cf_commands cf') sc w'"
    by (auto simp: using_conn_def)
  then show ?case using o by simp
qed simp

lemma exec_held_up:
  assumes "up w" "ready_conn k (conns ! idx) w"
  shows "\<exists>d w'. exec_held env conns idx w = Some (d, w') \<and> d \<noteq> err_duration \<and> up w' \<and> opened w' = opened w"
proof -
  obtain c where c: "sw_exec (conns ! idx) = exec_shows lib k c" "via c \<in> opened w"
    using assms(2) by (auto simp: ready_conn_def)
  obtain t0 w1 where 1: "be_now env w = (t0, w1)" by fastforce
  then have w1: "up w1" "t0 \<le> clk w1" "opened w1 = opened w"
    using env_clock env_frame(1)[OF env_keeps_opened, of w] assms(1) unfolding env_up_def by (auto simp: prod_eq_iff)
  obtain e w2 where 2: "exec_shows lib k c w1 = Some (e, w2)" "e = None" "using_conn c w2" "clk w1 \<le> clk w2"
    using gets_doneE[OF exec_shows_up, of c w1 k] w1 c(2) by (auto simp: using_conn_def)
  have o2: "opened w2 = opened w1" using keepsD[OF execs_keep(2) 2(1)] .
  obtain now w3 where 3: "be_now env w2 = (now, w3)" by fastforce
  then have "up w3" "clk w2 \<le> now" "opened w3 = opened w2"
    using env_clock env_frame(1)[OF env_keeps_opened, of w2] 2(3) unfolding env_up_def using_conn_def by (auto simp: prod_eq_iff)
  moreover have "now - t0 \<noteq> err_duration" using w1(2) 2(4) \<open>clk w2 \<le> now\<close> by (simp add: err_duration_def)
  ultimately show ?thesis using 1 2 3 c(1) w1(3) o2 by (simp add: exec_held_def)
qed

lemma run_held_up:
  assumes "\<forall>i \<in> set ord. i < length conns" "\<forall>sc \<in> set conns. ready_conn k sc w" "up w" "err_duration \<notin> set rs"
  shows "\<exists>rs' w'. run_order (exec_held env conns) ord rs w = Some (rs', w') \<and> err_duration \<notin> set rs' \<and> up w' \<and> opened w' = opened w"
  using assms
proof (induction ord arbitrary: rs w)
  case (Cons i ord)
  have "ready_conn k (conns ! i) w" using Cons.prems by simp
  from exec_held_up[OF Cons.prems(3) this] obtain d w1 where 1: "exec_held env conns i w = Some (d, w1)"
    "d \<noteq> err_duration" "up w1" "opened w1 = opened w" by blast
  have "err_duration \<notin> set (rs[i := d])" using Cons.prems(4) 1(2) set_update_subset_insert[of rs i d] by auto
  moreover have "\<forall>sc \<in> set conns. ready_conn k sc w1" using Cons.prems(2) 1(4) by (simp add: ready_conn_def)
  ultimately show ?case using Cons.IH[of w1 "rs[i := d]"] Cons.prems(1) 1 by simp
qed simp

lemma steps_up:
  assumes "up v"
  shows "up (snd (be_now env v))" "up (snd (live_heap env v))" "up (pkt_reset cf' env v)"
proof -
  have now: "up w'" if "be_now env u = (t, w')" "up u" for u t w' using env_clock that unfolding env_up_def by blast
  have usage: "up w'" if "be_usage env u = (t, w')" "up u" for u t w' using env_clock that unfolding env_up_def by blast
  show "up (snd (be_now env v))" using now[of v] assms by (cases "be_now env v") simp
  show "up (snd (live_heap env v))"
    using usage[of v] assms by (cases "be_usage env v") (auto simp: live_heap_def split: prod.split)
  have "up (be_pkt_reset env v)" using env_clock assms unfolding env_up_def by blast
  then show "up (pkt_reset cf' env v)" using assms by (simp add: pkt_reset_def)
qed

lemma close_all_up:
  "up v \<Longrightarrow> \<forall>sc \<in> set conns. ready_conn k sc w \<Longrightarrow> up (close_all conns v)"
proof (induction conns arbitrary: v)
  case (Cons sc conns)
  then obtain c where "sw_close sc = sl_close lib c" by (auto simp: ready_conn_def)
  then have "up (sw_close sc v)" using close_up Cons.prems(1) by simp
  then show ?case using Cons.IH Cons.prems(2) by (simp add: close_all_def)
qed (simp add: close_all_def)

text \<open>A level of a sweep: every connection is opened and every workload succeeds.\<close>

lemma sweep_level_up:
  assumes "up w" "cf_addr cf' = addr" "cf_user cf' = cf_user cf" "cf_pass cf' = cf_pass cf" "0 < n"
    and senv: "bench_env.truncate senv = env" "\<And>v. up (se_gc senv v) = up v" and sched: "\<And>k. \<forall>i \<in> set (sched k). i < k"
  shows "\<exists>r w'. sweep_level tr cf' n (open_ssh lib) senv sched w = Some (r, w') \<and> up w'
    \<and> r_errors r = 0 \<and> r_iterations r = int n"
proof -
  obtain base w1 where 1: "live_heap env (se_gc senv (pkt_reset cf' env w)) = (base, w1)" by fastforce
  then have u1: "up w1" using steps_up(2,3) senv(2) assms(1) by (metis snd_conv)
  obtain start w2 where 2: "be_now env w1 = (start, w2)" by fastforce
  then have u2: "up w2" using steps_up(1)[OF u1] by simp
  obtain conns w3 where 3: "open_all (open_ssh lib) cf' n ([], 0) w2 = Some ((conns, 0), w3)" "up w3" "length conns = n"
    "\<forall>sc \<in> set conns. ready_conn (cf_commands cf') sc w3"
    using open_all_up[OF u2 assms(2-4), of "[]" n 0] by auto
  obtain ready w4 where 4: "be_now env w3 = (ready, w4)" by fastforce
  obtain peak w5 where 5: "live_heap env w4 = (peak, w5)" by fastforce
  obtain wall w6 where 6: "be_now env w5 = (wall, w6)" by fastforce
  have u6: "up w6" using steps_up(1)[OF 3(2)] steps_up(2)[of w4] steps_up(1)[of w5] 4 5 6 by simp
  have "opened w6 = opened w3"
    using env_frame(1,2)[OF env_keeps_opened] 4 5 6 by (auto simp: live_heap_def prod_eq_iff split: prod.splits)
  then have "\<forall>sc \<in> set conns. ready_conn (cf_commands cf') sc w6" using 3(4) ready_conn_mono by blast
  moreover have "\<forall>i \<in> set (sched (length conns)). i < length conns" using sched by blast
  moreover have "err_duration \<notin> set (replicate (length conns) 0)" by (simp add: err_duration_def)
  ultimately obtain per w7 where 7: "run_order (exec_held env conns) (sched (length conns)) (replicate (length conns) 0) w6 = Some (per, w7)"
    "err_duration \<notin> set per" "up w7"
    using run_held_up[of "sched (length conns)" conns _ w6] u6 by blast
  obtain fin w8 where 8: "be_now env w7 = (fin, w8)" by fastforce
  have u8: "up w8" using steps_up(1)[OF 7(3)] 8 by simp
  have ne: "conns \<noteq> []" using 3(3) assms(5) by auto
  have len: "length per = n" using run_order_length[OF 7(1)] 3(3) by simp
  let ?r = "sweep_row tr cf' env n per (ms_of (ready - start)) (ms_of (fin - wall))
    (if peak > base then fdiv (f64_of_int (peak - base)) 1048576 else 0) w8"
  have "sweep_level tr cf' n (open_ssh lib) senv sched w = Some (?r, close_all conns w8)"
    using ne by (simp add: sweep_level_def senv(1) Let_def 1 2 3(1) 4 5 6 7(1) 8)
  moreover have "up (close_all conns w8)" by (rule close_all_up[OF u8 3(4)])
  moreover have "r_errors ?r = 0" using 7(2) by (simp add: sweep_row_fields count_list_0_iff)
  moreover have "r_iterations ?r = int n" by (simp add: sweep_row_fields len)
  ultimately show ?thesis by blast
qed

lemma sweep_levels_up:
  assumes "up w" "cf_addr cf' = addr" "cf_user cf' = cf_user cf" "cf_pass cf' = cf_pass cf"
    and senv: "bench_env.truncate senv = env" "\<And>v. up (se_gc senv v) = up v" and sched: "\<And>k. \<forall>i \<in> set (sched k). i < k"
  shows "\<exists>rs w'. sweep_levels tr cf' levels (open_ssh lib) senv sched w = Some (rs, w') \<and> up w'
    \<and> list_all (\<lambda>r. r_errors r = 0 \<and> r_iterations r = r_sweep_n r) rs"
  using assms(1)
proof (induction levels arbitrary: w)
  case (Cons n levels)
  show ?case
  proof (cases "n < 1")
    case True
    then show ?thesis using Cons by simp
  next
    case False
    then obtain r w1 where 1: "sweep_level tr cf' (nat n) (open_ssh lib) senv sched w = Some (r, w1)" "up w1"
      "r_errors r = 0" "r_iterations r = int (nat n)"
      using sweep_level_up[OF Cons.prems assms(2-4) _ senv sched, where n = "nat n" and tr = tr] by auto
    have "r_iterations r = r_sweep_n r" using 1(4) sweep_level_row(1)[OF 1(1)] by simp
    then show ?thesis using Cons.IH[OF 1(2)] 1 False by fastforce
  qed
qed simp

end

text \<open>On a site without faults, with the credentials of its device.\<close>

lemma ssh_sweep_on_site:
  assumes "site_up dev w" "\<And>k. \<forall>i \<in> set (sched k). i < k"
  shows "\<exists>rs w'. sweep_levels ''ssh'' (config_for dev cf) levels (open_ssh (site_lib dev)) site_sweep_env sched w = Some (rs, w')
    \<and> list_all (\<lambda>r. r_errors r = 0 \<and> r_iterations r = r_sweep_n r) rs
    \<and> map r_sweep_n rs = filter (\<lambda>n. 1 \<le> n) levels \<and> site_opened w' = site_opened w"
proof -
  have "\<exists>rs w'. sweep_levels ''ssh'' (config_for dev cf) levels (open_ssh (site_lib dev)) site_sweep_env sched w = Some (rs, w')
    \<and> site_up dev w' \<and> list_all (\<lambda>r. r_errors r = 0 \<and> r_iterations r = r_sweep_n r) rs"
    by (rule site_site.sweep_levels_up[OF assms(1) refl refl refl]) (use assms(2) in simp_all)
  then obtain rs w' where 1: "sweep_levels ''ssh'' (config_for dev cf) levels (open_ssh (site_lib dev)) site_sweep_env sched w = Some (rs, w')"
    "list_all (\<lambda>r. r_errors r = 0 \<and> r_iterations r = r_sweep_n r) rs"
    by blast
  have "site_opened w' = site_opened w" by (rule site_sweeps_close[OF assms(2) 1(1) disjI1[OF refl]])
  then show ?thesis using 1 sweep_levels_rows[OF 1(1)] by blast
qed

end
