(* ===== verification/SitePackets.thy ===== *)
theory SitePackets
  imports Site
begin

text \<open>
  How many packets the modes of the SSH driver exchange with the modelled site: the handshake, the
  opening of a session and an exec request are one packet each way.
\<close>

definition exchanges :: "(site \<Rightarrow> bool) \<Rightarrow> nat \<Rightarrow> (site \<Rightarrow> ('a \<times> site) option) \<Rightarrow> ('a \<Rightarrow> site \<Rightarrow> bool) \<Rightarrow> bool" where
  "exchanges pre k m post \<longleftrightarrow> (\<forall>w. pre w \<longrightarrow>
     (\<exists>a w'. m w = Some (a, w') \<and> post a w' \<and> si_pkts w' = (fst (si_pkts w) + k, snd (si_pkts w) + k)))"

lemma exchangesI:
  "(\<And>w. pre w \<Longrightarrow> \<exists>a w'. m w = Some (a, w') \<and> post a w' \<and> si_pkts w' = (fst (si_pkts w) + k, snd (si_pkts w) + k)) \<Longrightarrow>
     exchanges pre k m post"
  by (simp add: exchanges_def)

lemma exchangesE:
  assumes "exchanges pre k m post" "pre w"
  obtains a w' where "m w = Some (a, w')" "post a w'" "si_pkts w' = (fst (si_pkts w) + k, snd (si_pkts w) + k)"
  using assms by (auto simp: exchanges_def)

definition holding_conn :: "device \<Rightarrow> nat \<Rightarrow> site \<Rightarrow> bool" where
  "holding_conn dev c w \<longleftrightarrow> site_up dev w \<and> c \<in> si_open w"

text \<open>The environment exchanges nothing.\<close>

definition same_site :: "site \<Rightarrow> site \<Rightarrow> bool" where
  "same_site w w' \<longleftrightarrow> si_faults w' = si_faults w \<and> si_dev w' = si_dev w \<and> si_open w' = si_open w \<and> si_pkts w' = si_pkts w"

lemma env_same:
  "be_now (site_env ord) w = (t, w') \<Longrightarrow> same_site w w'"
  "resource_snap cf (site_env ord) w = (s, w') \<Longrightarrow> same_site w w'"
  "since_start (site_env ord) start (resource_record cf (site_env ord) idx snap (cnt, w)) = (d, cnt', w') \<Longrightarrow> same_site w w'"
  by (auto simp: site_env_def same_site_def resource_snap_def resource_now_def resource_record_def since_start_def
      split: if_splits prod.splits)

lemma same_holding: "same_site w w' \<Longrightarrow> holding_conn dev c w' = holding_conn dev c w" "same_site w w' \<Longrightarrow> site_up dev w' = site_up dev w"
  by (simp_all add: same_site_def holding_conn_def site_up_def)

lemma same_trans: "same_site w w1 \<Longrightarrow> same_site w1 w2 \<Longrightarrow> same_site w w2"
  by (simp add: same_site_def)

lemma same_pkts: "same_site w w' \<Longrightarrow> si_pkts w' = si_pkts w"
  by (simp add: same_site_def)

section \<open>Executing\<close>

lemma dial_exchanges:
  "exchanges (site_up dev) 1 (ssh_dial_counted (site_lib dev) addr (username dev) (password dev))
     (\<lambda>r w. \<exists>c cc. r = Inr (c, cc) \<and> holding_conn dev c w)"
  by (rule exchangesI)
    (simp add: ssh_dial_counted_def site_lib_def site_tcp_def site_client_def site_fault_def site_trip_def site_up_def
      holding_conn_def password_callback_def)

lemma one_exec_exchanges:
  "exchanges (holding_conn dev c) 2 (one_exec (site_lib dev) cmd c) (\<lambda>e w. e = None \<and> holding_conn dev c w)"
  by (rule exchangesI)
    (simp add: one_exec_def site_lib_def site_session_def site_output_def site_fault_def site_trip_def site_up_def
      holding_conn_def client_output_exec del: handle_session.simps)

lemma exec_shows_exchanges:
  "exchanges (holding_conn dev c) (2 * n) (exec_shows (site_lib dev) n c) (\<lambda>e w. e = None \<and> holding_conn dev c w)"
proof (rule exchangesI)
  fix w show "holding_conn dev c w \<Longrightarrow> \<exists>a w'. exec_shows (site_lib dev) n c w = Some (a, w')
      \<and> (a = None \<and> holding_conn dev c w') \<and> si_pkts w' = (fst (si_pkts w) + 2 * n, snd (si_pkts w) + 2 * n)"
  proof (induction n arbitrary: w)
    case (Suc n)
    obtain w1 where 1: "one_exec (site_lib dev) ''show version'' c w = Some (None, w1)" "holding_conn dev c w1"
      "si_pkts w1 = (fst (si_pkts w) + 2, snd (si_pkts w) + 2)"
      using exchangesE[OF one_exec_exchanges Suc.prems] by metis
    from Suc.IH[OF 1(2)] show ?case using 1 by auto
  qed simp
qed

section \<open>Modes\<close>

lemma fresh_iter_exchanges:
  assumes exec: "\<And>c. exchanges (holding_conn dev c) k (exec_fn c) (\<lambda>e w. e = None \<and> holding_conn dev c w)"
  shows "exchanges (site_up dev) (Suc k)
    (\<lambda>w. map_option (\<lambda>(d, cnt', w'). ((d, cnt'), w')) (fresh_iter (config_for dev cf) (site_env ord) (site_lib dev) addr exec_fn idx (cnt, w)))
    (\<lambda>_. site_up dev)"
proof (rule exchangesI)
  fix w assume w: "site_up dev w"
  let ?cf = "config_for dev cf" and ?env = "site_env ord"
  obtain snap w1 where 1: "resource_snap ?cf ?env w = (snap, w1)" by (cases "resource_snap ?cf ?env w")
  obtain start w2 where 2: "be_now ?env w1 = (start, w2)" by (cases "be_now ?env w1")
  note s2 = same_trans[OF env_same(2)[OF 1] env_same(1)[OF 2]]
  obtain c cc w3 where 3: "ssh_dial_counted (site_lib dev) addr (username dev) (password dev) w2 = Some (Inr (c, cc), w3)"
    "holding_conn dev c w3" "si_pkts w3 = (fst (si_pkts w2) + 1, snd (si_pkts w2) + 1)"
    using exchangesE[OF dial_exchanges] w same_holding(2)[OF s2] by metis
  obtain w4 where 4: "exec_fn c w3 = Some (None, w4)" "holding_conn dev c w4"
    "si_pkts w4 = (fst (si_pkts w3) + k, snd (si_pkts w3) + k)"
    using exchangesE[OF exec 3(2)] by metis
  obtain d cnt' w5 where 5: "since_start ?env start
      (resource_record ?cf ?env idx snap (record_conn idx (sl_counts (site_lib dev) cc w4) cnt, w4)) = (d, cnt', w5)"
    by (metis prod_cases3)
  note s5 = env_same(3)[OF 5]
  have up5: "site_up dev w5" using 4(2) same_holding(2)[OF s5] by (simp add: holding_conn_def)
  have "fresh_iter ?cf ?env (site_lib dev) addr exec_fn idx (cnt, w) = Some (d, cnt', sl_close (site_lib dev) c w5)"
    using 1 2 3 4 5 by (simp add: fresh_iter_def config_for_def)
  then show "\<exists>a w'. map_option (\<lambda>(d, cnt', w'). ((d, cnt'), w')) (fresh_iter ?cf ?env (site_lib dev) addr exec_fn idx (cnt, w)) = Some (a, w')
      \<and> site_up dev w' \<and> si_pkts w' = (fst (si_pkts w) + Suc k, snd (si_pkts w) + Suc k)"
    using up5 3(3) 4(3) same_pkts[OF s5] same_pkts[OF s2] by (simp add: site_lib_def site_close_def site_up_def)
qed

lemma run_order_exchanges:
  assumes iter: "\<And>idx cnt. exchanges pre k (\<lambda>w. map_option (\<lambda>(d, cnt', w'). ((d, cnt'), w')) (iter idx (cnt, w))) (\<lambda>_. pre)"
  shows "pre w \<Longrightarrow> \<exists>rs' cnt' w'. run_order iter is rs (cnt, w) = Some (rs', cnt', w') \<and> pre w'
     \<and> si_pkts w' = (fst (si_pkts w) + length is * k, snd (si_pkts w) + length is * k)"
proof (induction "is" arbitrary: rs cnt w)
  case (Cons i "is")
  obtain d cnt1 w1 where 1: "iter i (cnt, w) = Some (d, cnt1, w1)" "pre w1"
    "si_pkts w1 = (fst (si_pkts w) + k, snd (si_pkts w) + k)"
    by (rule exchangesE[OF iter Cons.prems, of i cnt]) auto
  from Cons.IH[OF 1(2), of "rs[i := d]" cnt1] show ?case using 1 by (auto simp: algebra_simps)
qed simp

lemma fresh_bench_exchanges:
  assumes exec: "\<And>c. exchanges (holding_conn dev c) k (exec_fn c) (\<lambda>e w. e = None \<and> holding_conn dev c w)"
    and n: "0 < cf_concurrency cf" and ord: "length (ord (cf_concurrency cf) (cf_iterations cf)) = cf_iterations cf"
  shows "exchanges (site_up dev) (cf_iterations cf * Suc k)
    (ssh_fresh_bench (config_for dev cf) (site_env ord) (site_lib dev) addr exec_fn) (\<lambda>_. site_up dev)"
proof (rule exchangesI)
  fix w assume w: "site_up dev w"
  let ?is = "ord (cf_concurrency cf) (cf_iterations cf)"
  obtain rs cnt w' where "run_order (fresh_iter (config_for dev cf) (site_env ord) (site_lib dev) addr exec_fn) ?is
      (replicate (cf_iterations cf) 0) (make_counters (config_for dev cf), w) = Some (rs, cnt, w')" "site_up dev w'"
    "si_pkts w' = (fst (si_pkts w) + length ?is * Suc k, snd (si_pkts w) + length ?is * Suc k)"
    using run_order_exchanges[where iter = "fresh_iter (config_for dev cf) (site_env ord) (site_lib dev) addr exec_fn",
        OF fresh_iter_exchanges[OF exec] w] by blast
  then show "\<exists>a w'. ssh_fresh_bench (config_for dev cf) (site_env ord) (site_lib dev) addr exec_fn w = Some (a, w')
      \<and> site_up dev w' \<and> si_pkts w' = (fst (si_pkts w) + cf_iterations cf * Suc k, snd (si_pkts w) + cf_iterations cf * Suc k)"
    using n ord by (simp add: ssh_fresh_bench_def run_mode_def config_for_def site_env_def)
qed

lemma pkt_reset_site:
  "cf_pkt_counter cf \<Longrightarrow> si_pkts (pkt_reset (config_for dev cf) (site_env ord) w) = (0, 0)"
  "site_up dev (pkt_reset cf (site_env ord) w) = site_up dev w"
  by (simp_all add: pkt_reset_def config_for_def site_env_def site_up_def)

text \<open>
  What the fresh and the batch mode exchange after the reset before them, and what the rows carry.
\<close>

lemma ssh_exec_rows:
  assumes up: "site_up dev w" and n: "0 < cf_concurrency cf" and p: "cf_pkt_counter cf"
    and ord: "length (ord (cf_concurrency cf) (cf_iterations cf)) = cf_iterations cf"
  shows "\<exists>tc w1. ssh_fresh_bench (config_for dev cf) (site_env ord) (site_lib dev) (cf_addr cf)
         (exec_shows (site_lib dev) (cf_commands cf)) (pkt_reset (config_for dev cf) (site_env ord) w) = Some (tc, w1)
     \<and> si_pkts w1 = (cf_iterations cf * (1 + 2 * cf_commands cf), cf_iterations cf * (1 + 2 * cf_commands cf))"
    and "\<exists>rs w'. ssh_modes_exec (config_for dev cf) (site_env ord) (site_lib dev) w = Some (rs, w')
     \<and> map (\<lambda>r. (r_operation r, r_packets_in r, r_packets_out r)) rs =
         map (\<lambda>op. (op, int (3 * cf_iterations cf), int (3 * cf_iterations cf))) [''fresh-conn'', ''reuse-conn'', ''batch-exec'']"
proof -
  let ?cf = "config_for dev cf" and ?env = "site_env ord" and ?lib = "site_lib dev"
  let ?fresh = "exec_shows ?lib (cf_commands cf)" and ?batch = "one_exec ?lib (generate_exec_payload (cf_commands cf))"
  have cf: "cf_addr ?cf = cf_addr cf" "cf_commands ?cf = cf_commands cf" "cf_pkt_counter ?cf" "0 < cf_concurrency ?cf"
    using n p by (simp_all add: config_for_def)
  note f = fresh_bench_exchanges[where dev = dev and cf = cf and ord = ord and addr = "cf_addr cf", OF _ n ord]
  note reset = pkt_reset_site(1)[OF p, of dev ord] pkt_reset_site(2)[of dev ?cf ord]
  obtain tc1 w1 where 1: "ssh_fresh_bench ?cf ?env ?lib (cf_addr cf) ?fresh (pkt_reset ?cf ?env w) = Some (tc1, w1)" "site_up dev w1"
    "si_pkts w1 = (cf_iterations cf * Suc (2 * cf_commands cf), cf_iterations cf * Suc (2 * cf_commands cf))"
    by (rule exchangesE[OF f[where exec_fn = ?fresh, OF exec_shows_exchanges], of "pkt_reset ?cf ?env w"]) (simp_all add: reset up)
  then show "\<exists>tc w1. ssh_fresh_bench ?cf ?env ?lib (cf_addr cf) ?fresh (pkt_reset ?cf ?env w) = Some (tc, w1)
      \<and> si_pkts w1 = (cf_iterations cf * (1 + 2 * cf_commands cf), cf_iterations cf * (1 + 2 * cf_commands cf))"
    by simp
  obtain r w2 where 2: "ssh_reuse_bench ?cf ?env ?lib (one_exec ?lib ''show version'')
      (exec_shows ?lib (cf_commands cf)) (pkt_reset ?cf ?env w1) = Some (r, w2)" "\<exists>tc. r = Some tc \<and> err_duration \<notin> set (fst tc)" "site_up dev w2"
    by (rule gets_doneE[OF site_site.reuse_bench_up[OF site_site.one_exec_up site_site.exec_shows_up cf(1) cf(4)]
        site_site.pkt_reset_up[OF 1(2)]])
  obtain tc3 w3 where 3: "ssh_fresh_bench ?cf ?env ?lib (cf_addr cf) ?batch (pkt_reset ?cf ?env w2) = Some (tc3, w3)"
    "si_pkts w3 = (cf_iterations cf * Suc 2, cf_iterations cf * Suc 2)"
    by (rule exchangesE[OF f[where exec_fn = ?batch, OF one_exec_exchanges], of "pkt_reset ?cf ?env w2"]) (simp_all add: reset 2(3))
  have "be_pkt_snapshot ?env w3 = si_pkts w3" by (simp add: site_env_def)
  then show "\<exists>rs w'. ssh_modes_exec ?cf ?env ?lib w = Some (rs, w')
      \<and> map (\<lambda>r. (r_operation r, r_packets_in r, r_packets_out r)) rs =
         map (\<lambda>op. (op, int (3 * cf_iterations cf), int (3 * cf_iterations cf))) [''fresh-conn'', ''reuse-conn'', ''batch-exec'']"
    using 1(1) 2(1,2) 3 cf(1-3)
    by (auto simp: ssh_modes_exec_def summarize_mode_row(2) summarize_mode_packets)
qed

end
