(* ===== verification/Netem.thy ===== *)
theory Netem
  imports GoFloat PktCount GoInt
begin

text \<open>
  \<open>internal/netem/netem.go\<close>: the kernel's traffic control set up for a benchmark run. The
  netlink calls are recorded in order; \<open>fails k\<close> is the error of the \<open>k\<close>-th call. What the
  u32 filters select is defined on the header word at the filter's offset.
\<close>

record netem_config =
  wan_delay :: int
  campus_delay :: int
  wan_ports :: "int list"
  campus_ports :: "int list"
  ne_jitter :: int
  ne_loss :: f64

definition make_handle :: "16 word \<Rightarrow> 16 word \<Rightarrow> 32 word" where
  "make_handle major minor = push_bit 16 (ucast major) OR ucast minor"

record u32_filter =
  f_val :: "32 word"
  f_mask :: "32 word"
  f_off :: nat
  f_class :: "32 word"

record netem_qdisc =
  q_handle :: "32 word"
  q_parent :: "32 word"
  q_latency :: "32 word"
  q_jitter :: "32 word"
  q_loss :: f64

datatype nl_call = AddPrio nat | AddNetem netem_qdisc | AddFilter u32_filter | DelRoot

datatype band_err = DelayErr string | DportErr int string | SportErr int string
datatype setup_err = PrioErr string | WanErr band_err | CampusErr band_err

text \<open>The calls so far; a step makes one call and returns its error.\<close>

type_synonym nl_state = "nl_call list"

definition nl :: "(nat \<Rightarrow> string option) \<Rightarrow> nl_call \<Rightarrow> nl_state \<Rightarrow> string option \<times> nl_state" where
  "nl fails call done = (fails (length done), done @ [call])"

section \<open>Setup and teardown\<close>

text \<open>The error of the deletion is ignored by the code.\<close>

definition teardown :: "(nat \<Rightarrow> string option) \<Rightarrow> nl_state \<Rightarrow> nl_state" where
  "teardown fails st = snd (nl fails DelRoot st)"

definition add_u32_filter ::
  "(nat \<Rightarrow> string option) \<Rightarrow> 32 word \<Rightarrow> 32 word \<Rightarrow> nat \<Rightarrow> 16 word \<Rightarrow> nl_state \<Rightarrow> string option \<times> nl_state" where
  "add_u32_filter fails val msk off band st =
     nl fails (AddFilter \<lparr>f_val = val, f_mask = msk, f_off = off, f_class = make_handle 1 band\<rparr>) st"

definition add_port_filter ::
  "(nat \<Rightarrow> string option) \<Rightarrow> int \<Rightarrow> 16 word \<Rightarrow> nl_state \<Rightarrow> band_err option \<times> nl_state" where
  "add_port_filter fails port band st =
     (case add_u32_filter fails (word_of_int port) 0xFFFF 20 band st of
        (Some e, st1) \<Rightarrow> (Some (DportErr port e), st1)
      | (None, st1) \<Rightarrow>
          (case add_u32_filter fails (push_bit 16 (word_of_int port)) 0xFFFF0000 20 band st1 of
             (Some e, st2) \<Rightarrow> (Some (SportErr port e), st2)
           | (None, st2) \<Rightarrow> (None, st2)))"

fun add_port_filters ::
  "(nat \<Rightarrow> string option) \<Rightarrow> int list \<Rightarrow> 16 word \<Rightarrow> nl_state \<Rightarrow> band_err option \<times> nl_state" where
  "add_port_filters fails [] band st = (None, st)"
| "add_port_filters fails (port # ports) band st =
     (case add_port_filter fails port band st of
        (Some e, st1) \<Rightarrow> (Some e, st1)
      | (None, st1) \<Rightarrow> add_port_filters fails ports band st1)"

text \<open>\<open>Microseconds\<close> cut to 32 bits; the loss becomes a \<open>float32\<close>.\<close>

definition micros32 :: "int \<Rightarrow> 32 word" where
  "micros32 d = word_of_int (d sdiv 1000)"

definition netem_of :: "16 word \<Rightarrow> int \<Rightarrow> int \<Rightarrow> f64 \<Rightarrow> netem_qdisc" where
  "netem_of band dly jit loss =
     \<lparr>q_handle = make_handle (band * 10) 0, q_parent = make_handle 1 band,
      q_latency = micros32 dly, q_jitter = micros32 jit, q_loss = fl32 loss\<rparr>"

definition add_netem_band ::
  "(nat \<Rightarrow> string option) \<Rightarrow> 16 word \<Rightarrow> int \<Rightarrow> int \<Rightarrow> f64 \<Rightarrow> int list \<Rightarrow> nl_state \<Rightarrow> band_err option \<times> nl_state" where
  "add_netem_band fails band dly jit loss ports st =
     (case nl fails (AddNetem (netem_of band dly jit loss)) st of
        (Some e, st1) \<Rightarrow> (Some (DelayErr e), st1)
      | (None, st1) \<Rightarrow> add_port_filters fails ports band st1)"

definition netem_setup :: "(nat \<Rightarrow> string option) \<Rightarrow> netem_config \<Rightarrow> nl_state \<Rightarrow> setup_err option \<times> nl_state" where
  "netem_setup fails c st0 =
     (let st1 = teardown fails st0
      in case nl fails (AddPrio 4) st1 of
        (Some e, st2) \<Rightarrow> (Some (PrioErr e), st2)
      | (None, st2) \<Rightarrow>
     (case (if wan_delay c > 0 then add_netem_band fails 2 (wan_delay c) (ne_jitter c) (ne_loss c) (wan_ports c) st2
            else (None, st2)) of
        (Some e, st3) \<Rightarrow> (Some (WanErr e), teardown fails st3)
      | (None, st3) \<Rightarrow>
     (case (if campus_delay c > 0 then add_netem_band fails 3 (campus_delay c) 0 0 (campus_ports c) st3
            else (None, st3)) of
        (Some e, st4) \<Rightarrow> (Some (CampusErr e), teardown fails st4)
      | (None, st4) \<Rightarrow> (None, st4))))"

section \<open>What a run leaves in the kernel\<close>

text \<open>
  The configuration the calls build: deleting the root clears it, everything else adds to it;
  a call that failed changes nothing.
\<close>

fun installed :: "(nat \<Rightarrow> string option) \<Rightarrow> nat \<Rightarrow> nl_call list \<Rightarrow> nl_call list \<Rightarrow> nl_call list" where
  "installed fails k cur [] = cur"
| "installed fails k cur (DelRoot # calls) =
     installed fails (Suc k) (if fails k = None then [] else cur) calls"
| "installed fails k cur (call # calls) =
     installed fails (Suc k) (if fails k = None then cur @ [call] else cur) calls"

definition band_calls :: "16 word \<Rightarrow> int \<Rightarrow> int \<Rightarrow> f64 \<Rightarrow> int list \<Rightarrow> nl_call list" where
  "band_calls band dly jit loss ports =
     AddNetem (netem_of band dly jit loss) #
     concat (map (\<lambda>p. [AddFilter \<lparr>f_val = word_of_int p, f_mask = 0xFFFF, f_off = 20, f_class = make_handle 1 band\<rparr>,
                       AddFilter \<lparr>f_val = push_bit 16 (word_of_int p), f_mask = 0xFFFF0000, f_off = 20,
                                 f_class = make_handle 1 band\<rparr>]) ports)"

definition wanted :: "netem_config \<Rightarrow> nl_call list" where
  "wanted c = AddPrio 4
     # (if wan_delay c > 0 then band_calls 2 (wan_delay c) (ne_jitter c) (ne_loss c) (wan_ports c) else [])
     @ (if campus_delay c > 0 then band_calls 3 (campus_delay c) 0 0 (campus_ports c) else [])"

lemma installed_append:
  "installed fails k cur (xs @ ys) = installed fails (k + length xs) (installed fails k cur xs) ys"
  by (induction fails k cur xs rule: installed.induct) auto

lemma installed_teardown:
  "installed fails 0 [] (teardown fails st) = (if fails (length st) = None then [] else installed fails 0 [] st)"
  by (simp add: teardown_def nl_def installed_append)

lemma teardown_works: "fails (length (teardown fails st) - 1) = None \<Longrightarrow> installed fails 0 [] (teardown fails st) = []"
  by (simp add: installed_teardown) (simp add: teardown_def nl_def)

text \<open>A run of calls from one state to a later one, all of which succeed.\<close>

definition all_ok_calls :: "(nat \<Rightarrow> string option) \<Rightarrow> nl_state \<Rightarrow> nl_call list \<Rightarrow> nl_state \<Rightarrow> bool" where
  "all_ok_calls fails st calls st' \<longleftrightarrow> st' = st @ calls \<and> DelRoot \<notin> set calls
     \<and> (\<forall>i < length calls. fails (length st + i) = None)"

lemma installed_ok:
  "DelRoot \<notin> set calls \<Longrightarrow> \<forall>i < length calls. fails (k + i) = None \<Longrightarrow>
     installed fails k cur calls = cur @ calls"
proof (induction calls arbitrary: k cur)
  case (Cons call calls)
  have "fails k = None" using Cons.prems(2) by force
  moreover have "\<forall>i < length calls. fails (Suc k + i) = None"
    using Cons.prems(2) by auto
  ultimately show ?case using Cons by (cases call) auto
qed simp

lemma all_ok_installed:
  "all_ok_calls fails st calls st' \<Longrightarrow> installed fails 0 [] st' = installed fails 0 [] st @ calls"
  by (auto simp: all_ok_calls_def installed_append installed_ok)

lemma all_ok_Nil: "all_ok_calls fails st [] st"
  by (simp add: all_ok_calls_def)

lemma all_ok_trans:
  "all_ok_calls fails st xs st1 \<Longrightarrow> all_ok_calls fails st1 ys st2 \<Longrightarrow> all_ok_calls fails st (xs @ ys) st2"
  by (auto simp: all_ok_calls_def)
    (metis add.assoc add_diff_inverse_nat less_diff_conv2 linorder_not_less add.commute)

lemma nl_ok: "nl fails call st = (None, st') \<Longrightarrow> call \<noteq> DelRoot \<Longrightarrow> all_ok_calls fails st [call] st'"
  by (auto simp: nl_def all_ok_calls_def)

lemma add_port_filter_ok:
  "add_port_filter fails port band st = (None, st') \<Longrightarrow>
     all_ok_calls fails st
       [AddFilter \<lparr>f_val = word_of_int port, f_mask = 0xFFFF, f_off = 20, f_class = make_handle 1 band\<rparr>,
        AddFilter \<lparr>f_val = push_bit 16 (word_of_int port), f_mask = 0xFFFF0000, f_off = 20,
                  f_class = make_handle 1 band\<rparr>] st'"
  using all_ok_trans[of fails st "[x]" _ "[y]" for x y]
  by (fastforce simp: add_port_filter_def add_u32_filter_def dest: nl_ok split: prod.splits option.splits)

lemma add_port_filters_ok:
  "add_port_filters fails ports band st = (None, st') \<Longrightarrow>
     all_ok_calls fails st (tl (band_calls band dly jit loss ports)) st'"
proof (induction ports arbitrary: st)
  case Nil
  then show ?case by (simp add: band_calls_def all_ok_Nil)
next
  case (Cons p ports)
  then obtain st1 where 1: "add_port_filter fails p band st = (None, st1)"
    and 2: "add_port_filters fails ports band st1 = (None, st')"
    by (auto split: prod.splits option.splits)
  from all_ok_trans[OF add_port_filter_ok[OF 1] Cons.IH[OF 2]] show ?case by (simp add: band_calls_def)
qed

lemma add_netem_band_ok:
  assumes "add_netem_band fails band dly jit loss ports st = (None, st')"
  shows "all_ok_calls fails st (band_calls band dly jit loss ports) st'"
proof -
  obtain st1 where 1: "nl fails (AddNetem (netem_of band dly jit loss)) st = (None, st1)"
    and 2: "add_port_filters fails ports band st1 = (None, st')"
    using assms by (auto simp: add_netem_band_def split: prod.splits option.splits)
  have "all_ok_calls fails st [AddNetem (netem_of band dly jit loss)] st1" using nl_ok[OF 1] by simp
  from all_ok_trans[OF this add_port_filters_ok[OF 2, of dly jit loss]] show ?thesis
    by (simp add: band_calls_def)
qed

text \<open>A band that is wanted only with a delay.\<close>

lemma band_installs:
  assumes "(if dly > 0 then add_netem_band fails band dly jit loss ports st else (None, st)) = (None, st')"
    and "installed fails 0 [] st = calls"
  shows "installed fails 0 [] st' = calls @ (if dly > 0 then band_calls band dly jit loss ports else [])"
proof -
  have "all_ok_calls fails st (if dly > 0 then band_calls band dly jit loss ports else []) st'"
    using assms(1) add_netem_band_ok by (auto simp: all_ok_Nil split: if_splits)
  then show ?thesis using all_ok_installed assms(2) by fastforce
qed

text \<open>
  Success leaves exactly the wanted configuration. A failure leaves nothing, unless the deletion
  that cleans up fails too.
\<close>

lemma setup_installs:
  assumes "netem_setup fails c [] = (r, st')" and del: "fails (length st' - 1) = None"
  shows "installed fails 0 [] st' = (if r = None then wanted c else [])"
proof -
  let ?s1 = "teardown fails []"
  have clear: "installed fails 0 [] ?s1 = []" by (simp add: installed_teardown)
  obtain e2 s2 where 2: "nl fails (AddPrio 4) ?s1 = (e2, s2)" by fastforce
  show ?thesis
  proof (cases e2)
    case (Some e)
    then have "installed fails 0 [] s2 = []"
      using 2 clear by (auto simp: nl_def installed_append)
    then show ?thesis using assms 2 Some by (auto simp: netem_setup_def Let_def)
  next
    case None
    then have i2: "installed fails 0 [] s2 = [AddPrio 4]"
      using all_ok_installed[OF nl_ok] 2 clear by fastforce
    let ?wan = "if wan_delay c > 0 then add_netem_band fails 2 (wan_delay c) (ne_jitter c) (ne_loss c) (wan_ports c) s2
            else (None, s2)"
    obtain e3 s3 where 3: "?wan = (e3, s3)" by fastforce
    show ?thesis
    proof (cases e3)
      case (Some e)
      have "netem_setup fails c [] = (Some (WanErr e), teardown fails s3)"
        unfolding netem_setup_def Let_def 2 None prod.case option.case 3 Some ..
      then show ?thesis using assms teardown_works[of fails s3] by simp
    next
      case None3: None
      let ?w = "if wan_delay c > 0 then band_calls 2 (wan_delay c) (ne_jitter c) (ne_loss c) (wan_ports c) else []"
      have i3: "installed fails 0 [] s3 = [AddPrio 4] @ ?w" by (rule band_installs[OF _ i2]) (simp only: 3 None3)
      let ?campus = "if campus_delay c > 0 then add_netem_band fails 3 (campus_delay c) 0 0 (campus_ports c) s3
            else (None, s3)"
      obtain e4 s4 where 4: "?campus = (e4, s4)" by fastforce
      have step: "netem_setup fails c [] = (case e4 of Some e \<Rightarrow> (Some (CampusErr e), teardown fails s4)
          | None \<Rightarrow> (None, s4))"
        unfolding netem_setup_def Let_def 2 None prod.case option.case 3 None3 4 by (simp split: option.split)
      show ?thesis
      proof (cases e4)
        case (Some e)
        then show ?thesis using assms step teardown_works[of fails s4] by auto
      next
        case None
        then show ?thesis using assms step band_installs[OF _ i3] 4 by (simp add: wanted_def)
      qed
    qed
  qed
qed

section \<open>What the filters select\<close>

text \<open>
  A u32 key compares the masked word at its offset. With a header of 20 bytes that word holds
  the source port above the destination port.
\<close>

definition u32_matches :: "u32_filter \<Rightarrow> 32 word \<Rightarrow> bool" where
  "u32_matches f w \<longleftrightarrow> w AND f_mask f = f_val f"

definition port_word :: "16 word \<Rightarrow> 16 word \<Rightarrow> 32 word" where
  "port_word src dst = push_bit 16 (ucast src) OR ucast dst"

definition port_filters :: "16 word \<Rightarrow> int \<Rightarrow> u32_filter list" where
  "port_filters band p =
     [\<lparr>f_val = word_of_int p, f_mask = 0xFFFF, f_off = 20, f_class = make_handle 1 band\<rparr>,
      \<lparr>f_val = push_bit 16 (word_of_int p), f_mask = 0xFFFF0000, f_off = 20, f_class = make_handle 1 band\<rparr>]"

lemma port_word_low: "port_word src dst AND 0xFFFF = ucast dst"
proof -
  have eq: "(0xFFFF :: 32 word) = mask 16" by (simp add: mask_eq_exp_minus_1)
  show ?thesis unfolding eq port_word_def
    by (rule bit_word_eqI) (auto simp: bit_simps dest: bit_imp_le_length)
qed

lemma port_word_high: "port_word src dst AND 0xFFFF0000 = push_bit 16 (ucast src)"
proof -
  have eq: "(0xFFFF0000 :: 32 word) = push_bit 16 (mask 16)"
    by (simp add: mask_eq_exp_minus_1 push_bit_eq_mult)
  show ?thesis unfolding eq port_word_def
    by (rule bit_word_eqI) (auto simp: bit_simps simp del: push_bit_of_1 dest: bit_imp_le_length)
qed

lemma word16_in_32: "0 \<le> p \<Longrightarrow> p < 2 ^ 16 \<Longrightarrow> (ucast (w :: 16 word) :: 32 word) = word_of_int p \<longleftrightarrow> w = word_of_int p"
proof
  assume p: "0 \<le> p" "p < 2 ^ 16"
  {
    assume "(ucast w :: 32 word) = word_of_int p"
    then have "uint (ucast w :: 32 word) = uint (word_of_int p :: 32 word)" by simp
    then have "uint w = p" using p by (simp add: uint_word_of_int uint_up_ucast is_up)
    then show "w = word_of_int p" by (metis word_of_int_uint)
  }
  assume "w = word_of_int p"
  then have "uint w = p" using p by (simp add: uint_word_of_int)
  then show "(ucast w :: 32 word) = word_of_int p" by (metis uint_word_of_int_eq ucast_eq)
qed

lemma push_bit_16_inject:
  "push_bit 16 (ucast (v :: 16 word) :: 32 word) = push_bit 16 (ucast w) \<longleftrightarrow> v = w"
proof
  assume "push_bit 16 (ucast v :: 32 word) = push_bit 16 (ucast w)"
  then have eq: "bit (push_bit 16 (ucast v :: 32 word)) (n + 16) = bit (push_bit 16 (ucast w :: 32 word)) (n + 16)" for n
    by simp
  show "v = w"
  proof (rule bit_word_eqI)
    fix n assume "n < LENGTH(16)"
    then show "bit v n = bit w n" using eq[of n] by (simp add: bit_simps)
  qed
qed simp

text \<open>The filters of a port select exactly the packets that come from it or go to it.\<close>

lemma port_filters_select:
  assumes "0 \<le> p" "p < 2 ^ 16"
  shows "list_ex (\<lambda>f. u32_matches f (port_word src dst)) (port_filters band p) \<longleftrightarrow>
     dst = word_of_int p \<or> src = word_of_int p"
proof -
  let ?p = "word_of_int p :: 16 word"
  have u: "(word_of_int p :: 32 word) = ucast ?p" using word16_in_32[OF assms, of ?p] by simp
  show ?thesis
    using word16_in_32[OF assms, of dst]
    by (simp add: port_filters_def u32_matches_def port_word_low port_word_high push_bit_16_inject u)
qed

end
