(* ===== verification/BenchProxy.thy ===== *)
theory BenchProxy
  imports BenchHttp
begin

text \<open>
  The driver of the site proxies, \<open>Proxy\<close> in \<open>bench.go\<close>. It posts the batch payload to the
  HTTPS and HTTP/3 addresses of a proxy that dials for every request and of one that keeps its
  connection.
\<close>

record proxy_addrs =
  pa_fresh :: string
  pa_pooled :: string
  pa_h3_fresh :: string
  pa_h3_pooled :: string

section \<open>One post over a transport of its own\<close>

text \<open>
  The local functions \<open>doProxy\<close> and \<open>doProxyH3\<close>: the duration and the three counts, which are zero
  after an error. \<open>doProxyH3\<close> closes its transport, \<open>doProxy\<close> leaves its keep-alive connection.
\<close>

definition proxy_once ::
  "'w bench_env \<Rightarrow> ('tr, 'c, 't, 'w) http_setup \<Rightarrow> ('tr \<Rightarrow> ('w, 't) local request_op) \<Rightarrow>
     'w \<Rightarrow> (int \<times> (int \<times> int \<times> int)) \<times> 'w" where
  "proxy_once env hs post w =
     (let (start, w1) = be_now env w;
          (tr, v1) = hl_new (hs_lib hs) (hs_kind hs) (hs_dial hs) (w1, []);
          (err, v2) = post tr v1;
          v3 = hs_after hs tr v2
      in case err of
           Some e \<Rightarrow> ((err_duration, (0, 0, 0)), fst v3)
         | None \<Rightarrow>
             let counts = (case last_conn (hs_counts hs) v3 of Some c \<Rightarrow> counts_of c | None \<Rightarrow> (0, 0, 0));
                 (now, w2) = be_now env (fst v3)
             in ((now - start, counts), w2))"

text \<open>The counts are stored and the resources recorded whether the post succeeded or not.\<close>

definition proxy_iter ::
  "bench_config \<Rightarrow> 'w bench_env \<Rightarrow> ('w \<Rightarrow> (int \<times> (int \<times> int \<times> int)) \<times> 'w) \<Rightarrow> 'w iteration" where
  "proxy_iter cf env once idx st =
     (case st of (cnt, w) \<Rightarrow>
        let (snap, w1) = resource_snap cf env w;
            ((d, counts), w2) = once w1;
            (cnt1, w3) = resource_record cf env idx snap (store_counts idx counts cnt, w2)
        in Some (d, cnt1, w3))"

section \<open>The driver\<close>

definition proxy_mode ::
  "bench_config \<Rightarrow> 'w bench_env \<Rightarrow> string \<Rightarrow> ('w \<Rightarrow> ((int list \<times> iter_counts) \<times> 'w) option) \<Rightarrow>
     'w \<Rightarrow> (bench_result \<times> 'w) option" where
  "proxy_mode cf env op mode w = do {
     (tc, w1) \<leftarrow> mode (pkt_reset cf env w);
     Some (summarize_mode cf env ''proxy'' op tc w1, w1)
   }"

text \<open>The HTTP/3 modes, where an address is set.\<close>

definition proxy_h3_modes ::
  "bench_config \<Rightarrow> proxy_addrs \<Rightarrow> 'w bench_env \<Rightarrow> (string \<Rightarrow> 'w iteration) \<Rightarrow>
     'w \<Rightarrow> (bench_result list \<times> 'w) option" where
  "proxy_h3_modes cf pa env once3 w =
     (if pa_h3_fresh pa \<noteq> [] then do {
        (fresh, w1) \<leftarrow> proxy_mode cf env ''h3-fresh-ssh'' (run_mode cf env (once3 (pa_h3_fresh pa))) w;
        (pooled, w2) \<leftarrow> proxy_mode cf env ''h3-pooled-ssh'' (run_mode cf env (once3 (pa_h3_pooled pa))) w1;
        Some ([fresh, pooled], w2)
      } else Some ([], w))"

definition proxy_h3_keep ::
  "bench_config \<Rightarrow> proxy_addrs \<Rightarrow> 'w bench_env \<Rightarrow> (string \<Rightarrow> 'w \<Rightarrow> ((int list \<times> iter_counts) \<times> 'w) option) \<Rightarrow>
     'w \<Rightarrow> (bench_result list \<times> 'w) option" where
  "proxy_h3_keep cf pa env keep3 w =
     (if pa_h3_pooled pa \<noteq> [] then do {
        (r, w1) \<leftarrow> proxy_mode cf env ''h3-keep-alive'' (keep3 (pa_h3_pooled pa)) w;
        Some ([r], w1)
      } else Some ([], w))"

definition proxy_bench ::
  "(string \<Rightarrow> string) \<Rightarrow> bench_config \<Rightarrow> proxy_addrs \<Rightarrow> 'w bench_env \<Rightarrow> ('tr, 'c, ('w, 't) local) http_lib \<Rightarrow>
     ('t, 'c, 'w) net_lib \<Rightarrow> ('tr3, 'c3, ('w, 't3) local) http_lib \<Rightarrow> ('t3, 'c3, 'w) udp_lib \<Rightarrow>
     'w \<Rightarrow> (bench_result list \<times> 'w) option" where
  "proxy_bench parse_err cf pa env lib net lib3 udp w = do {
     let payload = generate_exec_payload (cf_commands cf);
     let post = (\<lambda>addr tr. do_proxy_post parse_err lib tr addr (cf_user cf) (cf_pass cf) payload);
     let post3 = (\<lambda>addr tr. do_proxy_post parse_err lib3 tr addr (cf_user cf) (cf_pass cf) payload);
     let https = https_setup lib net KeepAlive False;
     let h3 = http3_setup lib3 udp Http3;
     let once = (\<lambda>addr. proxy_iter cf env (proxy_once env https (post addr)));
     let once3 = (\<lambda>addr. proxy_iter cf env (proxy_once env h3 (post3 addr)));
     (fresh, w1) \<leftarrow> proxy_mode cf env ''fresh-ssh'' (run_mode cf env (once (pa_fresh pa))) w;
     (pooled, w2) \<leftarrow> proxy_mode cf env ''pooled-ssh'' (run_mode cf env (once (pa_pooled pa))) w1;
     (h3_rows, w3) \<leftarrow> proxy_h3_modes cf pa env once3 w2;
     (keep, w4) \<leftarrow> proxy_mode cf env ''keep-alive''
        (http_shared_mode cf env https (post (pa_pooled pa)) (post (pa_pooled pa))) w3;
     (h3_keep, w5) \<leftarrow> proxy_h3_keep cf pa env (\<lambda>addr. http_shared_mode cf env h3 (post3 addr) (post3 addr)) w4;
     Some ([fresh, pooled] @ h3_rows @ [keep] @ h3_keep, w5)
   }"

section \<open>Rows\<close>

lemma proxy_mode_row:
  assumes "proxy_mode cf env op mode w = Some (r, w')"
  shows "r_transport r = ''proxy''" "r_operation r = op"
    "cf_pkt_counter cf \<Longrightarrow> r_packets_in r = int (fst (be_pkt_snapshot env w'))"
  using assms by (auto simp: proxy_mode_def summarize_mode_row summarize_mode_packets elim!: bind_SomeE)

text \<open>The rows in their order; the HTTP/3 rows depend on the addresses that are set.\<close>

lemma proxy_h3_operations:
  "proxy_h3_modes cf pa env once3 w = Some (rs, w') \<Longrightarrow>
     map r_operation rs = (if pa_h3_fresh pa \<noteq> [] then [''h3-fresh-ssh'', ''h3-pooled-ssh''] else [])"
  "proxy_h3_keep cf pa env keep3 w = Some (rs, w') \<Longrightarrow>
     map r_operation rs = (if pa_h3_pooled pa \<noteq> [] then [''h3-keep-alive''] else [])"
  by (auto simp: proxy_h3_modes_def proxy_h3_keep_def proxy_mode_row(2) split: if_splits elim!: bind_SomeE)

lemma proxy_bench_operations:
  assumes "proxy_bench parse_err cf pa env lib net lib3 udp w = Some (rs, w')"
  shows "map r_operation rs = [''fresh-ssh'', ''pooled-ssh'']
      @ (if pa_h3_fresh pa \<noteq> [] then [''h3-fresh-ssh'', ''h3-pooled-ssh''] else [])
      @ [''keep-alive''] @ (if pa_h3_pooled pa \<noteq> [] then [''h3-keep-alive''] else [])"
  using assms unfolding proxy_bench_def Let_def
  by (elim bind_pairE) ((drule proxy_mode_row(2) proxy_h3_operations)+, simp only: option.inject prod.inject, elim conjE, hypsubst, simp only: map_append list.map)

end
