(* ===== verification/Output.thy ===== *)
theory Output
  imports Summary GoUtf8 GoNumbers
begin

text \<open>
  What a run prints, \<open>cmd/clibench/format.go\<close> and \<open>outputResults\<close>: CSV and aligned tables, with what
  they use of \<open>fmt\<close>, \<open>encoding/csv\<close> and \<open>text/tabwriter\<close>. The JSON encoder is an argument. Writing to
  the standard output does not fail.

  A table is rectangular and its cells hold no tabs or line breaks, so all lines belong to the
  same column blocks of the tab writer.
\<close>

section \<open>Numbers with a fixed number of decimals\<close>

text \<open>\<open>%.nf\<close>: the exact value of the float, rounded to \<open>n\<close> decimals, ties to even.\<close>

definition fixed_digits :: "nat \<Rightarrow> f64 \<Rightarrow> nat" where
  "fixed_digits n x = nat (round_even (\<bar>x\<bar> * 10 ^ n))"

definition pad_zero :: "nat \<Rightarrow> string \<Rightarrow> string" where
  "pad_zero n s = replicate (n - length s) (CHR ''0'') @ s"

definition fixed :: "nat \<Rightarrow> f64 \<Rightarrow> string" where
  "fixed n x =
     (let k = fixed_digits n x
      in (if x < 0 then ''-'' else []) @ dec (k div 10 ^ n)
       @ (if n = 0 then [] else CHR ''.'' # pad_zero n (dec (k mod 10 ^ n))))"

section \<open>CSV\<close>

definition csv_needs_quotes :: "string \<Rightarrow> bool" where
  "csv_needs_quotes s \<longleftrightarrow> s \<noteq> [] \<and>
     (s = [CHR 0x5C, CHR ''.''] \<or> list_ex (\<lambda>c. c = NL \<or> c = CR \<or> c = DQ \<or> c = CHR '','') s \<or> lead_rune space_runes s \<noteq> 0)"

definition csv_field :: "string \<Rightarrow> string" where
  "csv_field s =
     (if csv_needs_quotes s then DQ # concat (map (\<lambda>c. if c = DQ then [DQ, DQ] else [c]) s) @ [DQ] else s)"

definition csv_record :: "string list \<Rightarrow> string" where
  "csv_record cols = join '','' (map csv_field cols) @ [NL]"

definition csv_header :: "string list" where
  "csv_header =
     [''transport'', ''operation'', ''commands'', ''iterations'', ''errors'', ''concurrency'', ''latency_profile'',
      ''simulated_rtt_ms'', ''round_trips'', ''read_ops'', ''write_ops'', ''packets_in'', ''packets_out'', ''cpu_us'',
      ''alloc_bytes'', ''allocs'', ''avg_ms'', ''min_ms'', ''p50_ms'', ''p95_ms'', ''max_ms'', ''stddev_ms'']"

definition csv_cols :: "bench_result \<Rightarrow> string list" where
  "csv_cols r =
     [r_transport r, r_operation r, dec_int (r_commands r), dec_int (r_iterations r), dec_int (r_errors r),
      dec_int (r_concurrency r), r_latency r, fixed 1 (r_rtt_ms r), dec_int (r_round_trips r), dec_int (r_read_ops r),
      dec_int (r_write_ops r), dec_int (r_packets_in r), dec_int (r_packets_out r), dec_int (r_cpu_us r),
      dec_int (r_alloc_bytes r), dec_int (r_allocs r), fixed 3 (r_avg_ms r), fixed 3 (r_min_ms r), fixed 3 (r_p50_ms r),
      fixed 3 (r_p95_ms r), fixed 3 (r_max_ms r), fixed 3 (r_stddev_ms r)]"

definition write_csv :: "bench_result list \<Rightarrow> string" where
  "write_csv rs = csv_record csv_header @ concat (map (\<lambda>r. csv_record (csv_cols r)) rs)"

definition sweep_csv_header :: "string list" where
  "sweep_csv_header =
     [''transport'', ''concurrency'', ''commands'', ''errors'', ''latency_profile'', ''simulated_rtt_ms'', ''setup_ms'',
      ''wall_ms'', ''p50_ms'', ''p95_ms'', ''ops_per_sec'', ''live_heap_mb'']"

definition sweep_csv_cols :: "bench_result \<Rightarrow> string list" where
  "sweep_csv_cols r =
     [r_transport r, dec_int (r_sweep_n r), dec_int (r_commands r), dec_int (r_errors r), r_latency r,
      fixed 1 (r_rtt_ms r), fixed 3 (r_setup_ms r), fixed 3 (r_wall_ms r), fixed 3 (r_p50_ms r), fixed 3 (r_p95_ms r),
      fixed 3 (r_ops_per_sec r), fixed 3 (r_live_heap_mb r)]"

definition write_sweep_csv :: "bench_result list \<Rightarrow> string" where
  "write_sweep_csv rs = csv_record sweep_csv_header @ concat (map (\<lambda>r. csv_record (sweep_csv_cols r)) rs)"

section \<open>Tables\<close>

function rune_count :: "string \<Rightarrow> nat" where
  "rune_count s = (case s of [] \<Rightarrow> 0 | c # cs \<Rightarrow> Suc (rune_count (drop (snd (decode_rune s)) s)))"
  by pat_completeness auto
termination
  by (relation "measure length") (use decode_rune_width in auto)

declare rune_count.simps [simp del]

text \<open>
  A tab writer with padding 2: every cell but the last of a line is filled with blanks to the
  width of its column, the widest cell and the padding.
\<close>

definition cell_width :: "string \<Rightarrow> nat" where
  "cell_width c = rune_count c + 2"

fun col_widths :: "string list list \<Rightarrow> nat list" where
  "col_widths [] = []"
| "col_widths [cells] = map cell_width (butlast cells)"
| "col_widths (cells # rest) = map2 max (map cell_width (butlast cells)) (col_widths rest)"

definition pad_cell :: "nat \<Rightarrow> string \<Rightarrow> string" where
  "pad_cell w c = c @ replicate (w - rune_count c) (CHR '' '')"

definition tab_line :: "nat list \<Rightarrow> string list \<Rightarrow> string" where
  "tab_line ws cells = concat (map2 pad_cell ws (butlast cells)) @ last cells @ [NL]"

definition tab_table :: "string list list \<Rightarrow> string" where
  "tab_table rows = concat (map (tab_line (col_widths rows)) rows)"

definition table_header :: "string list" where
  "table_header =
     [''TRANSPORT'', ''OPERATION'', ''CMDS'', ''ITER'', ''ERR'', ''RT'', ''RD_OPS'', ''WR_OPS'', ''PKT_IN'', ''PKT_OUT'',
      ''CPU_US'', ''ALLOC_B'', ''ALLOCS'', ''AVG(ms)'', ''MIN(ms)'', ''P50(ms)'', ''P95(ms)'', ''MAX(ms)'', ''STDDEV(ms)'']"

definition table_cols :: "bench_result \<Rightarrow> string list" where
  "table_cols r =
     [r_transport r, r_operation r, dec_int (r_commands r), dec_int (r_iterations r), dec_int (r_errors r),
      dec_int (r_round_trips r), dec_int (r_read_ops r), dec_int (r_write_ops r), dec_int (r_packets_in r),
      dec_int (r_packets_out r), dec_int (r_cpu_us r), dec_int (r_alloc_bytes r), dec_int (r_allocs r),
      fixed 2 (r_avg_ms r), fixed 2 (r_min_ms r), fixed 2 (r_p50_ms r), fixed 2 (r_p95_ms r), fixed 2 (r_max_ms r),
      fixed 2 (r_stddev_ms r)]"

definition write_table :: "bench_result list \<Rightarrow> string" where
  "write_table rs = tab_table (table_header # map table_cols rs)"

definition sweep_table_header :: "string list" where
  "sweep_table_header =
     [''TRANSPORT'', ''CONCURRENT'', ''CMDS'', ''ERR'', ''SETUP(ms)'', ''WALL(ms)'', ''P50(ms)'', ''P95(ms)'', ''OPS/sec'',
      ''LIVE_HEAP(MB)'']"

definition sweep_table_cols :: "bench_result \<Rightarrow> string list" where
  "sweep_table_cols r =
     [r_transport r, dec_int (r_sweep_n r), dec_int (r_commands r), dec_int (r_errors r), fixed 2 (r_setup_ms r),
      fixed 2 (r_wall_ms r), fixed 2 (r_p50_ms r), fixed 2 (r_p95_ms r), fixed 1 (r_ops_per_sec r), fixed 2 (r_live_heap_mb r)]"

definition write_sweep_table :: "bench_result list \<Rightarrow> string" where
  "write_sweep_table rs = tab_table (sweep_table_header # map sweep_table_cols rs)"

section \<open>Choosing the output\<close>

fun is_sweep :: "bench_result list \<Rightarrow> bool" where
  "is_sweep [] = False"
| "is_sweep (r # rs) = (if r_operation r = ''sweep'' then True else is_sweep rs)"

definition output_results ::
  "(bench_result list \<Rightarrow> string result) \<Rightarrow> string \<Rightarrow> bench_result list \<Rightarrow> string result" where
  "output_results json fmt rs =
     (if fmt = ''json'' then json rs
      else if fmt = ''table'' then Inr (if is_sweep rs then write_sweep_table rs else write_table rs)
      else if fmt = ''csv'' then Inr (if is_sweep rs then write_sweep_csv rs else write_csv rs)
      else Inl (''unknown output format '' @ fmt))"

lemma is_sweep_iff: "is_sweep rs \<longleftrightarrow> (\<exists>r \<in> set rs. r_operation r = ''sweep'')"
  by (induction rs) auto

section \<open>Numbers read back\<close>

lemma digits_val_zeros: "digits_val 0 (replicate k (CHR ''0'') @ ds) = digits_val 0 ds"
  by (induction k) (simp_all add: digit_val_def)

text \<open>The digits of a printed number, without its point, are the rounded multiple.\<close>

lemma dec_length: "k < 10 ^ n \<Longrightarrow> 0 < n \<Longrightarrow> length (dec k) \<le> n"
proof (induction n arbitrary: k)
  case (Suc n)
  show ?case
  proof (cases "k < 10")
    case False
    then have "0 < n" "k div 10 < 10 ^ n" using Suc.prems by (auto simp: div_less_iff_less_mult mult.commute intro: gr0I)
    then show ?thesis using Suc.IH[of "k div 10"] False by (simp add: dec.simps[of k])
  qed (simp add: dec.simps[of k])
qed simp

lemma digits_val_pad: "digits_val 0 (pad_zero n (dec k)) = Some k"
  by (simp add: pad_zero_def digits_val_zeros digits_val_dec)

lemma pad_zero_length: "k < 10 ^ n \<Longrightarrow> 0 < n \<Longrightarrow> length (pad_zero n (dec k)) = n"
  using dec_length[of k n] by (simp add: pad_zero_def)

lemma fixed_shape:
  assumes "0 < n"
  shows "fixed n x = (if x < 0 then ''-'' else []) @ dec (fixed_digits n x div 10 ^ n)
      @ CHR ''.'' # pad_zero n (dec (fixed_digits n x mod 10 ^ n))"
  using assms by (simp add: fixed_def Let_def)

text \<open>What is printed is within half a unit of the last decimal.\<close>

lemma fixed_digits_near: "\<bar>of_nat (fixed_digits n x) / 10 ^ n - \<bar>x\<bar>\<bar> \<le> 1 / (2 * 10 ^ n)"
proof -
  let ?y = "\<bar>x\<bar> * 10 ^ n"
  have "0 \<le> round_even ?y" by (rule round_even_ge) simp
  then have eq: "(of_nat (fixed_digits n x) :: rat) = of_int (round_even ?y)" by (simp add: fixed_digits_def)
  have p: "(0 :: rat) < 10 ^ n" by simp
  have "of_nat (fixed_digits n x) / 10 ^ n - \<bar>x\<bar> = (of_int (round_even ?y) - ?y) / 10 ^ n"
    by (simp add: eq diff_divide_distrib)
  then have "\<bar>of_nat (fixed_digits n x) / 10 ^ n - \<bar>x\<bar>\<bar> = \<bar>of_int (round_even ?y) - ?y\<bar> / 10 ^ n" by simp
  also have "\<dots> \<le> (1 / 2) / 10 ^ n" using round_even_near[of ?y] p by (intro divide_right_mono) simp_all
  finally show ?thesis by simp
qed

lemma digits_val_acc: "digits_val acc ds = map_option (\<lambda>v. acc * 10 ^ length ds + v) (digits_val 0 ds)"
proof (induction ds arbitrary: acc)
  case (Cons c ds)
  show ?case
  proof (cases "digit_val c")
    case (Some d)
    have "digits_val acc (c # ds) = map_option (\<lambda>v. (10 * acc + d) * 10 ^ length ds + v) (digits_val 0 ds)"
      by (simp add: Some Cons[of "10 * acc + d"])
    moreover have "digits_val 0 (c # ds) = map_option (\<lambda>v. d * 10 ^ length ds + v) (digits_val 0 ds)"
      by (simp add: Some Cons[of d])
    ultimately show ?thesis by (simp add: option.map_comp comp_def algebra_simps)
  qed simp
qed simp

text \<open>So a printed number has the wanted decimals, and its digits are close to it.\<close>

lemma fixed_reads:
  "\<exists>ip fp k. fixed (Suc n) x = (if x < 0 then ''-'' else []) @ ip @ CHR ''.'' # fp \<and> length fp = Suc n
     \<and> digits_val 0 (ip @ fp) = Some k \<and> \<bar>of_nat k / 10 ^ Suc n - \<bar>x\<bar>\<bar> \<le> 1 / (2 * 10 ^ Suc n)"
proof (intro exI conjI)
  let ?k = "fixed_digits (Suc n) x"
  let ?ip = "dec (?k div 10 ^ Suc n)" and ?fp = "pad_zero (Suc n) (dec (?k mod 10 ^ Suc n))"
  show "fixed (Suc n) x = (if x < 0 then ''-'' else []) @ ?ip @ CHR ''.'' # ?fp"
    by (simp add: fixed_shape del: power_Suc)
  show len: "length ?fp = Suc n" by (rule pad_zero_length) simp_all
  show "digits_val 0 (?ip @ ?fp) = Some ?k"
    by (simp add: digits_val_append digits_val_dec digits_val_acc[of "?k div 10 ^ Suc n"] digits_val_pad len div_mult_mod_eq del: power_Suc)
  show "\<bar>of_nat ?k / 10 ^ Suc n - \<bar>x\<bar>\<bar> \<le> 1 / (2 * 10 ^ Suc n)" by (rule fixed_digits_near)
qed

section \<open>CSV read back\<close>

text \<open>A reader of the format: fields, quoted or not, separated by commas, in lines that all end.\<close>

datatype csv_state = FieldStart | Bare | Quoted | QuoteSeen

fun csv_scan :: "string \<Rightarrow> csv_state \<Rightarrow> string \<Rightarrow> string list \<Rightarrow> string list list \<Rightarrow> string list list option" where
  "csv_scan [] st cur cols rows = (if st = FieldStart \<and> cols = [] then Some rows else None)"
| "csv_scan (c # cs) Quoted cur cols rows =
     (if c = DQ then csv_scan cs QuoteSeen cur cols rows else csv_scan cs Quoted (cur @ [c]) cols rows)"
| "csv_scan (c # cs) st cur cols rows =
     (if c = CHR '','' then csv_scan cs FieldStart [] (cols @ [cur]) rows
      else if c = NL then csv_scan cs FieldStart [] [] (rows @ [cols @ [cur]])
      else if c = DQ then (case st of FieldStart \<Rightarrow> csv_scan cs Quoted [] cols rows
        | QuoteSeen \<Rightarrow> csv_scan cs Quoted (cur @ [DQ]) cols rows | _ \<Rightarrow> None)
      else if st = QuoteSeen then None
      else csv_scan cs Bare (cur @ [c]) cols rows)"

definition csv_read :: "string \<Rightarrow> string list list option" where
  "csv_read s = csv_scan s FieldStart [] [] []"

text \<open>Where the scanner goes after a field and the character that ends it.\<close>

definition after_field :: "char \<Rightarrow> string \<Rightarrow> string \<Rightarrow> string list \<Rightarrow> string list list \<Rightarrow> string list list option" where
  "after_field c rest f cols rows =
     (if c = NL then csv_scan rest FieldStart [] [] (rows @ [cols @ [f]])
      else csv_scan rest FieldStart [] (cols @ [f]) rows)"

lemma csv_scan_bare:
  assumes "\<forall>c \<in> set f. c \<noteq> DQ \<and> c \<noteq> CHR '','' \<and> c \<noteq> NL" "e = NL \<or> e = CHR '',''" "st = FieldStart \<or> st = Bare"
  shows "csv_scan (f @ e # rest) st cur cols rows = after_field e rest (cur @ f) cols rows"
  using assms(1,3)
proof (induction f arbitrary: cur st)
  case Nil
  then show ?case using assms(2) by (cases st) (auto simp: after_field_def)
next
  case (Cons c f)
  then have "csv_scan ((c # f) @ e # rest) st cur cols rows = csv_scan (f @ e # rest) Bare (cur @ [c]) cols rows"
    by (cases st) auto
  also have "\<dots> = after_field e rest ((cur @ [c]) @ f) cols rows" using Cons by simp
  finally show ?case by simp
qed

lemma csv_scan_quoted:
  assumes "e = NL \<or> e = CHR '',''"
  shows "csv_scan (concat (map (\<lambda>c. if c = DQ then [DQ, DQ] else [c]) f) @ DQ # e # rest) Quoted cur cols rows =
    after_field e rest (cur @ f) cols rows"
proof (induction f arbitrary: cur)
  case Nil
  then show ?case using assms by (auto simp: after_field_def)
qed auto

lemma csv_scan_field:
  assumes "e = NL \<or> e = CHR '',''"
  shows "csv_scan (csv_field f @ e # rest) FieldStart [] cols rows = after_field e rest f cols rows"
proof (cases "csv_needs_quotes f")
  case True
  then show ?thesis using csv_scan_quoted[OF assms, of f rest "[]"] by (simp add: csv_field_def)
next
  case False
  then have "\<forall>c \<in> set f. c \<noteq> DQ \<and> c \<noteq> CHR '','' \<and> c \<noteq> NL" by (auto simp: csv_needs_quotes_def list_ex_iff)
  from csv_scan_bare[OF this assms, of FieldStart rest "[]"] show ?thesis using False by (simp add: csv_field_def)
qed

lemma csv_scan_record:
  "row \<noteq> [] \<Longrightarrow> csv_scan (csv_record row @ rest) FieldStart [] cols rows =
     csv_scan rest FieldStart [] [] (rows @ [cols @ row])"
  unfolding csv_record_def
proof (induction row arbitrary: cols rule: induct_list012)
  case (2 f)
  then show ?case using csv_scan_field[of NL f rest] by (simp add: after_field_def)
next
  case (3 f g row)
  then show ?case using csv_scan_field[of "CHR '',''" f] by (simp add: after_field_def)
qed simp

lemma csv_read_records:
  "[] \<notin> set rows \<Longrightarrow> csv_read (concat (map csv_record rows)) = Some rows"
proof -
  have "[] \<notin> set rows \<Longrightarrow> csv_scan (concat (map csv_record rows)) FieldStart [] [] acc = Some (acc @ rows)" for acc
    by (induction rows arbitrary: acc) (auto simp: csv_scan_record)
  then show "[] \<notin> set rows \<Longrightarrow> ?thesis" by (simp add: csv_read_def)
qed

section \<open>What the columns of a CSV output mean\<close>

text \<open>
  A result as its JSON tags name it (\<open>stats.go\<close>). The columns of a CSV output are named by the
  same tags, but for the level of a sweep.
\<close>

datatype cell = CText string | CInt int | CFloat f64

definition result_fields :: "bench_result \<Rightarrow> (string \<times> cell) list" where
  "result_fields r =
     [(''transport'', CText (r_transport r)), (''operation'', CText (r_operation r)), (''commands'', CInt (r_commands r)),
      (''iterations'', CInt (r_iterations r)), (''errors'', CInt (r_errors r)), (''concurrency'', CInt (r_concurrency r)),
      (''latency_profile'', CText (r_latency r)), (''simulated_rtt_ms'', CFloat (r_rtt_ms r)),
      (''jitter_ms'', CFloat (r_jitter_ms r)), (''loss_pct'', CFloat (r_loss_pct r)),
      (''round_trips'', CInt (r_round_trips r)), (''read_ops'', CInt (r_read_ops r)), (''write_ops'', CInt (r_write_ops r)),
      (''packets_in'', CInt (r_packets_in r)), (''packets_out'', CInt (r_packets_out r)), (''cpu_us'', CInt (r_cpu_us r)),
      (''alloc_bytes'', CInt (r_alloc_bytes r)), (''allocs'', CInt (r_allocs r)), (''sweep_concurrency'', CInt (r_sweep_n r)),
      (''setup_ms'', CFloat (r_setup_ms r)), (''wall_ms'', CFloat (r_wall_ms r)), (''ops_per_sec'', CFloat (r_ops_per_sec r)),
      (''live_heap_mb'', CFloat (r_live_heap_mb r)), (''avg_ms'', CFloat (r_avg_ms r)), (''min_ms'', CFloat (r_min_ms r)),
      (''max_ms'', CFloat (r_max_ms r)), (''p50_ms'', CFloat (r_p50_ms r)), (''p95_ms'', CFloat (r_p95_ms r)),
      (''stddev_ms'', CFloat (r_stddev_ms r))]"

text \<open>The value a decimal number denotes, and when a text stands for a field.\<close>

definition decimal_val :: "string \<Rightarrow> rat option" where
  "decimal_val t =
     (let neg = (t \<noteq> [] \<and> hd t = CHR ''-''); s = (if neg then tl t else t);
          fp = drop 1 (dropWhile (\<lambda>c. c \<noteq> CHR ''.'') s)
      in map_option (\<lambda>k. (if neg then -1 else 1) * of_nat k / 10 ^ length fp)
           (digits_val 0 (takeWhile (\<lambda>c. c \<noteq> CHR ''.'') s @ fp)))"

fun stands_for :: "rat \<Rightarrow> string \<Rightarrow> cell \<Rightarrow> bool" where
  "stands_for eps t (CText s) = (t = s)"
| "stands_for eps t (CInt i) = (decimal_val t = Some (of_int i))"
| "stands_for eps t (CFloat x) = (case decimal_val t of None \<Rightarrow> False | Some v \<Rightarrow> \<bar>v - x\<bar> \<le> eps)"

text \<open>
  A row of cells under a header, read as a result: the cell of each column stands for the field of
  its name, floats to within half a unit of the last decimal printed.
\<close>

definition row_shows :: "(string \<Rightarrow> string) \<Rightarrow> string list \<Rightarrow> bench_result \<Rightarrow> string list \<Rightarrow> bool" where
  "row_shows tag names r cells \<longleftrightarrow>
     list_all2 (\<lambda>nm t. case map_of (result_fields r) (tag nm) of None \<Rightarrow> False
       | Some f \<Rightarrow> stands_for (if nm = ''simulated_rtt_ms'' then 1 / 20 else 1 / 2000) t f) names cells"

lemma digits_no_point: "digits_val acc ds = Some k \<Longrightarrow> CHR ''.'' \<notin> set ds \<and> CHR ''-'' \<notin> set ds"
proof (induction ds arbitrary: acc)
  case (Cons c ds)
  have "digit_val (CHR ''.'') = None" "digit_val (CHR ''-'') = None" by (simp_all add: digit_val_def)
  then show ?case using Cons by (auto split: option.splits)
qed simp

lemma digits_val_prefix: "digits_val 0 (a @ b) = Some k \<Longrightarrow> \<exists>m. digits_val 0 a = Some m"
  by (auto simp: digits_val_append split: option.splits)

lemma decimal_val_int: "decimal_val (dec_int i) = Some (of_int i)"
proof -
  have p: "CHR ''.'' \<notin> set (dec n)" "CHR ''-'' \<notin> set (dec n)" "dec n \<noteq> []" for n
    using digits_no_point[OF digits_val_dec] by auto
  then have w: "takeWhile (\<lambda>c. c \<noteq> CHR ''.'') (dec n) = dec n" "dropWhile (\<lambda>c. c \<noteq> CHR ''.'') (dec n) = []" for n
    by (auto simp: takeWhile_eq_all_conv)
  have h: "hd (dec n) \<noteq> CHR ''-''" for n using p(2,3)[of n] by (metis hd_in_set)
  show ?thesis by (simp add: decimal_val_def dec_int_def w h digits_val_dec)
qed

lemma decimal_val_fixed: "\<exists>v. decimal_val (fixed (Suc n) x) = Some v \<and> \<bar>v - x\<bar> \<le> 1 / (2 * 10 ^ Suc n)"
proof -
  obtain ip fp k where f: "fixed (Suc n) x = (if x < 0 then ''-'' else []) @ ip @ CHR ''.'' # fp" "length fp = Suc n"
    "digits_val 0 (ip @ fp) = Some k" "\<bar>of_nat k / 10 ^ Suc n - \<bar>x\<bar>\<bar> \<le> 1 / (2 * 10 ^ Suc n)"
    using fixed_reads[of n x] by blast
  have ip: "CHR ''.'' \<notin> set ip" "CHR ''-'' \<notin> set ip" using digits_no_point[OF f(3)] by auto
  then have w: "takeWhile (\<lambda>c. c \<noteq> CHR ''.'') (ip @ CHR ''.'' # fp) = ip"
    "dropWhile (\<lambda>c. c \<noteq> CHR ''.'') (ip @ CHR ''.'' # fp) = CHR ''.'' # fp"
    by (auto simp: takeWhile_append dropWhile_append)
  have "hd (ip @ CHR ''.'' # fp) \<noteq> CHR ''-''" using ip(2) by (cases ip) auto
  then have "decimal_val (fixed (Suc n) x) = Some ((if x < 0 then -1 else 1) * of_nat k / 10 ^ Suc n)"
    using w f(1-3) by (auto simp: decimal_val_def)
  moreover have "\<bar>(if x < 0 then -1 else 1) * of_nat k / 10 ^ Suc n - x\<bar> \<le> 1 / (2 * 10 ^ Suc n)"
  proof (cases "x < 0")
    case True
    have "\<bar>- y - x\<bar> = \<bar>y - \<bar>x\<bar>\<bar>" for y :: rat using True by simp
    from this[of "of_nat k / 10 ^ Suc n"] show ?thesis using f(4) True by (simp del: power_Suc)
  qed (use f(4) in simp)
  ultimately show ?thesis by blast
qed

lemma stands_for_fixed: "stands_for (1 / 20) (fixed (Suc 0) x) (CFloat x)" "stands_for (1 / 2000) (fixed 3 x) (CFloat x)"
proof -
  have "Suc 2 = (3 :: nat)" by simp
  then show "stands_for (1 / 20) (fixed (Suc 0) x) (CFloat x)" "stands_for (1 / 2000) (fixed 3 x) (CFloat x)"
    using decimal_val_fixed[of 0 x] decimal_val_fixed[of 2 x] by auto
qed

lemma stands_for_others: "stands_for eps (dec_int i) (CInt i)" "stands_for eps s (CText s)"
  by (simp_all add: decimal_val_int)

lemma csv_cols_show: "row_shows id csv_header r (csv_cols r)"
  unfolding row_shows_def csv_header_def csv_cols_def
  by (simp add: result_fields_def stands_for_fixed stands_for_others del: stands_for.simps)

definition sweep_tag :: "string \<Rightarrow> string" where
  "sweep_tag nm = (if nm = ''concurrency'' then ''sweep_concurrency'' else nm)"

lemma sweep_csv_cols_show: "row_shows sweep_tag sweep_csv_header r (sweep_csv_cols r)"
  unfolding row_shows_def sweep_csv_header_def sweep_csv_cols_def
  by (simp add: result_fields_def sweep_tag_def stands_for_fixed stands_for_others del: stands_for.simps)

lemma shown_rows: "(\<And>r. P r (f r)) \<Longrightarrow> list_all2 P rs (map f rs)"
  by (induction rs) simp_all

lemma write_csv_reads:
  "\<exists>rows. csv_read (write_csv rs) = Some (csv_header # rows) \<and> list_all2 (row_shows id csv_header) rs rows"
proof -
  have "csv_cols r \<noteq> []" "csv_header \<noteq> []" for r by (simp_all add: csv_cols_def csv_header_def)
  then have "[] \<notin> set (csv_header # map csv_cols rs)" by (metis in_set_conv_nth set_ConsD ex_map_conv)
  then have "csv_read (write_csv rs) = Some (csv_header # map csv_cols rs)"
    using csv_read_records[of "csv_header # map csv_cols rs"] by (simp add: write_csv_def comp_def)
  then show ?thesis using shown_rows[of "row_shows id csv_header", OF csv_cols_show] by blast
qed

lemma write_sweep_csv_reads:
  "\<exists>rows. csv_read (write_sweep_csv rs) = Some (sweep_csv_header # rows) \<and> list_all2 (row_shows sweep_tag sweep_csv_header) rs rows"
proof -
  have "sweep_csv_cols r \<noteq> []" "sweep_csv_header \<noteq> []" for r by (simp_all add: sweep_csv_cols_def sweep_csv_header_def)
  then have "[] \<notin> set (sweep_csv_header # map sweep_csv_cols rs)" by (metis in_set_conv_nth set_ConsD ex_map_conv)
  then have "csv_read (write_sweep_csv rs) = Some (sweep_csv_header # map sweep_csv_cols rs)"
    using csv_read_records[of "sweep_csv_header # map sweep_csv_cols rs"] by (simp add: write_sweep_csv_def comp_def)
  then show ?thesis using shown_rows[of "row_shows sweep_tag sweep_csv_header", OF sweep_csv_cols_show] by blast
qed

section \<open>Tables are aligned\<close>

lemma rune_count_ascii: "list_all (\<lambda>c. byte_of c < 0x80) s \<Longrightarrow> rune_count s = length s"
  by (induction s) (simp_all add: rune_count.simps[of "_ # _"] decode_rune_ascii rune_count.simps[of "[]"])

definition rectangular :: "nat \<Rightarrow> string list list \<Rightarrow> bool" where
  "rectangular k rows \<longleftrightarrow> (\<forall>cells \<in> set rows. length cells = Suc k)"

lemma col_widths_length: "rows \<noteq> [] \<Longrightarrow> rectangular k rows \<Longrightarrow> length (col_widths rows) = k"
  by (induction rows rule: col_widths.induct) (auto simp: rectangular_def)

lemma col_widths_fit:
  "rectangular k rows \<Longrightarrow> cells \<in> set rows \<Longrightarrow> j < k \<Longrightarrow> cell_width (cells ! j) \<le> col_widths rows ! j"
proof (induction rows rule: col_widths.induct)
  case (2 cs)
  then show ?case by (simp add: rectangular_def nth_butlast)
next
  case (3 cs c rest)
  have "length (col_widths (c # rest)) = k" "rectangular k (c # rest)"
    using 3(2) by (auto intro!: col_widths_length simp: rectangular_def)
  then show ?case using 3 by (auto simp: rectangular_def nth_butlast le_max_iff_disj)
qed simp

text \<open>A cell starts where its column starts, in every line; at least two blanks follow it.\<close>

lemma concat_pad_drop:
  assumes "length ws = length cs" "\<forall>i < length cs. list_all (\<lambda>c. byte_of c < 0x80) (cs ! i) \<and> cell_width (cs ! i) \<le> ws ! i"
    and "j \<le> length cs"
  shows "drop (sum_list (take j ws)) (concat (map2 pad_cell ws cs) @ t) = concat (map2 pad_cell (drop j ws) (drop j cs)) @ t"
  using assms
proof (induction j arbitrary: ws cs)
  case (Suc j)
  then obtain w ws' c cs' where 1: "ws = w # ws'" "cs = c # cs'" by (metis Suc_le_length_iff)
  have c: "list_all (\<lambda>c. byte_of c < 0x80) c" "cell_width c \<le> w" using Suc.prems(2) 1 by force+
  then have "length (pad_cell w c) = w" by (simp add: pad_cell_def rune_count_ascii cell_width_def)
  moreover have "drop (sum_list (take j ws')) (concat (map2 pad_cell ws' cs') @ t) = concat (map2 pad_cell (drop j ws') (drop j cs')) @ t"
    using Suc.prems 1 by (intro Suc.IH) force+
  ultimately show ?case by (simp add: 1)
qed simp

lemma tab_line_cell:
  assumes r: "rectangular k rows" and a: "\<forall>cells \<in> set rows. \<forall>c \<in> set cells. list_all (\<lambda>c. byte_of c < 0x80) c"
    and m: "cells \<in> set rows" and j: "j \<le> k"
  shows "\<exists>rest. drop (sum_list (take j (col_widths rows))) (tab_line (col_widths rows) cells) = cells ! j @ rest
    \<and> (if j < k then prefix ''  '' rest else rest = [NL])"
proof -
  let ?ws = "col_widths rows" and ?cs = "butlast cells"
  have len: "length cells = Suc k" using r m by (simp add: rectangular_def)
  have lw: "length ?ws = length ?cs" using col_widths_length[OF _ r] m len by fastforce
  have "\<forall>i < length ?cs. list_all (\<lambda>c. byte_of c < 0x80) (?cs ! i) \<and> cell_width (?cs ! i) \<le> ?ws ! i"
  proof (intro allI impI conjI)
    fix i assume i: "i < length ?cs"
    then have "?cs ! i = cells ! i" "cells ! i \<in> set cells" using len by (simp_all add: nth_butlast)
    then show "list_all (\<lambda>c. byte_of c < 0x80) (?cs ! i)" "cell_width (?cs ! i) \<le> ?ws ! i"
      using a m col_widths_fit[OF r m, of i] i len by auto
  qed
  note fit = this
  have jl: "j \<le> length ?cs" using j len by simp
  have d: "drop (sum_list (take j ?ws)) (tab_line ?ws cells) =
      concat (map2 pad_cell (drop j ?ws) (drop j ?cs)) @ last cells @ [NL]"
    unfolding tab_line_def by (rule concat_pad_drop[OF lw fit jl])
  show ?thesis
  proof (cases "j < k")
    case True
    then have c: "drop j ?cs = cells ! j # drop (Suc j) ?cs" "drop j ?ws = ?ws ! j # drop (Suc j) ?ws"
      using Cons_nth_drop_Suc[of j ?cs] Cons_nth_drop_Suc[of j ?ws] len lw by (auto simp: nth_butlast)
    have "rune_count (cells ! j) + 2 \<le> ?ws ! j" using fit True len by (simp add: nth_butlast cell_width_def)
    then obtain n where "?ws ! j = rune_count (cells ! j) + 2 + n" using le_Suc_ex by blast
    then have "pad_cell (?ws ! j) (cells ! j) = cells ! j @ ''  '' @ replicate n (CHR '' '')" by (simp add: pad_cell_def numeral_2_eq_2)
    then show ?thesis using d c True by simp
  next
    case False
    then have "j = k" using j by simp
    then have "drop j ?cs = []" "last cells = cells ! j" using len by (simp_all add: last_conv_nth flip: length_0_conv)
    then show ?thesis using d False by simp
  qed
qed

end
