(* ===== verification/BenchCmd.thy ===== *)
theory BenchCmd
  imports Netem Sweep BenchProxy Output
begin

text \<open>
  The command \<open>bench\<close>, \<open>cmd/clibench/bench.go\<close>: the addresses, the delays in the kernel or in
  the listeners, the servers it starts, the packet counter, the drivers it runs, and the order in
  which all of this is set up and taken down.

  A server that is started is an entry of a list of actions; what it does is the subject of its
  own theory. Listening, dialling and the clock are operations of an environment. The texts of
  errors are constructors. The numbers of iterations and commands are not negative, and the
  signal handler, log lines and the parsing of the command line are left out.
\<close>

section \<open>The command line\<close>

record bench_cmd =
  bc_transport :: "string list"
  bc_iterations :: nat
  bc_concurrency :: int
  bc_sweep :: "int list"
  bc_commands :: nat
  bc_latency :: string
  bc_jitter :: int
  bc_loss :: f64
  bc_userspace :: bool
  bc_resource :: bool
  bc_output :: string
  bc_ssh_port :: int
  bc_https_port :: int
  bc_http3_port :: int
  bc_gnmi_port :: int
  bc_netconf_port :: int
  bc_restconf_port :: int
  bc_proxy_port :: int
  bc_headend_https_port :: int
  bc_headend_h3_port :: int
  bc_user :: string
  bc_pass :: string
  bc_hostname :: string
  bc_transcripts :: string

fun has_any :: "string \<Rightarrow> string list \<Rightarrow> bool" where
  "has_any t [] = False"
| "has_any t (v # vs) = (if v = t \<or> v = ''all'' then True else has_any t vs)"

definition bc_has :: "bench_cmd \<Rightarrow> string \<Rightarrow> bool" where
  "bc_has b t = has_any t (bc_transport b)"

lemma has_any_iff: "has_any t vs \<longleftrightarrow> t \<in> set vs \<or> ''all'' \<in> set vs"
  by (induction vs) auto

lemma bc_has_iff: "bc_has b t \<longleftrightarrow> t \<in> set (bc_transport b) \<or> ''all'' \<in> set (bc_transport b)"
  by (simp only: bc_has_def has_any_iff)

definition millisecond :: int where
  "millisecond = 1000000"

definition latency_profiles :: "(string \<times> int) list" where
  "latency_profiles =
     [(''local'', 0), (''campus'', 1 * millisecond), (''regional'', 15 * millisecond), (''leo'', 22 * millisecond),
      (''continental'', 35 * millisecond), (''leo-remote'', 50 * millisecond), (''intercontinental'', 75 * millisecond),
      (''transpacific'', 87 * millisecond), (''geo'', 300 * millisecond)]"

datatype run_err =
    UnknownProfile string
  | NetemErr setup_err
  | DeviceErr string
  | ListenErr string string
  | ServerErr string string
  | NotReady string int
  | OutputErr string

section \<open>Addresses\<close>

record cmd_addrs =
  ea_ssh :: string
  ea_https :: string
  ea_http3 :: string
  ea_gnmi :: string
  ea_netconf :: string
  ea_restconf :: string
  ea_backend_port :: int
  ea_backend :: string
  ea_proxy :: string
  ea_proxy_pooled :: string
  ea_headend_https :: string
  ea_headend_h3 :: string
  ea_site_https_port :: int
  ea_site_https :: string
  ea_site_h3_port :: int
  ea_site_h3 :: string
  ea_proxy_h3_fresh :: string
  ea_proxy_h3_pooled :: string
  ea_delay :: int
  ea_campus_delay :: int
  ea_rtt_ms :: f64

definition localhost :: "int \<Rightarrow> string" where
  "localhost port = ''localhost:'' @ dec_int port"

definition build_env :: "bench_cmd \<Rightarrow> run_err + cmd_addrs" where
  "build_env b =
     (case map_of latency_profiles (bc_latency b) of
        None \<Rightarrow> Inl (UnknownProfile (bc_latency b))
      | Some dly \<Rightarrow> Inr
          \<lparr>ea_ssh = localhost (bc_ssh_port b), ea_https = localhost (bc_https_port b),
           ea_http3 = localhost (bc_http3_port b), ea_gnmi = localhost (bc_gnmi_port b),
           ea_netconf = localhost (bc_netconf_port b), ea_restconf = localhost (bc_restconf_port b),
           ea_backend_port = bc_ssh_port b + 1000, ea_backend = localhost (bc_ssh_port b + 1000),
           ea_proxy = localhost (bc_proxy_port b), ea_proxy_pooled = localhost (bc_proxy_port b + 1),
           ea_headend_https = localhost (bc_headend_https_port b), ea_headend_h3 = localhost (bc_headend_h3_port b),
           ea_site_https_port = bc_proxy_port b + 2, ea_site_https = localhost (bc_proxy_port b + 2),
           ea_site_h3_port = bc_proxy_port b + 3, ea_site_h3 = localhost (bc_proxy_port b + 3),
           ea_proxy_h3_fresh = localhost (bc_proxy_port b + 4), ea_proxy_h3_pooled = localhost (bc_proxy_port b + 5),
           ea_delay = dly, ea_campus_delay = 1 * millisecond,
           ea_rtt_ms = fmul (f64_of_int (dly sdiv millisecond)) 2\<rparr>)"

section \<open>Delays in the kernel\<close>

definition netem_for :: "bench_cmd \<Rightarrow> cmd_addrs \<Rightarrow> netem_config" where
  "netem_for b e =
     \<lparr>wan_delay = ea_delay e, campus_delay = ea_campus_delay e,
      wan_ports = [bc_ssh_port b, bc_https_port b, bc_http3_port b, bc_gnmi_port b, bc_netconf_port b, bc_restconf_port b,
        bc_proxy_port b, bc_proxy_port b + 1, bc_proxy_port b + 4, bc_proxy_port b + 5, ea_site_https_port e, ea_site_h3_port e],
      campus_ports = [ea_backend_port e, bc_headend_https_port b, bc_headend_h3_port b],
      ne_jitter = bc_jitter b, ne_loss = bc_loss b\<rparr>"

text \<open>Whether the kernel delays packets in this run.\<close>

definition shaped :: "bench_cmd \<Rightarrow> cmd_addrs \<Rightarrow> bool" where
  "shaped b e \<longleftrightarrow> \<not> bc_userspace b \<and> ea_delay e > 0"

definition setup_latency ::
  "(nat \<Rightarrow> string option) \<Rightarrow> bench_cmd \<Rightarrow> cmd_addrs \<Rightarrow> run_err option \<times> nl_state" where
  "setup_latency fails b e =
     (if shaped b e then (case netem_setup fails (netem_for b e) [] of (err, st) \<Rightarrow> (map_option NetemErr err, st))
      else (None, []))"

section \<open>Servers\<close>

text \<open>All of them serve the one device. The two kinds of proxy have their backend and whether they pool.\<close>

datatype server =
    SshSrv | HttpsSrv | Http3Srv | GnmiSrv | NetconfSrv | RestconfSrv
  | ProxySrv string bool | ProxyH3Srv string bool | HeadendSrv string string

record delay_wrap =
  wr_delay :: int
  wr_jitter :: int
  wr_loss :: f64

datatype action = Listen string | CloseLn string | Serve server string "delay_wrap option"

record ('l, 'w) cmd_env = "'w bench_env" +
  ce_listen :: "string \<Rightarrow> 'w \<Rightarrow> 'l result \<times> 'w"
  ce_close_ln :: "'l \<Rightarrow> 'w \<Rightarrow> 'w"
  ce_new :: "server \<Rightarrow> 'w \<Rightarrow> string option \<times> 'w"
  ce_serve :: "server \<Rightarrow> string \<Rightarrow> ('l \<times> delay_wrap option) option \<Rightarrow> 'w \<Rightarrow> 'w"
  ce_dial :: "string \<Rightarrow> int \<Rightarrow> 'w \<Rightarrow> nat result \<times> 'w"
  ce_hang_up :: "nat \<Rightarrow> 'w \<Rightarrow> 'w"

type_synonym 'w start_step = "action list \<times> 'w \<Rightarrow> (run_err option \<times> (action list \<times> 'w)) option"

definition wrap_ln :: "bench_cmd \<Rightarrow> int \<Rightarrow> delay_wrap option" where
  "wrap_ln b d =
     (if bc_userspace b \<and> d > 0 then Some \<lparr>wr_delay = d, wr_jitter = bc_jitter b, wr_loss = bc_loss b\<rparr> else None)"

text \<open>
  A server on a listener of its own: listen, make the server if that can fail, hand it the listener,
  serve.
\<close>

definition start_tcp :: "('l, 'w) cmd_env \<Rightarrow> bench_cmd \<Rightarrow> server \<Rightarrow> string \<Rightarrow> int \<Rightarrow> 'w start_step" where
  "start_tcp env b srv addr d st =
     (case st of (acts, w) \<Rightarrow>
        (case ce_listen env addr w of
           (Inl e, w1) \<Rightarrow> Some (Some (ListenErr addr e), (acts, w1))
         | (Inr lis, w1) \<Rightarrow>
             Some (None, (acts @ [Listen addr, Serve srv addr (wrap_ln b d)], ce_serve env srv addr (Some (lis, wrap_ln b d)) w1))))"

definition start_tcp_new :: "('l, 'w) cmd_env \<Rightarrow> bench_cmd \<Rightarrow> server \<Rightarrow> string \<Rightarrow> int \<Rightarrow> 'w start_step" where
  "start_tcp_new env b srv addr d st =
     (case st of (acts, w) \<Rightarrow>
        (case ce_listen env addr w of
           (Inl e, w1) \<Rightarrow> Some (Some (ListenErr addr e), (acts, w1))
         | (Inr lis, w1) \<Rightarrow>
             (case ce_new env srv w1 of
                (Some e, w2) \<Rightarrow> Some (Some (ServerErr addr e), (acts @ [Listen addr, CloseLn addr], ce_close_ln env lis w2))
              | (None, w2) \<Rightarrow>
                  Some (None, (acts @ [Listen addr, Serve srv addr (wrap_ln b d)], ce_serve env srv addr (Some (lis, wrap_ln b d)) w2)))))"

text \<open>The HTTP/3 servers open their sockets themselves.\<close>

definition start_h3 :: "('l, 'w) cmd_env \<Rightarrow> server \<Rightarrow> string \<Rightarrow> 'w start_step" where
  "start_h3 env srv addr st =
     (case st of (acts, w) \<Rightarrow> Some (None, (acts @ [Serve srv addr None], ce_serve env srv addr None w)))"

fun run_steps :: "'w start_step list \<Rightarrow> 'w start_step" where
  "run_steps [] st = Some (None, st)"
| "run_steps (step # steps) st = do {
     (err, st1) \<leftarrow> step st;
     (case err of Some e \<Rightarrow> Some (Some e, st1) | None \<Rightarrow> run_steps steps st1)
   }"

definition start_list :: "('l, 'w) cmd_env \<Rightarrow> bench_cmd \<Rightarrow> cmd_addrs \<Rightarrow> 'w start_step list" where
  "start_list env b e =
     [start_tcp_new env b SshSrv (ea_ssh e) (ea_delay e),
      start_tcp env b HttpsSrv (ea_https e) (ea_delay e),
      start_tcp_new env b SshSrv (ea_backend e) (ea_campus_delay e),
      start_tcp env b (ProxySrv (ea_backend e) False) (ea_proxy e) (ea_delay e),
      start_tcp env b (ProxySrv (ea_backend e) True) (ea_proxy_pooled e) (ea_delay e),
      start_h3 env Http3Srv (ea_http3 e),
      start_tcp env b GnmiSrv (ea_gnmi e) (ea_delay e),
      start_tcp_new env b NetconfSrv (ea_netconf e) (ea_delay e),
      start_tcp env b RestconfSrv (ea_restconf e) (ea_delay e),
      start_tcp env b (ProxySrv (ea_backend e) True) (ea_site_https e) (ea_delay e),
      start_h3 env (ProxyH3Srv (ea_backend e) True) (ea_site_h3 e),
      start_h3 env (ProxyH3Srv (ea_backend e) False) (ea_proxy_h3_fresh e),
      start_h3 env (ProxyH3Srv (ea_backend e) True) (ea_proxy_h3_pooled e),
      start_tcp_new env b (HeadendSrv (''https://'' @ ea_site_https e) ''https'') (ea_headend_https e) (ea_campus_delay e),
      start_tcp_new env b (HeadendSrv (''https://'' @ ea_site_h3 e) ''http3'') (ea_headend_h3 e) (ea_campus_delay e)]"

text \<open>Polling an address until it accepts a connection or the deadline has passed.\<close>

partial_function (option) wait_loop :: "('l, 'w, 'z) cmd_env_scheme \<Rightarrow> string \<Rightarrow> int \<Rightarrow> int \<Rightarrow> int \<Rightarrow> 'w \<Rightarrow> (bool \<times> 'w) option" where
  "wait_loop env addr dial_timeout pause deadline w =
     (case be_now env w of (now, w1) \<Rightarrow>
        if now < deadline
        then (case ce_dial env addr dial_timeout w1 of
                (Inr c, w2) \<Rightarrow> Some (True, ce_hang_up env c w2)
              | (Inl e, w2) \<Rightarrow> wait_loop env addr dial_timeout pause deadline (be_sleep env pause w2))
        else Some (False, w1))"

definition wait_ready :: "('l, 'w) cmd_env \<Rightarrow> string \<Rightarrow> int \<Rightarrow> 'w \<Rightarrow> (run_err option \<times> 'w) option" where
  "wait_ready env addr timeout w =
     (case be_now env w of (now, w1) \<Rightarrow> do {
        (ok, w2) \<leftarrow> wait_loop env addr (1000 * millisecond) (50 * millisecond) (now + timeout) w1;
        Some (if ok then None else Some (NotReady addr timeout), w2)
      })"

definition wait_step :: "('l, 'w) cmd_env \<Rightarrow> string \<Rightarrow> 'w start_step" where
  "wait_step env addr st =
     (case st of (acts, w) \<Rightarrow> do {
        (err, w1) \<leftarrow> wait_ready env addr (10000 * millisecond) w;
        Some (err, (acts, w1))
      })"

definition ready_addrs :: "cmd_addrs \<Rightarrow> string list" where
  "ready_addrs e = [ea_ssh e, ea_https e, ea_gnmi e, ea_netconf e, ea_restconf e, ea_backend e, ea_proxy e, ea_headend_https e]"

definition start_servers :: "('l, 'w) cmd_env \<Rightarrow> bench_cmd \<Rightarrow> cmd_addrs \<Rightarrow> 'w start_step" where
  "start_servers env b e = run_steps (start_list env b e @ map (wait_step env) (ready_addrs e))"

section \<open>The packet counter\<close>

definition counter_ports :: "bench_cmd \<Rightarrow> cmd_addrs \<Rightarrow> int list" where
  "counter_ports b e =
     [bc_ssh_port b, bc_https_port b, bc_http3_port b, bc_gnmi_port b, bc_netconf_port b, bc_restconf_port b, bc_proxy_port b,
      bc_proxy_port b + 1, bc_proxy_port b + 4, bc_proxy_port b + 5, ea_backend_port e, ea_site_https_port e, ea_site_h3_port e,
      bc_headend_https_port b, bc_headend_h3_port b]"

text \<open>The counter, if there is one: not in userspace mode, and not when its socket fails.\<close>

definition setup_pkt_counter :: "string option \<Rightarrow> string option \<Rightarrow> bench_cmd \<Rightarrow> cmd_addrs \<Rightarrow> counter option" where
  "setup_pkt_counter sock_err bind_err b e =
     (if bc_userspace b then None
      else case new_counter sock_err bind_err (counter_ports b e) of Inl _ \<Rightarrow> None | Inr c \<Rightarrow> Some c)"

section \<open>Drivers\<close>

definition base_config :: "bench_cmd \<Rightarrow> cmd_addrs \<Rightarrow> bool \<Rightarrow> bench_config" where
  "base_config b e counting =
     \<lparr>cf_addr = [], cf_user = bc_user b, cf_pass = bc_pass b, cf_iterations = bc_iterations b,
      cf_concurrency = bc_concurrency b, cf_commands = bc_commands b, cf_profile = bc_latency b, cf_rtt_ms = ea_rtt_ms e,
      cf_jitter_ms = f64_of_int (bc_jitter b sdiv millisecond), cf_loss_pct = bc_loss b, cf_hostname = bc_hostname b,
      cf_pkt_counter = counting, cf_resource = bc_resource b\<rparr>"

type_synonym 'w bench = "'w \<Rightarrow> (bench_result list \<times> 'w) option"

record 'w drivers =
  dr_ssh :: "bench_config \<Rightarrow> 'w bench"
  dr_https :: "bench_config \<Rightarrow> 'w bench"
  dr_proxy :: "bench_config \<Rightarrow> proxy_addrs \<Rightarrow> 'w bench"
  dr_http3 :: "bench_config \<Rightarrow> 'w bench"
  dr_gnmi :: "bench_config \<Rightarrow> 'w bench"
  dr_netconf :: "bench_config \<Rightarrow> 'w bench"
  dr_restconf :: "bench_config \<Rightarrow> 'w bench"
  dr_tunnel :: "bench_config \<Rightarrow> string \<Rightarrow> string \<Rightarrow> 'w bench"
  dr_sweep :: "string \<Rightarrow> bench_config \<Rightarrow> int list \<Rightarrow> 'w bench"

text \<open>The rows of the jobs that are selected, one after the other.\<close>

fun run_jobs :: "(bool \<times> 'w bench) list \<Rightarrow> 'w bench" where
  "run_jobs [] w = Some ([], w)"
| "run_jobs ((selected, job) # jobs) w =
     (if selected then do {
        (rs, w1) \<leftarrow> job w;
        (rest, w2) \<leftarrow> run_jobs jobs w1;
        Some (rs @ rest, w2)
      } else run_jobs jobs w)"

definition proxy_addrs_of :: "cmd_addrs \<Rightarrow> proxy_addrs" where
  "proxy_addrs_of e = \<lparr>pa_fresh = ea_proxy e, pa_pooled = ea_proxy_pooled e, pa_h3_fresh = ea_proxy_h3_fresh e,
     pa_h3_pooled = ea_proxy_h3_pooled e\<rparr>"

definition sweep_addr :: "cmd_addrs \<Rightarrow> string \<Rightarrow> string" where
  "sweep_addr e t =
     (case map_of [(''ssh'', ea_ssh e), (''https'', ea_https e), (''gnmi'', ea_gnmi e), (''http3'', ea_http3 e),
        (''netconf'', ea_netconf e), (''restconf'', ea_restconf e)] t of
        None \<Rightarrow> [] | Some addr \<Rightarrow> addr)"

definition sweep_order :: "string list" where
  "sweep_order = [''ssh'', ''https'', ''gnmi'', ''http3'', ''netconf'', ''restconf'']"

definition run_sweep :: "bench_cmd \<Rightarrow> cmd_addrs \<Rightarrow> 'w drivers \<Rightarrow> bench_config \<Rightarrow> 'w bench" where
  "run_sweep b e dr cf =
     run_jobs (map (\<lambda>t. (bc_has b t, dr_sweep dr t (cf\<lparr>cf_addr := sweep_addr e t\<rparr>) (bc_sweep b))) sweep_order)"

definition run_benchmarks :: "bench_cmd \<Rightarrow> cmd_addrs \<Rightarrow> 'w drivers \<Rightarrow> bool \<Rightarrow> 'w bench" where
  "run_benchmarks b e dr counting =
     (let cf = base_config b e counting
      in if length (bc_sweep b) > 0 then run_sweep b e dr cf
         else run_jobs
           [(bc_has b ''ssh'', dr_ssh dr (cf\<lparr>cf_addr := ea_ssh e\<rparr>)),
            (bc_has b ''https'', dr_https dr (cf\<lparr>cf_addr := ea_https e\<rparr>)),
            (bc_has b ''proxy'', dr_proxy dr cf (proxy_addrs_of e)),
            (bc_has b ''http3'', dr_http3 dr (cf\<lparr>cf_addr := ea_http3 e\<rparr>)),
            (bc_has b ''gnmi'', dr_gnmi dr (cf\<lparr>cf_addr := ea_gnmi e\<rparr>)),
            (bc_has b ''netconf'', dr_netconf dr (cf\<lparr>cf_addr := ea_netconf e\<rparr>)),
            (bc_has b ''restconf'', dr_restconf dr (cf\<lparr>cf_addr := ea_restconf e\<rparr>)),
            (bc_has b ''tunnel-https'', dr_tunnel dr cf (ea_headend_https e) []),
            (bc_has b ''tunnel-http3'', dr_tunnel dr cf [] (ea_headend_h3 e))])"

section \<open>A run\<close>

text \<open>What the run finds: errors of the counter's socket, the directory of transcripts, and the JSON encoder.\<close>

record run_input =
  ri_sock_err :: "string option"
  ri_bind_err :: "string option"
  ri_listing :: "dirent list result"
  ri_json :: "bench_result list \<Rightarrow> string result"

datatype run_event = CounterStart counter | CounterStop | Printed string

text \<open>After the delays are set up: the device, the servers, the counter, the drivers, the output.\<close>

definition run_device ::
  "('l, 'w) cmd_env \<Rightarrow> 'w drivers \<Rightarrow> run_input \<Rightarrow> bench_cmd \<Rightarrow> cmd_addrs \<Rightarrow>
     'w \<Rightarrow> ((run_err option \<times> run_event list) \<times> 'w) option" where
  "run_device env dr inp b e w =
     (case new_device (bc_hostname b) (bc_user b) (bc_pass b) (bc_transcripts b) (ri_listing inp) of
        Inl err \<Rightarrow> Some ((Some (DeviceErr err), []), w)
      | Inr dev \<Rightarrow> do {
          (err, (_, w1)) \<leftarrow> start_servers env b e ([], w);
          (case err of
             Some err \<Rightarrow> Some ((Some err, []), w1)
           | None \<Rightarrow> do {
               let counter = setup_pkt_counter (ri_sock_err inp) (ri_bind_err inp) b e;
               (rs, w2) \<leftarrow> run_benchmarks b e dr (counter \<noteq> None) w1;
               let (printed, err) = (case output_results (ri_json inp) (bc_output b) rs of
                  Inl err \<Rightarrow> ([], Some (OutputErr err)) | Inr text \<Rightarrow> ([Printed text], None));
               Some ((err, case counter of
                 None \<Rightarrow> printed | Some c \<Rightarrow> [CounterStart c] @ printed @ [CounterStop]), w2)
             })
        })"

text \<open>The deferred tear-down comes last, and only if the delays were set up without an error.\<close>

definition bench_run ::
  "('l, 'w) cmd_env \<Rightarrow> 'w drivers \<Rightarrow> (nat \<Rightarrow> string option) \<Rightarrow> run_input \<Rightarrow> bench_cmd \<Rightarrow>
     'w \<Rightarrow> ((run_err option \<times> run_event list) \<times> nl_state \<times> 'w) option" where
  "bench_run env dr fails inp b w =
     (case build_env b of
        Inl err \<Rightarrow> Some ((Some err, []), [], w)
      | Inr e \<Rightarrow>
          (case setup_latency fails b e of
             (Some err, st) \<Rightarrow> Some ((Some err, []), st, w)
           | (None, st) \<Rightarrow> do {
               (r, w1) \<leftarrow> run_device env dr inp b e w;
               Some (r, if shaped b e then teardown fails st else st, w1)
             }))"

section \<open>Nothing is left in the kernel\<close>

text \<open>
  The last call, if it is a deletion, succeeds. The deletion before the set-up may fail, as it does
  when there is nothing to delete.
\<close>

definition last_deletion_works :: "(nat \<Rightarrow> string option) \<Rightarrow> nl_call list \<Rightarrow> bool" where
  "last_deletion_works fails calls \<longleftrightarrow> (calls \<noteq> [] \<and> last calls = DelRoot \<longrightarrow> fails (length calls - 1) = None)"

lemma teardown_clears: "last_deletion_works fails (teardown fails st) \<Longrightarrow> installed fails 0 [] (teardown fails st) = []"
  by (rule teardown_works) (auto simp: last_deletion_works_def teardown_def nl_def)

lemma failed_setup_clears:
  assumes "netem_setup fails c [] = (Some err, st)" "last_deletion_works fails st"
  shows "installed fails 0 [] st = []"
proof -
  have t: "teardown fails [] = [DelRoot]" by (simp add: teardown_def nl_def)
  show ?thesis
  proof (cases "fails 1")
    case (Some e)
    then have "st = [DelRoot, AddPrio 4]" using assms(1) by (auto simp: netem_setup_def t nl_def)
    then show ?thesis using Some by simp
  next
    case None
    have "\<exists>s. st = teardown fails s"
      using assms(1) None by (auto simp: netem_setup_def Let_def t nl_def split: prod.splits option.splits)
    then show ?thesis using teardown_clears assms(2) by blast
  qed
qed

text \<open>However the run ends, the kernel is as it was.\<close>

lemma run_restores_kernel:
  assumes "bench_run env dr fails inp b w = Some (r, st, w')" "last_deletion_works fails st"
  shows "installed fails 0 [] st = []"
proof (cases "build_env b")
  case (Inl err)
  then show ?thesis using assms(1) by (simp add: bench_run_def)
next
  case (Inr e)
  obtain err st0 where s: "setup_latency fails b e = (err, st0)" by fastforce
  show ?thesis
  proof (cases err)
    case None
    then have "st = (if shaped b e then teardown fails st0 else st0)"
      using assms(1) s Inr by (auto simp: bench_run_def elim!: bind_SomeE)
    moreover have "\<not> shaped b e \<Longrightarrow> st0 = []" using s by (simp add: setup_latency_def)
    ultimately show ?thesis using teardown_clears assms(2) by auto
  next
    case (Some err')
    then have "st = st0" using assms(1) s Inr by (simp add: bench_run_def)
    then show ?thesis using failed_setup_clears[of fails "netem_for b e"] s Some assms(2)
      by (auto simp: setup_latency_def split: prod.splits if_splits)
  qed
qed

section \<open>Waiting for a server\<close>

text \<open>A clock that never goes back, with sleeps and reads of it at most \<open>lag\<close> late and dials within their time-out.\<close>

definition clock_runs :: "('w \<Rightarrow> int) \<Rightarrow> int \<Rightarrow> ('l, 'w) cmd_env \<Rightarrow> bool" where
  "clock_runs clock lag env \<longleftrightarrow>
     (\<forall>w now w'. be_now env w = (now, w') \<longrightarrow> now = clock w \<and> clock w \<le> clock w' \<and> clock w' \<le> clock w + lag)
   \<and> (\<forall>w addr d r w'. 0 \<le> d \<longrightarrow> ce_dial env addr d w = (r, w') \<longrightarrow> clock w \<le> clock w' \<and> clock w' \<le> clock w + d)
   \<and> (\<forall>w d. 0 \<le> d \<longrightarrow> clock w + d \<le> clock (be_sleep env d w) \<and> clock (be_sleep env d w) \<le> clock w + d + lag)"

lemma clock_runsD:
  assumes "clock_runs clock lag env"
  shows "be_now env w = (now, w1) \<Longrightarrow> now = clock w \<and> clock w \<le> clock w1 \<and> clock w1 \<le> clock w + lag"
    and "ce_dial env addr (1000 * millisecond) w = (r, w1) \<Longrightarrow> clock w \<le> clock w1 \<and> clock w1 \<le> clock w + 1000 * millisecond"
    and "clock w + 50 * millisecond \<le> clock (be_sleep env (50 * millisecond) w)
       \<and> clock (be_sleep env (50 * millisecond) w) \<le> clock w + 50 * millisecond + lag"
proof -
  have m: "0 \<le> 1000 * millisecond" "0 \<le> 50 * millisecond" by (simp_all add: millisecond_def)
  show "be_now env w = (now, w1) \<Longrightarrow> now = clock w \<and> clock w \<le> clock w1 \<and> clock w1 \<le> clock w + lag"
    "ce_dial env addr (1000 * millisecond) w = (r, w1) \<Longrightarrow> clock w \<le> clock w1 \<and> clock w1 \<le> clock w + 1000 * millisecond"
    "clock w + 50 * millisecond \<le> clock (be_sleep env (50 * millisecond) w)
       \<and> clock (be_sleep env (50 * millisecond) w) \<le> clock w + 50 * millisecond + lag"
    using assms m unfolding clock_runs_def by blast+
qed

lemma wait_loop_returns:
  assumes c: "clock_runs clock lag env"
  shows "\<exists>ok w'. wait_loop env addr (1000 * millisecond) (50 * millisecond) deadline w = Some (ok, w') \<and> (ok \<or> deadline \<le> clock w')"
proof (induction "nat (deadline - clock w)" arbitrary: w rule: less_induct)
  case less
  obtain now w1 where 1: "be_now env w = (now, w1)" by fastforce
  then have n: "now = clock w" "clock w \<le> clock w1" using clock_runsD(1)[OF c] by blast+
  show ?case
  proof (cases "now < deadline")
    case True
    obtain r w2 where 2: "ce_dial env addr (1000 * millisecond) w1 = (r, w2)" by fastforce
    show ?thesis
    proof (cases r)
      case (Inr cc)
      then show ?thesis using 1 2 True by (subst wait_loop.simps) auto
    next
      case (Inl e)
      let ?w3 = "be_sleep env (50 * millisecond) w2"
      have "clock w1 \<le> clock w2" "clock w2 + 50 * millisecond \<le> clock ?w3"
        using clock_runsD(2)[OF c 2] clock_runsD(3)[OF c] by simp_all
      then have "clock w < clock ?w3" using n by (simp add: millisecond_def)
      then have "nat (deadline - clock ?w3) < nat (deadline - clock w)" using True n by linarith
      from less[OF this] show ?thesis using 1 2 True Inl by (subst wait_loop.simps) simp
    qed
  next
    case False
    then show ?thesis using 1 n by (subst wait_loop.simps) auto
  qed
qed

lemma wait_loop_finds:
  assumes c: "clock_runs clock lag env"
    and up: "\<And>w. T \<le> clock w \<Longrightarrow> \<exists>cc w'. ce_dial env addr (1000 * millisecond) w = (Inr cc, w')"
    and in_time: "T + 1050 * millisecond + 2 * lag \<le> deadline"
  shows "clock w < deadline \<Longrightarrow> \<exists>w'. wait_loop env addr (1000 * millisecond) (50 * millisecond) deadline w = Some (True, w')"
proof (induction "nat (deadline - clock w)" arbitrary: w rule: less_induct)
  case less
  obtain now w1 where 1: "be_now env w = (now, w1)" by fastforce
  then have n: "now = clock w" "clock w \<le> clock w1" "clock w1 \<le> clock w + lag"
    using clock_runsD(1)[OF c] by blast+
  obtain r w2 where 2: "ce_dial env addr (1000 * millisecond) w1 = (r, w2)" by fastforce
  show ?case
  proof (cases r)
    case (Inr cc)
    then show ?thesis using 1 2 n less.prems by (subst wait_loop.simps) simp
  next
    case (Inl e)
    then have early: "clock w1 < T" using up[of w1] 2 by (cases "T \<le> clock w1") auto
    let ?w3 = "be_sleep env (50 * millisecond) w2"
    have "clock w1 \<le> clock w2" "clock w2 \<le> clock w1 + 1000 * millisecond"
      "clock w2 + 50 * millisecond \<le> clock ?w3" "clock ?w3 \<le> clock w2 + 50 * millisecond + lag"
      using clock_runsD(2)[OF c 2] clock_runsD(3)[OF c] by simp_all
    then have "clock w < clock ?w3" "clock ?w3 < deadline"
      using n early in_time by (simp_all add: millisecond_def)
    then have "nat (deadline - clock ?w3) < nat (deadline - clock w)" "clock ?w3 < deadline" by linarith+
    from less(1)[OF this] show ?thesis using 1 2 Inl n less.prems by (subst wait_loop.simps) simp
  qed
qed

lemma wait_ready_returns:
  assumes c: "clock_runs clock lag env"
  shows "\<exists>err w'. wait_ready env addr timeout w = Some (err, w') \<and> (err = None \<or> clock w + timeout \<le> clock w')"
proof -
  obtain now w1 where 1: "be_now env w = (now, w1)" by fastforce
  then have n: "now = clock w" using clock_runsD(1)[OF c] by blast
  show ?thesis using wait_loop_returns[OF c, of addr "now + timeout" w1] 1 n by (auto simp: wait_ready_def)
qed

lemma wait_ready_finds:
  assumes c: "clock_runs clock lag env"
    and up: "\<And>w. T \<le> clock w \<Longrightarrow> \<exists>cc w'. ce_dial env addr (1000 * millisecond) w = (Inr cc, w')"
    and in_time: "T + 1050 * millisecond + 2 * lag \<le> clock w + timeout" "lag < timeout"
  shows "\<exists>w'. wait_ready env addr timeout w = Some (None, w')"
proof -
  obtain now w1 where 1: "be_now env w = (now, w1)" by fastforce
  then have n: "now = clock w" "clock w1 \<le> clock w + lag" using clock_runsD(1)[OF c] by blast+
  show ?thesis
    using wait_loop_finds[OF c up, where deadline = "now + timeout" and w = w1 and T = T] in_time n 1 by (auto simp: wait_ready_def)
qed

section \<open>Ports\<close>

text \<open>The servers of a list of actions, with their addresses and wrappers.\<close>

fun served :: "action list \<Rightarrow> (server \<times> string \<times> delay_wrap option) list" where
  "served [] = []"
| "served (Serve srv addr wr # acts) = (srv, addr, wr) # served acts"
| "served (act # acts) = served acts"

lemma served_append: "served (xs @ ys) = served xs @ served ys"
  by (induction xs rule: served.induct) auto

lemma start_tcp_serves:
  "start_tcp env b srv addr d st = Some (None, st') \<Longrightarrow> served (fst st') = served (fst st) @ [(srv, addr, wrap_ln b d)]"
  "start_tcp_new env b srv addr d st = Some (None, st') \<Longrightarrow> served (fst st') = served (fst st) @ [(srv, addr, wrap_ln b d)]"
  "start_h3 env srv addr st = Some (None, st') \<Longrightarrow> served (fst st') = served (fst st) @ [(srv, addr, None)]"
  by (auto simp: start_tcp_def start_tcp_new_def start_h3_def served_append split: prod.splits sum.splits option.splits)

lemma run_steps_Cons:
  "run_steps (step # steps) st = Some (None, st') \<longleftrightarrow> (\<exists>st1. step st = Some (None, st1) \<and> run_steps steps st1 = Some (None, st'))"
  by (auto simp: bind_eq_Some_conv split: option.splits)

lemma run_steps_append:
  "run_steps (xs @ ys) st = Some (None, st') \<longleftrightarrow>
     (\<exists>st1. run_steps xs st = Some (None, st1) \<and> run_steps ys st1 = Some (None, st'))"
  by (induction xs arbitrary: st) (auto simp del: run_steps.simps(2) simp: run_steps_Cons)

lemma wait_steps_serve:
  "run_steps (map (wait_step env) addrs) st = Some (None, st') \<Longrightarrow> fst st' = fst st"
proof (induction addrs arbitrary: st)
  case (Cons a addrs)
  then obtain st1 where 1: "wait_step env a st = Some (None, st1)"
    and 2: "run_steps (map (wait_step env) addrs) st1 = Some (None, st')"
    by (auto simp del: run_steps.simps(2) simp: run_steps_Cons)
  from 1 have "fst st1 = fst st" by (auto simp: wait_step_def split: prod.splits elim!: bind_SomeE)
  then show ?case using Cons.IH[OF 2] by simp
qed simp

text \<open>What is served after a start without errors: the server, its address, and the delay of its listener.\<close>

lemma start_servers_serve:
  assumes "start_servers env b e ([], w) = Some (None, (acts, w'))"
  shows "served acts =
    [(SshSrv, ea_ssh e, wrap_ln b (ea_delay e)), (HttpsSrv, ea_https e, wrap_ln b (ea_delay e)),
     (SshSrv, ea_backend e, wrap_ln b (ea_campus_delay e)),
     (ProxySrv (ea_backend e) False, ea_proxy e, wrap_ln b (ea_delay e)),
     (ProxySrv (ea_backend e) True, ea_proxy_pooled e, wrap_ln b (ea_delay e)), (Http3Srv, ea_http3 e, None),
     (GnmiSrv, ea_gnmi e, wrap_ln b (ea_delay e)), (NetconfSrv, ea_netconf e, wrap_ln b (ea_delay e)),
     (RestconfSrv, ea_restconf e, wrap_ln b (ea_delay e)),
     (ProxySrv (ea_backend e) True, ea_site_https e, wrap_ln b (ea_delay e)),
     (ProxyH3Srv (ea_backend e) True, ea_site_h3 e, None), (ProxyH3Srv (ea_backend e) False, ea_proxy_h3_fresh e, None),
     (ProxyH3Srv (ea_backend e) True, ea_proxy_h3_pooled e, None),
     (HeadendSrv (''https://'' @ ea_site_https e) ''https'', ea_headend_https e, wrap_ln b (ea_campus_delay e)),
     (HeadendSrv (''https://'' @ ea_site_h3 e) ''http3'', ea_headend_h3 e, wrap_ln b (ea_campus_delay e))]"
proof -
  obtain st1 where 1: "run_steps (start_list env b e) ([], w) = Some (None, st1)"
    and 2: "run_steps (map (wait_step env) (ready_addrs e)) st1 = Some (None, (acts, w'))"
    using assms by (auto simp: start_servers_def run_steps_append)
  have "acts = fst st1" using wait_steps_serve[OF 2] by simp
  then show ?thesis
    using 1 unfolding start_list_def run_steps_Cons run_steps.simps(1) by (auto dest!: start_tcp_serves)
qed

lemma dec_int_inject: "dec_int i = dec_int j \<longleftrightarrow> i = j"
proof
  assume eq: "dec_int i = dec_int j"
  have "dec m \<noteq> CHR ''-'' # ds" for m ds
  proof
    assume "dec m = CHR ''-'' # ds"
    then have "CHR ''-'' \<in> set (dec m)" by simp
    then show False using dec_no[of "CHR ''-''" m] by simp
  qed
  note this[symmetric, simp] this[simp]
  show "i = j" using eq by (auto simp: dec_int_def dec_inject split: if_splits)
qed simp

lemma localhost_inject [simp]: "localhost p = localhost q \<longleftrightarrow> p = q"
  by (simp add: localhost_def dec_int_inject)

definition over_udp :: "server \<Rightarrow> bool" where
  "over_udp srv \<longleftrightarrow> (case srv of Http3Srv \<Rightarrow> True | ProxyH3Srv _ _ \<Rightarrow> True | _ \<Rightarrow> False)"

lemma build_env_addrs:
  assumes "build_env b = Inr e"
  shows "map localhost (wan_ports (netem_for b e)) = [ea_ssh e, ea_https e, ea_http3 e, ea_gnmi e, ea_netconf e,
      ea_restconf e, ea_proxy e, ea_proxy_pooled e, ea_proxy_h3_fresh e, ea_proxy_h3_pooled e, ea_site_https e, ea_site_h3 e]"
    "map localhost (campus_ports (netem_for b e)) = [ea_backend e, ea_headend_https e, ea_headend_h3 e]"
    "ea_campus_delay e = millisecond" "map_of latency_profiles (bc_latency b) = Some (ea_delay e)"
    "ea_rtt_ms e = fmul (f64_of_int (ea_delay e sdiv millisecond)) 2"
  using assms by (auto simp: build_env_def netem_for_def split: option.splits)

text \<open>Exactly the ports of the two bands are served, and exactly they are watched.\<close>

lemma servers_on_ports:
  assumes "build_env b = Inr e" "start_servers env b e ([], w) = Some (None, (acts, w'))"
  shows "mset (map (\<lambda>(srv, addr, wr). addr) (served acts)) =
      mset (map localhost (wan_ports (netem_for b e) @ campus_ports (netem_for b e)))"
    and "set (counter_ports b e) = set (wan_ports (netem_for b e) @ campus_ports (netem_for b e))"
proof -
  show "mset (map (\<lambda>(srv, addr, wr). addr) (served acts)) =
      mset (map localhost (wan_ports (netem_for b e) @ campus_ports (netem_for b e)))"
    unfolding map_append build_env_addrs[OF assms(1)] start_servers_serve[OF assms(2)] by simp
  show "set (counter_ports b e) = set (wan_ports (netem_for b e) @ campus_ports (netem_for b e))"
    by (auto simp: counter_ports_def netem_for_def)
qed

text \<open>In userspace mode a listener has the delay of its band; servers over UDP have none at all.\<close>

lemma userspace_delays:
  assumes "build_env b = Inr e" "start_servers env b e ([], w) = Some (None, (acts, w'))"
    and "bc_userspace b" "ea_delay e > 0" "distinct (wan_ports (netem_for b e) @ campus_ports (netem_for b e))"
    and "(srv, localhost p, wr) \<in> set (served acts)"
  shows "wr = (if over_udp srv then None
     else Some \<lparr>wr_delay = (if p \<in> set (campus_ports (netem_for b e)) then millisecond else ea_delay e),
                wr_jitter = bc_jitter b, wr_loss = bc_loss b\<rparr>)"
proof -
  let ?wan = "[ea_ssh e, ea_https e, ea_http3 e, ea_gnmi e, ea_netconf e, ea_restconf e, ea_proxy e, ea_proxy_pooled e,
    ea_proxy_h3_fresh e, ea_proxy_h3_pooled e, ea_site_https e, ea_site_h3 e]"
  let ?campus = "[ea_backend e, ea_headend_https e, ea_headend_h3 e]"
  have inj: "inj localhost" by (simp add: inj_def)
  then have "distinct (map localhost (wan_ports (netem_for b e) @ campus_ports (netem_for b e)))"
    using assms(5) by (simp only: distinct_map) (auto simp: inj_on_def)
  then have d: "distinct (?wan @ ?campus)" by (simp only: map_append build_env_addrs(1,2)[OF assms(1)])
  have m: "p \<in> set (campus_ports (netem_for b e)) \<longleftrightarrow> localhost p \<in> set ?campus"
    unfolding build_env_addrs(2)[OF assms(1), symmetric] using inj by (simp add: inj_image_mem_iff)
  have w: "wrap_ln b (ea_delay e) = Some \<lparr>wr_delay = ea_delay e, wr_jitter = bc_jitter b, wr_loss = bc_loss b\<rparr>"
    "wrap_ln b (ea_campus_delay e) = Some \<lparr>wr_delay = millisecond, wr_jitter = bc_jitter b, wr_loss = bc_loss b\<rparr>"
    using assms(3,4) build_env_addrs(3)[OF assms(1)] by (simp_all add: wrap_ln_def millisecond_def)
  have "\<forall>(srv, addr, wr) \<in> set (served acts). wr = (if over_udp srv then None
     else if addr \<in> set ?campus then wrap_ln b (ea_campus_delay e) else wrap_ln b (ea_delay e))"
    using d unfolding start_servers_serve[OF assms(2)] by (simp add: over_udp_def)
  from bspec[OF this assms(6)] show ?thesis unfolding m w by simp
qed

end
