(* ===== verification/Report.thy ===== *)
theory Report
  imports Stats
begin

text \<open>
  \<open>internal/report\<close>: loading results, classifying benchmark modes, grouping and ranking. The
  order of equal elements after \<open>sort.Slice\<close> is unspecified, so the sort is an argument;
  the locale \<open>row_sorter\<close> states what it promises. Latencies are only compared.
\<close>

datatype category = Fresh | Reuse | Batch | Other

definition category_order :: "category list" where
  "category_order = [Fresh, Reuse, Batch, Other]"

section \<open>Classification\<close>

text \<open>
  \<open>strings.ToLower\<close>, as far as ASCII patterns can tell: the ASCII letters, and the two other
  letters whose lower case is an ASCII letter (U+0130 and the Kelvin sign U+212A). The other
  code points become code points that are not ASCII, and are left as they are.
\<close>

definition lower_char :: "char \<Rightarrow> char" where
  "lower_char c =
     (if 65 \<le> (of_char c :: nat) \<and> (of_char c :: nat) \<le> 90 then char_of ((of_char c :: nat) + 32) else c)"

fun to_lower :: "string \<Rightarrow> string" where
  "to_lower [] = []"
| "to_lower (c # cs) =
     (case cs of
        d # ds \<Rightarrow>
          if c = CHR 0xC4 \<and> d = CHR 0xB0 then CHR ''i'' # to_lower ds
          else (case ds of
              e # es \<Rightarrow>
                if c = CHR 0xE2 \<and> d = CHR 0x84 \<and> e = CHR 0xAA then CHR ''k'' # to_lower es
                else lower_char c # to_lower cs
            | [] \<Rightarrow> lower_char c # to_lower cs)
      | [] \<Rightarrow> [lower_char c])"

definition classify :: "string \<Rightarrow> category" where
  "classify operation =
     (let op = to_lower operation
      in if contains op ''batch'' \<or> contains op ''multi-cmd'' \<or> op = ''edit-commit''
            \<or> op = ''subscribe-once'' then Batch
         else if contains op ''fresh'' \<or> op = ''0rtt-resumption'' then Fresh
         else if contains op ''reuse'' \<or> contains op ''keep-alive'' \<or> contains op ''pooled''
            \<or> op = ''json-vs-xml'' then Reuse
         else Other)"

section \<open>Loading\<close>

definition load ::
  "string result \<Rightarrow> (string \<Rightarrow> bench_result list result) \<Rightarrow> string \<Rightarrow> bench_result list result" where
  "load file unmarshal path =
     (case file of
        Inl err \<Rightarrow> Inl (''read '' @ path @ '': '' @ err)
      | Inr data \<Rightarrow>
          (case unmarshal data of
             Inl err \<Rightarrow> Inl (''parse '' @ path @ '': '' @ err)
           | Inr results \<Rightarrow>
               if length results = 0 then Inl (path @ '': no results found'') else Inr results))"

section \<open>Building a report\<close>

record row =
  row_transport :: string
  row_operation :: string
  row_p50 :: f64
  row_p95 :: f64
  row_trips :: int

record group =
  grp_category :: category
  grp_rows :: "row list"

record report =
  rep_profile :: string
  rep_rtt :: f64
  rep_jitter :: f64
  rep_loss :: f64
  rep_iterations :: int
  rep_commands :: int
  rep_groups :: "group list"

definition row_of :: "bench_result \<Rightarrow> row" where
  "row_of r = \<lparr>row_transport = r_transport r, row_operation = r_operation r, row_p50 = r_p50_ms r,
     row_p95 = r_p95_ms r, row_trips = r_round_trips r\<rparr>"

text \<open>The focus is a Go map: the keys in it and their values.\<close>

definition in_focus :: "(string \<times> bool) list \<Rightarrow> bench_result \<Rightarrow> bool" where
  "in_focus focus r \<longleftrightarrow> \<not> (length focus > 0 \<and> map_of focus (r_transport r) \<noteq> Some True)"

fun by_category ::
  "(string \<times> bool) list \<Rightarrow> (category \<Rightarrow> row list) \<Rightarrow> bench_result list \<Rightarrow> category \<Rightarrow> row list" where
  "by_category focus m [] = m"
| "by_category focus m (r # rs) =
     (if \<not> in_focus focus r then by_category focus m rs
      else (let cat = classify (r_operation r)
            in by_category focus (m(cat := m cat @ [row_of r])) rs))"

fun make_groups :: "(row list \<Rightarrow> row list) \<Rightarrow> (category \<Rightarrow> row list) \<Rightarrow> category list \<Rightarrow> group list" where
  "make_groups srt m [] = []"
| "make_groups srt m (cat # cats) =
     (let rows = m cat
      in if length rows = 0 then make_groups srt m cats
         else \<lparr>grp_category = cat, grp_rows = srt rows\<rparr> # make_groups srt m cats)"

definition empty_report :: report where
  "empty_report = \<lparr>rep_profile = [], rep_rtt = 0, rep_jitter = 0, rep_loss = 0, rep_iterations = 0,
     rep_commands = 0, rep_groups = []\<rparr>"

definition build :: "(row list \<Rightarrow> row list) \<Rightarrow> bench_result list \<Rightarrow> (string \<times> bool) list \<Rightarrow> report" where
  "build srt results focus =
     (let rep = (case results of
            [] \<Rightarrow> empty_report
          | r # _ \<Rightarrow> empty_report\<lparr>rep_profile := r_latency r, rep_rtt := r_rtt_ms r,
              rep_jitter := r_jitter_ms r, rep_loss := r_loss_pct r,
              rep_iterations := r_iterations r, rep_commands := r_commands r\<rparr>)
      in rep\<lparr>rep_groups := make_groups srt (by_category focus (\<lambda>_. []) results) category_order\<rparr>)"

definition max_p50 :: "report \<Rightarrow> f64" where
  "max_p50 r =
     foldl (\<lambda>mx g. foldl (\<lambda>mx row. if row_p50 row > mx then row_p50 row else mx) mx (grp_rows g))
       0 (rep_groups r)"

section \<open>What the sort promises\<close>

definition ranked :: "row list \<Rightarrow> bool" where
  "ranked rows \<longleftrightarrow> sorted_wrt (\<lambda>a b. row_p50 a \<le> row_p50 b) rows"

lemma by_category_eq:
  "by_category focus m rs cat =
     m cat @ map row_of (filter (\<lambda>r. in_focus focus r \<and> classify (r_operation r) = cat) rs)"
  by (induction rs arbitrary: m) (simp_all add: Let_def)

lemma rep_groups_build:
  "rep_groups (build srt results focus) = make_groups srt (by_category focus (\<lambda>_. []) results) category_order"
  by (simp add: build_def Let_def)

lemma filter_classes:
  "mset (concat (map (\<lambda>cat. filter (\<lambda>r. P r \<and> classify (r_operation r) = cat) rs) category_order)) =
     mset (filter P rs)"
proof (induction rs)
  case (Cons r rs)
  then show ?case by (cases "classify (r_operation r)") (auto simp: category_order_def)
qed (simp add: category_order_def)

locale row_sorter =
  fixes srt :: "row list \<Rightarrow> row list"
  assumes permutes: "mset (srt rows) = mset rows"
    and ranks: "ranked (srt rows)"
begin

lemma make_groups_rows:
  "mset (concat (map grp_rows (make_groups srt m cats))) = mset (concat (map m cats))"
  by (induction cats) (simp_all add: Let_def permutes)

lemma make_groups_ranked:
  "g \<in> set (make_groups srt m cats) \<Longrightarrow> ranked (grp_rows g) \<and> grp_rows g \<noteq> []
     \<and> set (grp_rows g) = set (m (grp_category g))"
proof (induction cats)
  case (Cons cat cats)
  have "srt (m cat) = [] \<longleftrightarrow> m cat = []" by (metis permutes mset_zero_iff)
  moreover have "set (srt (m cat)) = set (m cat)" by (metis permutes set_mset_mset)
  ultimately show ?case using Cons ranks by (auto simp: Let_def split: if_splits)
qed simp

lemma make_groups_order: "subseq (map grp_category (make_groups srt m cats)) cats"
  by (induction cats) (auto simp: Let_def)

text \<open>Every result in focus has its row in exactly one group, and no other row is there.\<close>

lemma build_partition:
  "mset (concat (map grp_rows (rep_groups (build srt results focus)))) =
     mset (map row_of (filter (in_focus focus) results))"
proof -
  let ?f = "\<lambda>cat. filter (\<lambda>r. in_focus focus r \<and> classify (r_operation r) = cat) results"
  have "map (by_category focus (\<lambda>_. []) results) category_order = map (\<lambda>cat. map row_of (?f cat)) category_order"
    by (simp add: by_category_eq)
  moreover have "concat (map (\<lambda>cat. map row_of (?f cat)) category_order) =
      map row_of (concat (map ?f category_order))"
    by (simp only: map_concat map_map comp_def)
  moreover have "mset (map row_of (concat (map ?f category_order))) =
      mset (map row_of (filter (in_focus focus) results))"
    by (simp only: mset_map filter_classes)
  ultimately show ?thesis by (simp only: rep_groups_build make_groups_rows)
qed

lemma build_groups:
  assumes "g \<in> set (rep_groups (build srt results focus))"
  shows "ranked (grp_rows g) \<and> grp_rows g \<noteq> []
     \<and> (\<forall>row \<in> set (grp_rows g). classify (row_operation row) = grp_category g)"
proof -
  have g: "g \<in> set (make_groups srt (by_category focus (\<lambda>_. []) results) category_order)"
    using assms by (simp only: rep_groups_build)
  from make_groups_ranked[OF g] show ?thesis by (auto simp: by_category_eq row_of_def)
qed

lemma build_order: "subseq (map grp_category (rep_groups (build srt results focus))) category_order"
  by (simp add: rep_groups_build make_groups_order)

end

text \<open>The sort of the library, which keeps equal rows in order.\<close>

interpretation stable: row_sorter "sort_key row_p50"
proof
  fix rows :: "row list"
  show "mset (sort_key row_p50 rows) = mset rows" by simp
  show "ranked (sort_key row_p50 rows)"
    using sorted_sort_key[of row_p50 rows] by (simp add: ranked_def sorted_wrt_map)
qed

section \<open>The scale of the bars\<close>

lemma foldl_max: "foldl (\<lambda>mx x. if f x > mx then f x else mx) a xs = Max (insert a (f ` set xs))"
  for a :: f64
proof (induction xs arbitrary: a)
  case (Cons x xs)
  have "(if f x > a then f x else a) = max a (f x)" by (simp add: max_def)
  then have "foldl (\<lambda>mx x. if f x > mx then f x else mx) a (x # xs) = Max (insert (max a (f x)) (f ` set xs))"
    using Cons by (simp only: foldl_Cons)
  also have "\<dots> = Max (insert a (f ` set (x # xs)))"
  proof (cases "xs = []")
    case False
    then have "f ` set xs \<noteq> {}" by simp
    then show ?thesis by (simp add: max.assoc)
  qed simp
  finally show ?case .
qed simp

lemma max_p50_fold:
  "foldl (\<lambda>mx g. foldl (\<lambda>mx row. if row_p50 row > mx then row_p50 row else mx) mx (grp_rows g)) a gs =
     foldl (\<lambda>mx row. if row_p50 row > mx then row_p50 row else mx) a (concat (map grp_rows gs))"
  by (induction gs arbitrary: a) auto

lemma max_p50_Max: "max_p50 r = Max (insert 0 (row_p50 ` set (concat (map grp_rows (rep_groups r)))))"
  unfolding max_p50_def max_p50_fold by (rule foldl_max)

end
