(* ===== verification/CmdRows.thy ===== *)
theory CmdRows
  imports BenchCmd Report
begin

text \<open>
  The rows of a run: the drivers of \<open>internal/bench\<close> put together as \<open>runBenchmarks\<close> calls them,
  the transports and modes their rows are labelled with, and where the report puts them.
\<close>

section \<open>The drivers together\<close>

definition all_drivers ::
  "(string \<Rightarrow> string) \<Rightarrow> 'w sweep_env \<Rightarrow> (nat \<Rightarrow> nat list) \<Rightarrow> ('t, 'c, 's, 'w) netconf_lib \<Rightarrow>
     ('tr, 'k, ('w, 'u) local) http_lib \<Rightarrow> ('u, 'k, 'w) net_lib \<Rightarrow> ('tr3, 'k3, ('w, 'u3) local) http_lib \<Rightarrow>
     ('u3, 'k3, 'w) udp_lib \<Rightarrow> ('g, 'gs, 'u, ('w, 'u) local) grpc_lib \<Rightarrow> 'w drivers" where
  "all_drivers parse_err senv sched lib http net http3 udp grpc =
     (let env = bench_env.truncate senv; ssh = ssh_lib.truncate lib
      in \<lparr>dr_ssh = (\<lambda>cf. ssh_bench cf env ssh),
          dr_https = (\<lambda>cf. https_bench parse_err cf env http net),
          dr_proxy = (\<lambda>cf pa. proxy_bench parse_err cf pa env http net http3 udp),
          dr_http3 = (\<lambda>cf. http3_bench parse_err cf env http3 udp),
          dr_gnmi = (\<lambda>cf. gnmi_bench cf env grpc net),
          dr_netconf = (\<lambda>cf. netconf_bench cf env lib),
          dr_restconf = (\<lambda>cf. restconf_bench parse_err cf env http net),
          dr_tunnel = (\<lambda>cf. tunnel_bench cf env ssh),
          dr_sweep = (\<lambda>t cf levels. sweep (sweep_openers (open_ssh ssh) (open_https parse_err http) (open_gnmi grpc net)
             (open_http3 parse_err http3) (open_netconf lib) (open_restconf parse_err http)) t cf levels senv sched)\<rparr>)"

section \<open>Labels\<close>

text \<open>The modes of a transport.\<close>

definition modes_of :: "(string \<times> string list) list" where
  "modes_of =
     [(''ssh'', [''fresh-conn'', ''reuse-conn'', ''batch-exec'', ''pty-fresh'', ''pty-reuse'']),
      (''https'', [''fresh-conn'', ''keep-alive'', ''batch-post'', ''multi-cmd'']),
      (''proxy'', [''fresh-ssh'', ''pooled-ssh'', ''h3-fresh-ssh'', ''h3-pooled-ssh'', ''keep-alive'', ''h3-keep-alive'']),
      (''http3'', [''fresh-conn'', ''keep-alive'', ''batch-post'', ''0rtt-resumption'']),
      (''gnmi'', [''fresh-conn'', ''reuse-stream'', ''batch-set'', ''subscribe-once'']),
      (''netconf'', [''fresh-session'', ''reuse-session'', ''batch-rpc'', ''edit-commit'']),
      (''restconf'', [''fresh-conn'', ''keep-alive'', ''batch-patch'', ''json-vs-xml'']),
      (''tunnel'', [''ssh-https-ssh'', ''ssh-https-ssh-batch'', ''ssh-http3-ssh'', ''ssh-http3-ssh-batch''])]"

definition is_mode :: "string \<Rightarrow> string \<Rightarrow> bool" where
  "is_mode tr op \<longleftrightarrow> (case map_of modes_of tr of None \<Rightarrow> False | Some ops \<Rightarrow> op \<in> set ops)"

text \<open>The settings every row carries, and the labels of an ordinary row.\<close>

definition carries :: "bench_config \<Rightarrow> bench_result \<Rightarrow> bool" where
  "carries cf r \<longleftrightarrow> r_latency r = cf_profile cf \<and> r_rtt_ms r = cf_rtt_ms cf \<and> r_jitter_ms r = cf_jitter_ms cf
     \<and> r_loss_pct r = cf_loss_pct cf \<and> r_commands r = int (cf_commands cf)"

definition labelled :: "bench_config \<Rightarrow> string \<Rightarrow> bench_result \<Rightarrow> bool" where
  "labelled cf tr r \<longleftrightarrow> r_transport r = tr \<and> is_mode tr (r_operation r) \<and> carries cf r
     \<and> r_iterations r = int (cf_iterations cf) \<and> r_concurrency r = cf_concurrency cf"

lemma summarize_mode_carries:
  "carries cf (summarize_mode cf env tr op tc w)"
  "r_iterations (summarize_mode cf env tr op tc w) = int (cf_iterations cf)"
  "r_concurrency (summarize_mode cf env tr op tc w) = cf_concurrency cf"
  by (simp_all add: summarize_mode_def Let_def carries_def) (simp_all add: summarize_def Let_def split: prod.split)

lemma summarize_mode_labelled: "is_mode tr op \<Longrightarrow> labelled cf tr (summarize_mode cf env tr op tc w)"
  unfolding labelled_def summarize_mode_row summarize_mode_carries(2,3) by (simp add: summarize_mode_carries(1))

lemma modes:
  "is_mode ''ssh'' ''fresh-conn''" "is_mode ''ssh'' ''reuse-conn''" "is_mode ''ssh'' ''batch-exec''"
  "is_mode ''ssh'' ''pty-fresh''" "is_mode ''ssh'' ''pty-reuse''"
  "is_mode ''https'' ''fresh-conn''" "is_mode ''https'' ''keep-alive''" "is_mode ''https'' ''batch-post''"
  "is_mode ''https'' ''multi-cmd''"
  "is_mode ''proxy'' ''fresh-ssh''" "is_mode ''proxy'' ''pooled-ssh''" "is_mode ''proxy'' ''h3-fresh-ssh''"
  "is_mode ''proxy'' ''h3-pooled-ssh''" "is_mode ''proxy'' ''keep-alive''" "is_mode ''proxy'' ''h3-keep-alive''"
  "is_mode ''http3'' ''fresh-conn''" "is_mode ''http3'' ''keep-alive''" "is_mode ''http3'' ''batch-post''"
  "is_mode ''http3'' ''0rtt-resumption''"
  "is_mode ''gnmi'' ''fresh-conn''" "is_mode ''gnmi'' ''reuse-stream''" "is_mode ''gnmi'' ''batch-set''"
  "is_mode ''gnmi'' ''subscribe-once''"
  "is_mode ''netconf'' ''fresh-session''" "is_mode ''netconf'' ''reuse-session''" "is_mode ''netconf'' ''batch-rpc''"
  "is_mode ''netconf'' ''edit-commit''"
  "is_mode ''restconf'' ''fresh-conn''" "is_mode ''restconf'' ''keep-alive''" "is_mode ''restconf'' ''batch-patch''"
  "is_mode ''restconf'' ''json-vs-xml''"
  "is_mode ''tunnel'' ''ssh-https-ssh''" "is_mode ''tunnel'' (''ssh-https-ssh'' @ ''-batch'')"
  "is_mode ''tunnel'' ''ssh-http3-ssh''" "is_mode ''tunnel'' (''ssh-http3-ssh'' @ ''-batch'')"
  by (simp_all add: is_mode_def modes_of_def)

lemmas mode_rows = modes[THEN summarize_mode_labelled]

text \<open>A property of what a computation returns, if it does.\<close>

definition yields :: "('a \<Rightarrow> bool) \<Rightarrow> ('a \<times> 'w) option \<Rightarrow> bool" where
  "yields P m \<longleftrightarrow> (\<forall>x w. m = Some (x, w) \<longrightarrow> P x)"

lemma yields_Some [simp]: "yields P (Some (x, w)) \<longleftrightarrow> P x"
  by (simp add: yields_def)

lemma yields_bind: "(\<And>a w. yields P (f a w)) \<Longrightarrow> yields P (Option.bind m (case_prod f))"
  by (cases m) (auto simp: yields_def)

lemma yields_bind_with:
  "yields Q m \<Longrightarrow> (\<And>a w. Q a \<Longrightarrow> yields P (f a w)) \<Longrightarrow> yields P (Option.bind m (case_prod f))"
  by (cases m) (fastforce simp: yields_def)+

lemma yields_if: "(c \<Longrightarrow> yields P m) \<Longrightarrow> (\<not> c \<Longrightarrow> yields P n) \<Longrightarrow> yields P (if c then m else n)"
  by simp

abbreviation all_labelled :: "bench_config \<Rightarrow> string \<Rightarrow> bench_result list \<Rightarrow> bool" where
  "all_labelled cf tr \<equiv> list_all (labelled cf tr)"

lemma ssh_rows: "yields (all_labelled cf ''ssh'') (ssh_bench cf env lib w)"
proof -
  have 1: "yields (all_labelled cf ''ssh'') (ssh_modes_exec cf env lib w)" for w
    unfolding ssh_modes_exec_def by (intro yields_bind) (simp add: mode_rows split: option.split)
  have 2: "yields (all_labelled cf ''ssh'') (ssh_modes_pty cf env lib w)" for w
    unfolding ssh_modes_pty_def Let_def by (intro yields_bind) (simp add: mode_rows split: option.split)
  show ?thesis unfolding ssh_bench_def by (rule yields_bind_with[OF 1], rule yields_bind_with[OF 2]) simp
qed

lemma https_rows: "yields (all_labelled cf ''https'') (https_bench perr cf env lib net w)"
  unfolding https_bench_def Let_def by (intro yields_bind yields_if) (simp_all add: mode_rows)

lemma restconf_rows: "yields (all_labelled cf ''restconf'') (restconf_bench perr cf env lib net w)"
  unfolding restconf_bench_def Let_def by (intro yields_bind) (simp add: mode_rows)

lemma http3_rows: "yields (all_labelled cf ''http3'') (http3_bench perr cf env lib udp w)"
  unfolding http3_bench_def Let_def by (intro yields_bind) (simp add: mode_rows)

lemma proxy_rows: "yields (all_labelled cf ''proxy'') (proxy_bench perr cf pa env lib net lib3 udp w)"
proof -
  have m: "is_mode ''proxy'' op \<Longrightarrow> yields (labelled cf ''proxy'') (proxy_mode cf env op mode w)" for op mode w
    unfolding proxy_mode_def by (intro yields_bind) (simp add: summarize_mode_labelled)
  have 1: "yields (all_labelled cf ''proxy'') (proxy_h3_modes cf pa env once3 w)" for once3 w
    unfolding proxy_h3_modes_def
    by (intro yields_if yields_bind_with[OF m] modes) simp_all
  have 2: "yields (all_labelled cf ''proxy'') (proxy_h3_keep cf pa env keep3 w)" for keep3 w
    unfolding proxy_h3_keep_def
    by (intro yields_if yields_bind_with[OF m] modes) simp_all
  show ?thesis unfolding proxy_bench_def Let_def
    by (rule yields_bind_with[OF m], rule modes, rule yields_bind_with[OF m], rule modes, rule yields_bind_with[OF 1],
        rule yields_bind_with[OF m], rule modes, rule yields_bind_with[OF 2]) simp
qed

lemma tunnel_rows: "yields (all_labelled cf ''tunnel'') (tunnel_bench cf env lib a b w)"
proof -
  have m: "is_mode ''tunnel'' op \<Longrightarrow> is_mode ''tunnel'' (op @ ''-batch'') \<Longrightarrow>
      yields (all_labelled cf ''tunnel'') (tunnel_modes cf env lib addr op w)" for op addr w
    unfolding tunnel_modes_def Let_def by (intro yields_bind) (simp add: summarize_mode_labelled)
  show ?thesis unfolding tunnel_bench_def
    by (intro yields_bind_with[where Q = "all_labelled cf ''tunnel''"] yields_if m modes) simp_all
qed

text \<open>The modes of NETCONF and gNMI after the first add rows with their own names only.\<close>

lemma later_modes:
  assumes "list_all (\<lambda>(op, work). is_mode tr op) modes" "list_all (\<lambda>(op, tc). is_mode tr op) acc"
  shows "yields (list_all (\<lambda>(op, tc). is_mode tr op)) (nc_modes cf env lib modes acc w)"
    using assms
proof (induction modes arbitrary: acc w)
  case (Cons m modes)
  then have "yields (list_all (\<lambda>(op, tc). is_mode tr op)) (nc_modes cf env lib modes (acc @ [(fst m, tc)]) w)" for tc w
    by (auto split: prod.splits)
  then show ?case using Cons.prems by (cases m) (auto split: option.split intro!: yields_bind)
qed simp

lemma later_gnmi_modes:
  assumes "list_all (\<lambda>(op, work). is_mode tr op) modes" "list_all (\<lambda>(op, tc). is_mode tr op) acc"
  shows "yields (list_all (\<lambda>(op, tc). is_mode tr op)) (gnmi_modes cf env lib net modes acc w)"
    using assms
proof (induction modes arbitrary: acc w)
  case (Cons m modes)
  then have "yields (list_all (\<lambda>(op, tc). is_mode tr op)) (gnmi_modes cf env lib net modes (acc @ [(fst m, tc)]) w)" for tc w
    by (auto split: prod.splits)
  then show ?case using Cons.prems by (cases m) (auto split: option.split intro!: yields_bind)
qed simp

lemma rows_of_modes:
  "list_all (\<lambda>(op, tc). is_mode tr op) rows \<Longrightarrow>
     all_labelled cf tr (map (\<lambda>(op, tc). summarize_mode cf env tr op tc w) rows)"
  by (auto simp: list_all_iff intro!: summarize_mode_labelled)

lemma netconf_rows: "yields (all_labelled cf ''netconf'') (netconf_bench cf env lib w)"
  unfolding netconf_bench_def
  by (rule yields_bind, rule yields_bind_with[OF later_modes]) (auto simp: modes intro!: rows_of_modes)

lemma gnmi_rows: "yields (all_labelled cf ''gnmi'') (gnmi_bench cf env lib net w)"
  unfolding gnmi_bench_def Let_def
  by (rule yields_bind, rule yields_bind_with[OF later_gnmi_modes]) (auto simp: modes intro!: rows_of_modes)

lemma labelled_addr: "labelled (cf\<lparr>cf_addr := a\<rparr>) tr r \<longleftrightarrow> labelled cf tr r"
  by (simp add: labelled_def carries_def)

section \<open>Rows of a run\<close>

text \<open>The transports a selection may lead to.\<close>

definition selects :: "bench_cmd \<Rightarrow> string \<Rightarrow> bool" where
  "selects b tr \<longleftrightarrow> (if tr = ''tunnel'' then bc_has b ''tunnel-https'' \<or> bc_has b ''tunnel-http3'' else bc_has b tr)"

lemma yields_mono: "yields P m \<Longrightarrow> (\<And>x. P x \<Longrightarrow> Q x) \<Longrightarrow> yields Q m"
  by (auto simp: yields_def)

lemma run_jobs_Nil: "yields (list_all P) (run_jobs [] w)"
  by simp

lemma run_jobs_Cons:
  assumes "sel \<Longrightarrow> yields (list_all P) (job w)" "\<And>w. yields (list_all P) (run_jobs jobs w)"
  shows "yields (list_all P) (run_jobs ((sel, job) # jobs) w)"
proof (cases sel)
  case True
  show ?thesis unfolding run_jobs.simps if_P[OF True]
    by (rule yields_bind_with[OF assms(1)[OF True]], rule yields_bind_with[OF assms(2)]) simp
next
  case False
  then show ?thesis using assms(2) by simp
qed

text \<open>
  A row of a sweep is labelled with its level. Its concurrency is the level and its iterations the
  connections that were opened; when none was, both are those of the configuration.
\<close>

definition sweep_labelled :: "bench_config \<Rightarrow> string \<Rightarrow> int \<Rightarrow> bench_result \<Rightarrow> bool" where
  "sweep_labelled cf tr n r \<longleftrightarrow> r_transport r = tr \<and> r_operation r = ''sweep'' \<and> carries cf r \<and> r_sweep_n r = n
     \<and> (r_concurrency r = n \<and> 1 \<le> r_iterations r \<and> r_iterations r \<le> n \<and> r_errors r \<le> r_iterations r
       \<or> r_concurrency r = cf_concurrency cf \<and> r_iterations r = int (cf_iterations cf) \<and> r_errors r = 1)"

lemma sweep_row_carries:
  "carries cf (sweep_row tr cf env n per_conn a b c w)"
  "r_concurrency (sweep_row tr cf env n per_conn a b c w) = int n"
  "r_operation (sweep_row tr cf env n per_conn a b c w) = ''sweep''"
  by (simp_all add: sweep_row_def Let_def carries_def) (simp_all add: summarize_def Let_def split: prod.split)

lemma sweep_level_labelled:
  assumes l: "sweep_level tr cf n op senv sched w = Some (r, w')"
  shows "sweep_labelled cf tr (int n) r"
proof -
  obtain base w1 start w2 conns errs w3 ready w4 peak w5 where s:
    "open_all op cf n ([], 0) w2 = Some ((conns, errs), w3)"
    "conns = [] \<Longrightarrow> w' = w5 \<and> r = (summarize_mode cf (bench_env.truncate senv) tr ''sweep'' ([err_duration], make_counters cf) w5)
       \<lparr>r_sweep_n := int n, r_setup_ms := ms_of (ready - start)\<rparr>"
    "conns \<noteq> [] \<Longrightarrow> \<exists>wall w6 per_conn w7 fin w8 heap. be_now (bench_env.truncate senv) w5 = (wall, w6)
       \<and> run_order (exec_held (bench_env.truncate senv) conns) (sched (length conns)) (replicate (length conns) 0) w6 = Some (per_conn, w7)
       \<and> be_now (bench_env.truncate senv) w7 = (fin, w8) \<and> w' = close_all conns w8
       \<and> r = sweep_row tr cf (bench_env.truncate senv) n per_conn (ms_of (ready - start)) (ms_of (fin - wall)) heap w8"
    by (rule sweep_level_stages[OF l]) (rule that)
  show ?thesis
  proof (cases "conns = []")
    case True
    let ?r = "summarize_mode cf (bench_env.truncate senv) tr ''sweep'' ([err_duration], make_counters cf) w5"
    have "carries cf (?r\<lparr>r_sweep_n := int n, r_setup_ms := ms_of (ready - start)\<rparr>)"
      using summarize_mode_carries(1)[of cf _ tr "''sweep''" _ w5] by (simp add: carries_def)
    then show ?thesis using s(2)[OF True] by (simp add: sweep_labelled_def summarize_mode_row summarize_mode_carries(2,3))
  next
    case False
    then obtain per_conn a b heap v u v' where r: "r = sweep_row tr cf (bench_env.truncate senv) n per_conn a b heap v"
      "run_order (exec_held (bench_env.truncate senv) conns) (sched (length conns)) (replicate (length conns) 0) u = Some (per_conn, v')"
      using s(3) by blast
    have "length per_conn = length conns" using run_order_length[OF r(2)] by simp
    moreover have "count_list per_conn err_duration \<le> length per_conn" by (rule count_le_length)
    moreover have "length conns \<le> n" "1 \<le> length conns" using open_all_counts[OF s(1)] False by (simp_all add: Suc_le_eq)
    ultimately show ?thesis by (simp add: r(1) sweep_labelled_def sweep_row_fields sweep_row_carries)
  qed
qed

abbreviation sweep_of :: "bench_config \<Rightarrow> string \<Rightarrow> int list \<Rightarrow> bench_result \<Rightarrow> bool" where
  "sweep_of cf tr levels r \<equiv> 1 \<le> r_sweep_n r \<and> r_sweep_n r \<in> set levels \<and> sweep_labelled cf tr (r_sweep_n r) r"

lemma sweep_yields: "yields (list_all (sweep_of cf tr levels)) (sweep openers tr cf levels senv sched w)"
proof -
  have "yields (list_all (sweep_of cf tr levels)) (sweep_levels tr cf ls op senv sched w)" if "set ls \<subseteq> set levels" for op w ls
    using that
  proof (induction ls arbitrary: w)
    case (Cons n ls)
    have "yields (list_all (sweep_of cf tr levels))
        (Option.bind (sweep_level tr cf (nat n) op senv sched w)
          (\<lambda>(r, w1). Option.bind (sweep_levels tr cf ls op senv sched w1) (\<lambda>(rs, w2). Some (r # rs, w2))))" if n: "1 \<le> n"
    proof (rule yields_bind_with[where Q = "sweep_of cf tr levels"])
      have "yields (sweep_labelled cf tr (int (nat n))) (sweep_level tr cf (nat n) op senv sched w)"
        unfolding yields_def by (intro allI impI) (rule sweep_level_labelled)
      then show "yields (sweep_of cf tr levels) (sweep_level tr cf (nat n) op senv sched w)"
        by (rule yields_mono) (use n Cons.prems in \<open>auto simp: sweep_labelled_def\<close>)
    next
      fix r w1 assume "sweep_of cf tr levels r"
      then show "yields (list_all (sweep_of cf tr levels))
          (Option.bind (sweep_levels tr cf ls op senv sched w1) (\<lambda>(rs, w2). Some (r # rs, w2)))"
        using Cons by (intro yields_bind_with[OF Cons.IH]) simp_all
    qed
    then show ?case using Cons by simp
  qed simp
  then show ?thesis by (simp add: sweep_def split: option.split)
qed

text \<open>Every row of a run is labelled with a mode of a selected transport; every row of a sweep with a selected transport.\<close>

lemma run_rows:
  assumes "bc_sweep b = []"
  shows "yields (list_all (\<lambda>r. \<exists>tr. selects b tr \<and> labelled (base_config b e counting) tr r))
    (run_benchmarks b e (all_drivers perr senv sched lib http net http3 udp grpc) counting w)"
    (is "yields (list_all ?P) _")
proof -
  let ?cf = "base_config b e counting"
  have m: "yields (list_all ?P) m" if y: "yields (all_labelled cf tr) m" and "selects b tr" "\<And>r. labelled cf tr r = labelled ?cf tr r"
    for cf tr and m :: "(bench_result list \<times> 'a) option"
    using y by (rule yields_mono) (use that(2,3) in \<open>auto simp: list_all_iff\<close>)
  have s: "bc_has b tr \<Longrightarrow> tr \<noteq> ''tunnel'' \<Longrightarrow> selects b tr"
    "bc_has b ''tunnel-https'' \<Longrightarrow> selects b ''tunnel''" "bc_has b ''tunnel-http3'' \<Longrightarrow> selects b ''tunnel''" for tr
    by (simp_all add: selects_def)
  note row = m[OF ssh_rows] m[OF https_rows] m[OF proxy_rows] m[OF http3_rows] m[OF gnmi_rows] m[OF netconf_rows]
    m[OF restconf_rows] m[OF tunnel_rows]
  show ?thesis
    unfolding run_benchmarks_def Let_def assms list.size all_drivers_def drivers.simps
    by (simp only: if_False less_irrefl, intro run_jobs_Cons run_jobs_Nil)
      (rule row; simp add: s labelled_addr)+
qed

lemma sweep_labelled_addr: "sweep_labelled (cf\<lparr>cf_addr := a\<rparr>) tr n r \<longleftrightarrow> sweep_labelled cf tr n r"
  by (simp add: sweep_labelled_def carries_def)

lemma sweep_rows:
  assumes "bc_sweep b \<noteq> []"
  shows "yields (list_all (\<lambda>r. bc_has b (r_transport r) \<and> sweep_of (base_config b e counting) (r_transport r) (bc_sweep b) r))
    (run_benchmarks b e (all_drivers perr senv sched lib http net http3 udp grpc) counting w)"
    (is "yields (list_all ?P) _")
proof -
  have m: "yields (list_all ?P) (sweep openers tr ((base_config b e counting)\<lparr>cf_addr := a\<rparr>) (bc_sweep b) senv sched w)"
    if "bc_has b tr" for openers tr a w
    using sweep_yields by (rule yields_mono) (use that in \<open>auto simp: list_all_iff sweep_labelled_addr sweep_labelled_def carries_def\<close>)
  have "length (bc_sweep b) > 0" using assms by simp
  then show ?thesis
    unfolding run_benchmarks_def Let_def all_drivers_def drivers.simps run_sweep_def sweep_order_def
    by (simp only: if_True list.map, intro run_jobs_Cons run_jobs_Nil) (rule m, assumption)+
qed

text \<open>The report has a category for every mode but the tunnel's own, which have no other.\<close>

lemma mode_category:
  assumes "is_mode tr op"
  shows "classify op = Other \<longleftrightarrow> op = ''ssh-https-ssh'' \<or> op = ''ssh-http3-ssh''"
proof -
  have "list_all (\<lambda>(tr, ops). list_all (\<lambda>op. (classify op = Other) = (op = ''ssh-https-ssh'' \<or> op = ''ssh-http3-ssh'')) ops) modes_of"
    by (simp add: modes_of_def classify_def contains_def lower_char_def)
  then show ?thesis using assms by (auto simp: is_mode_def list_all_iff split: option.splits dest!: map_of_SomeD)
qed

lemma mode_not_sweep: "is_mode tr op \<Longrightarrow> op \<noteq> ''sweep''"
proof -
  have "list_all (\<lambda>(tr, ops). ''sweep'' \<notin> set ops) modes_of" by code_simp
  then show "is_mode tr op \<Longrightarrow> op \<noteq> ''sweep''"
    by (auto simp: is_mode_def list_all_iff split: option.splits dest!: map_of_SomeD)
qed

text \<open>The layout that is printed is the one of the run.\<close>

lemma run_layout:
  assumes "run_benchmarks b e (all_drivers perr senv sched lib http net http3 udp grpc) counting w = Some (rs, w')"
  shows "is_sweep rs \<longleftrightarrow> bc_sweep b \<noteq> [] \<and> rs \<noteq> []"
proof (cases "bc_sweep b = []")
  case True
  then show ?thesis
    using run_rows[OF True, of e counting perr senv sched lib http net http3 udp grpc w] assms
    by (auto simp: yields_def list_all_iff is_sweep_iff labelled_def dest!: mode_not_sweep)
next
  case False
  then show ?thesis
    using sweep_rows[OF False, of e counting perr senv sched lib http net http3 udp grpc w] assms
    by (cases rs) (auto simp: yields_def is_sweep_iff sweep_labelled_def)
qed

section \<open>The labels, read off the command line\<close>

lemma run_carries:
  assumes "run_benchmarks b e (all_drivers perr senv sched lib http net http3 udp grpc) counting w = Some (rs, w')" "r \<in> set rs"
  shows "carries (base_config b e counting) r"
proof (cases "bc_sweep b = []")
  case True
  then show ?thesis
    using run_rows[OF True, of e counting perr senv sched lib http net http3 udp grpc w] assms
    by (auto simp: yields_def list_all_iff labelled_def)
next
  case False
  then show ?thesis
    using sweep_rows[OF False, of e counting perr senv sched lib http net http3 udp grpc w] assms
    by (auto simp: yields_def list_all_iff sweep_labelled_def)
qed

lemma run_settings:
  assumes "build_env b = Inr e" "map_of latency_profiles (bc_latency b) = Some dly"
    and "run_benchmarks b e (all_drivers perr senv sched lib http net http3 udp grpc) counting w = Some (rs, w')"
  shows "\<forall>r \<in> set rs. r_latency r = bc_latency b \<and> r_rtt_ms r = fmul (f64_of_int (dly sdiv millisecond)) 2
     \<and> r_jitter_ms r = f64_of_int (bc_jitter b sdiv millisecond) \<and> r_loss_pct r = bc_loss b \<and> r_commands r = int (bc_commands b)"
proof
  fix r assume "r \<in> set rs"
  note c = run_carries[OF assms(3) this]
  have "ea_rtt_ms e = fmul (f64_of_int (dly sdiv millisecond)) 2" using assms(1,2) by (auto simp: build_env_def)
  then show "r_latency r = bc_latency b \<and> r_rtt_ms r = fmul (f64_of_int (dly sdiv millisecond)) 2
     \<and> r_jitter_ms r = f64_of_int (bc_jitter b sdiv millisecond) \<and> r_loss_pct r = bc_loss b \<and> r_commands r = int (bc_commands b)"
    using c by (simp add: carries_def base_config_def)
qed

lemma run_modes:
  assumes "run_benchmarks b e (all_drivers perr senv sched lib http net http3 udp grpc) counting w = Some (rs, w')"
  shows "bc_sweep b = [] \<longrightarrow> (\<forall>r \<in> set rs. r_iterations r = int (bc_iterations b) \<and> r_concurrency r = bc_concurrency b
     \<and> (\<exists>tr. selects b tr \<and> r_transport r = tr \<and> is_mode tr (r_operation r))
     \<and> (classify (r_operation r) = Other \<longleftrightarrow> r_operation r = ''ssh-https-ssh'' \<or> r_operation r = ''ssh-http3-ssh''))"
proof (intro impI ballI)
  fix r assume n: "bc_sweep b = []" and "r \<in> set rs"
  then obtain tr where "selects b tr" "labelled (base_config b e counting) tr r"
    using run_rows[OF n, of e counting perr senv sched lib http net http3 udp grpc w] assms
    by (auto simp: yields_def list_all_iff)
  then show "r_iterations r = int (bc_iterations b) \<and> r_concurrency r = bc_concurrency b
     \<and> (\<exists>tr. selects b tr \<and> r_transport r = tr \<and> is_mode tr (r_operation r))
     \<and> (classify (r_operation r) = Other \<longleftrightarrow> r_operation r = ''ssh-https-ssh'' \<or> r_operation r = ''ssh-http3-ssh'')"
    using mode_category by (auto simp: labelled_def base_config_def)
qed

lemma run_levels:
  assumes "run_benchmarks b e (all_drivers perr senv sched lib http net http3 udp grpc) counting w = Some (rs, w')"
  shows "bc_sweep b \<noteq> [] \<longrightarrow> (\<forall>r \<in> set rs. bc_has b (r_transport r) \<and> r_operation r = ''sweep''
     \<and> r_sweep_n r \<in> set (bc_sweep b) \<and> 1 \<le> r_sweep_n r
     \<and> (r_concurrency r = r_sweep_n r \<and> 1 \<le> r_iterations r \<and> r_iterations r \<le> r_sweep_n r \<and> r_errors r \<le> r_iterations r
       \<or> r_concurrency r = bc_concurrency b \<and> r_iterations r = int (bc_iterations b) \<and> r_errors r = 1))"
proof (intro impI ballI)
  fix r assume n: "bc_sweep b \<noteq> []" and "r \<in> set rs"
  then have "bc_has b (r_transport r) \<and> sweep_of (base_config b e counting) (r_transport r) (bc_sweep b) r"
    using sweep_rows[OF n, of e counting perr senv sched lib http net http3 udp grpc w] assms
    by (auto simp: yields_def list_all_iff)
  then show "bc_has b (r_transport r) \<and> r_operation r = ''sweep''
     \<and> r_sweep_n r \<in> set (bc_sweep b) \<and> 1 \<le> r_sweep_n r
     \<and> (r_concurrency r = r_sweep_n r \<and> 1 \<le> r_iterations r \<and> r_iterations r \<le> r_sweep_n r \<and> r_errors r \<le> r_iterations r
       \<or> r_concurrency r = bc_concurrency b \<and> r_iterations r = int (bc_iterations b) \<and> r_errors r = 1)"
    unfolding sweep_labelled_def base_config_def by simp
qed

end
