(* ===== verification/ReportText.thy ===== *)
theory ReportText
  imports Report Output
begin

text \<open>
  The text of a report, \<open>internal/report/format.go\<close>, and the command \<open>report\<close>,
  \<open>cmd/clibench/report.go\<close>. The labels of a table hold no tabs or line breaks, as in \<open>Output\<close>.
  \<open>None\<close> is the panic of \<open>strings.Repeat\<close> on a negative count.
\<close>

section \<open>Rendering\<close>

definition category_name :: "category \<Rightarrow> string" where
  "category_name c =
     (case c of Fresh \<Rightarrow> ''Fresh connection'' | Reuse \<Rightarrow> ''Keep-alive / reuse'' | Batch \<Rightarrow> ''Batch'' | Other \<Rightarrow> ''Other'')"

definition upper_char :: "char \<Rightarrow> char" where
  "upper_char c = (if 97 \<le> byte_of c \<and> byte_of c \<le> 122 then char_of (byte_of c - 32) else c)"

text \<open>A dash, in UTF-8.\<close>

definition em_dash :: string where
  "em_dash = [CHR 0xE2, CHR 0x80, CHR 0x94]"

definition rep_header :: "report \<Rightarrow> string" where
  "rep_header r =
     rep_profile r @ '' ('' @ fixed 0 (rep_rtt r) @ ''ms RTT)''
     @ (if rep_jitter r > 0 then '', '' @ fixed 0 (rep_jitter r) @ ''ms jitter'' else [])
     @ (if rep_loss r > 0 then '', '' @ fixed 2 (rep_loss r) @ ''% loss'' else [])
     @ '' '' @ em_dash @ '' '' @ dec_int (rep_iterations r) @ '' iterations, '' @ dec_int (rep_commands r) @ '' commands''"

definition bar_width :: f64 where
  "bar_width = 24"

definition bar_length :: "f64 \<Rightarrow> row \<Rightarrow> int" where
  "bar_length mx row = int_of_f64 (fmul (fdiv (row_p50 row) mx) bar_width)"

definition go_repeat :: "string \<Rightarrow> int \<Rightarrow> string option" where
  "go_repeat s n = (if n < 0 then None else Some (concat (replicate (nat n) s)))"

definition table_row :: "bool \<Rightarrow> f64 \<Rightarrow> row \<Rightarrow> string list option" where
  "table_row bars mx row =
     (let cells = [''  '' @ row_transport row @ '' '' @ row_operation row, fixed 1 (row_p50 row) @ ''ms'',
            ''('' @ dec_int (row_trips row) @ '' RT)'']
      in if bars \<and> mx > 0 then map_option (\<lambda>bar. cells @ [bar]) (go_repeat ''#'' (bar_length mx row)) else Some cells)"

fun all_some :: "'a option list \<Rightarrow> 'a list option" where
  "all_some [] = Some []"
| "all_some (None # xs) = None"
| "all_some (Some x # xs) = map_option (Cons x) (all_some xs)"

definition table_group :: "bool \<Rightarrow> f64 \<Rightarrow> group \<Rightarrow> string option" where
  "table_group bars mx g =
     map_option (\<lambda>rows. [NL] @ map upper_char (category_name (grp_category g)) @ '' (p50):'' @ [NL] @ tab_table rows)
       (all_some (map (table_row bars mx) (grp_rows g)))"

definition render_table :: "bool \<Rightarrow> report \<Rightarrow> string option" where
  "render_table bars r =
     map_option (\<lambda>texts. ''=== '' @ rep_header r @ '' ==='' @ [NL] @ concat texts)
       (all_some (map (table_group bars (max_p50 r)) (rep_groups r)))"

definition markdown_row :: "row \<Rightarrow> string" where
  "markdown_row row =
     ''| '' @ row_transport row @ '' | '' @ row_operation row @ '' | '' @ fixed 1 (row_p50 row) @ '' | ''
     @ fixed 1 (row_p95 row) @ '' | '' @ dec_int (row_trips row) @ '' |'' @ [NL]"

definition markdown_group :: "group \<Rightarrow> string" where
  "markdown_group g =
     [NL] @ ''### '' @ category_name (grp_category g) @ [NL, NL]
     @ ''| Transport | Operation | p50 (ms) | p95 (ms) | Round Trips |'' @ [NL] @ ''|---|---|---|---|---|'' @ [NL]
     @ concat (map markdown_row (grp_rows g))"

definition render_markdown :: "report \<Rightarrow> string" where
  "render_markdown r = ''## '' @ rep_header r @ [NL] @ concat (map markdown_group (rep_groups r))"

definition render :: "string \<Rightarrow> bool \<Rightarrow> report \<Rightarrow> string option" where
  "render fmt bars r = (if fmt = ''markdown'' then Some (render_markdown r) else render_table bars r)"

section \<open>The command\<close>

definition focus_of :: "string \<Rightarrow> (string \<times> bool) list" where
  "focus_of s = (if s \<noteq> [] then map (\<lambda>t. (trim_space t, True)) (split_on (CHR '','') s) else [])"

definition report_run ::
  "(row list \<Rightarrow> row list) \<Rightarrow> string result \<Rightarrow> (string \<Rightarrow> bench_result list result) \<Rightarrow> string \<Rightarrow> string \<Rightarrow> bool \<Rightarrow>
     string \<Rightarrow> string result option" where
  "report_run srt file unmarshal path fmt bars focus =
     (case load file unmarshal path of
        Inl e \<Rightarrow> Some (Inl e)
      | Inr rs \<Rightarrow> map_option Inr (render fmt bars (build srt rs (focus_of focus))))"

section \<open>Bars\<close>

lemma all_some_iff: "all_some xs = None \<longleftrightarrow> None \<in> set xs"
  by (induction xs rule: all_some.induct) auto

text \<open>A bar is never longer than the width, and the slowest row has the full width.\<close>

lemma bar_length_bounds:
  assumes "0 \<le> row_p50 row" "row_p50 row \<le> mx" "0 < mx"
  shows "0 \<le> bar_length mx row" "bar_length mx row \<le> 24" "row_p50 row = mx \<Longrightarrow> bar_length mx row = 24"
proof -
  let ?q = "fdiv (row_p50 row) mx"
  have one: "fl 1 = 1" "fl 24 = 24" using fl_int[of 1] fl_int[of 24] by simp_all
  have q: "0 \<le> ?q" "?q \<le> 1" unfolding fdiv_def
    using assms fl_ge_0[of "row_p50 row / mx"] fl_mono[of "row_p50 row / mx" 1] one by simp_all
  have p: "0 \<le> fmul ?q 24" "fmul ?q 24 \<le> 24" unfolding fmul_def
    using q fl_ge_0[of "?q * 24"] fl_mono[of "?q * 24" 24] one by simp_all
  show "0 \<le> bar_length mx row" "bar_length mx row \<le> 24"
    using p by (simp_all add: bar_length_def bar_width_def int_of_f64_def floor_le_iff)
  assume "row_p50 row = mx"
  then show "bar_length mx row = 24"
    using assms(3) one by (simp add: bar_length_def bar_width_def fdiv_def fmul_def int_of_f64_def)
qed

lemma rows_below_max:
  assumes "g \<in> set (rep_groups r)" "row \<in> set (grp_rows g)"
  shows "row_p50 row \<le> max_p50 r"
  unfolding max_p50_Max by (rule Max_ge) (use assms in auto)

lemma render_returns:
  assumes "\<forall>g \<in> set (rep_groups r). \<forall>row \<in> set (grp_rows g). 0 \<le> row_p50 row"
  shows "\<exists>text. render fmt bars r = Some text"
proof -
  have row: "table_row bars (max_p50 r) row \<noteq> None" if "g \<in> set (rep_groups r)" "row \<in> set (grp_rows g)" for g row
    using bar_length_bounds(1)[of row "max_p50 r"] rows_below_max[OF that] assms that
    by (auto simp: table_row_def go_repeat_def Let_def)
  have "table_group bars (max_p50 r) g \<noteq> None" if g: "g \<in> set (rep_groups r)" for g
  proof -
    have "None \<notin> set (map (table_row bars (max_p50 r)) (grp_rows g))" using row[OF g] by force
    then show ?thesis by (simp add: table_group_def all_some_iff del: not_None_eq)
  qed
  then have "None \<notin> set (map (table_group bars (max_p50 r)) (rep_groups r))" by force
  then have "render_table bars r \<noteq> None" by (simp add: render_table_def all_some_iff del: not_None_eq)
  then show ?thesis by (auto simp: render_def)
qed

end
