(* ===== verification/Smoke.thy ===== *)
theory Smoke
  imports BenchCmd
begin

text \<open>
  The other commands of \<open>cmd/clibench\<close>: \<open>server\<close> (\<open>server.go\<close>) and \<open>smoketest\<close>
  (\<open>smoketest.go\<close>). The texts on the standard output are lists of lines; log lines are left out.
  \<open>ssh.Dial\<close> closes its TCP connection when the handshake fails, as \<open>sshDialCounted\<close> does.
\<close>

section \<open>The server command\<close>

record server_cmd =
  sv_ssh_port :: int
  sv_https_port :: int
  sv_http3_port :: int
  sv_hostname :: string
  sv_user :: string
  sv_pass :: string
  sv_transcripts :: string

datatype server_event = Started server string | ClosedSrv server

definition any_host :: "int \<Rightarrow> string" where
  "any_host port = CHR '':'' # dec_int port"

text \<open>
  Three servers on listeners of their own, closed when a signal comes. \<open>ssh_err\<close> is the error of
  making the SSH server; without a signal the command does not return.
\<close>

definition server_run ::
  "string option \<Rightarrow> dirent list result \<Rightarrow> bool \<Rightarrow> server_cmd \<Rightarrow> (string option \<times> server_event list) option" where
  "server_run ssh_err listing signal s =
     (case new_device (sv_hostname s) (sv_user s) (sv_pass s) (sv_transcripts s) listing of
        Inl e \<Rightarrow> Some (Some (''device init: '' @ e), [])
      | Inr dev \<Rightarrow>
          (case ssh_err of
             Some e \<Rightarrow> Some (Some (''ssh server init: '' @ e), [])
           | None \<Rightarrow>
               let up = [Started SshSrv (any_host (sv_ssh_port s)), Started HttpsSrv (any_host (sv_https_port s)),
                         Started Http3Srv (any_host (sv_http3_port s))]
               in if signal then Some (None, up @ [ClosedSrv SshSrv, ClosedSrv HttpsSrv, ClosedSrv Http3Srv]) else None))"

section \<open>Requests of the smoke test\<close>

record ('l, 'w) smoke_env = "('l, 'w) cmd_env" +
  sm_listen_packet :: "string \<Rightarrow> 'w \<Rightarrow> 'l result \<times> 'w"
  sm_addr :: "'l \<Rightarrow> string"

definition exec_path :: string where
  "exec_path = ''/admin/exec/show+version''"

text \<open>
  \<open>doHTTPS\<close> and \<open>doHTTP3\<close>: the body of the answer, whatever its status. The code drops the error
  of \<open>NewRequest\<close> and would use a nil request; the path parses.
\<close>

definition smoke_request :: "(string \<Rightarrow> string) \<Rightarrow> http_request" where
  "smoke_request parse_err = projr (new_request parse_err ''GET'' exec_path [])"

definition smoke_get ::
  "(string \<Rightarrow> string) \<Rightarrow> ('tr, 'c, ('w, 't) local) http_lib \<Rightarrow> tr_kind \<Rightarrow> string \<Rightarrow> 'w \<Rightarrow> string result \<times> 'w" where
  "smoke_get parse_err lib kind addr w =
     (let (tr, v1) = hl_new lib kind None (w, []);
          (r, v2) = hl_do lib tr addr ((smoke_request parse_err)\<lparr>auth_cred := set_basic_auth ''admin'' ''admin''\<rparr>) v1
      in (map_sum id resp_body r, fst v2))"

definition do_https ::
  "(string \<Rightarrow> string) \<Rightarrow> ('tr, 'c, ('w, 't) local) http_lib \<Rightarrow> string \<Rightarrow> 'w \<Rightarrow> string result \<times> 'w" where
  "do_https parse_err lib = smoke_get parse_err lib KeepAlive"

definition do_http3 ::
  "(string \<Rightarrow> string) \<Rightarrow> ('tr, 'c, ('w, 't) local) http_lib \<Rightarrow> string \<Rightarrow> 'w \<Rightarrow> string result \<times> 'w" where
  "do_http3 parse_err lib = smoke_get parse_err lib Http3"

definition do_ssh :: "('t, 'c, 's, 'w) ssh_lib \<Rightarrow> string \<Rightarrow> 'w \<Rightarrow> (string result \<times> 'w) option" where
  "do_ssh lib addr w = do {
     (r, w1) \<leftarrow> ssh_dial_counted lib addr ''admin'' ''admin'' w;
     (case r of
        Inl e \<Rightarrow> Some (Inl e, w1)
      | Inr (c, cc) \<Rightarrow> do {
          (r, w2) \<leftarrow> sl_session lib c w1;
          (case r of
             Inl e \<Rightarrow> Some (Inl e, sl_close lib c w2)
           | Inr s \<Rightarrow> do {
               (out, w3) \<leftarrow> sl_output lib s ''show version'' w2;
               Some (out, sl_close lib c (sl_sess_close lib s w3))
             })
        })
   }"

fun first_line :: "string \<Rightarrow> string" where
  "first_line [] = []"
| "first_line (c # cs) = (if c = NL then [] else c # first_line cs)"

section \<open>The smoke test\<close>

definition ok_line :: "string \<Rightarrow> string \<Rightarrow> string" where
  "ok_line name body = name @ '' OK: '' @ dec (length body) @ '' bytes, first line: '' @ first_line body"

text \<open>Waits up to five seconds; that nothing answered is not an error.\<close>

fun smoke_wait :: "('l, 'w) smoke_env \<Rightarrow> string list \<Rightarrow> 'w \<Rightarrow> 'w option" where
  "smoke_wait env [] w = Some w"
| "smoke_wait env (addr # addrs) w =
     (case be_now env w of (now, w1) \<Rightarrow> do {
        (_, w2) \<leftarrow> wait_loop env addr (100 * millisecond) (10 * millisecond) (now + 5000 * millisecond) w1;
        smoke_wait env addrs w2
      })"

text \<open>The three servers on free ports: their addresses.\<close>

definition smoke_start :: "('l, 'w) smoke_env \<Rightarrow> 'w \<Rightarrow> (string \<times> string \<times> string) result \<times> 'w" where
  "smoke_start env w =
     (case ce_listen env ''127.0.0.1:0'' w of
        (Inl e, w1) \<Rightarrow> (Inl e, w1)
      | (Inr ssh, w1) \<Rightarrow>
     (case ce_new env SshSrv w1 of
        (Some e, w2) \<Rightarrow> (Inl e, w2)
      | (None, w2) \<Rightarrow>
     (case ce_listen env ''127.0.0.1:0'' (ce_serve env SshSrv (sm_addr env ssh) (Some (ssh, None)) w2) of
        (Inl e, w3) \<Rightarrow> (Inl e, w3)
      | (Inr https, w3) \<Rightarrow>
     (case sm_listen_packet env ''127.0.0.1:0'' (ce_serve env HttpsSrv (sm_addr env https) (Some (https, None)) w3) of
        (Inl e, w4) \<Rightarrow> (Inl e, w4)
      | (Inr h3, w4) \<Rightarrow>
          (Inr (sm_addr env ssh, sm_addr env https, sm_addr env h3),
           ce_serve env Http3Srv (sm_addr env h3) (Some (h3, None)) w4)))))"

text \<open>The three tests in order; the first that fails ends the command.\<close>

definition smoke_tests ::
  "(string \<Rightarrow> string) \<Rightarrow> ('tr, 'k, ('w, 'u) local) http_lib \<Rightarrow> ('t, 'c, 's, 'w) ssh_lib \<Rightarrow>
     ('tr3, 'k3, ('w, 'u3) local) http_lib \<Rightarrow> string \<times> string \<times> string \<Rightarrow>
     'w \<Rightarrow> ((string option \<times> string list) \<times> 'w) option" where
  "smoke_tests parse_err http ssh http3 addrs w =
     (case addrs of (ssh_addr, https_addr, h3_addr) \<Rightarrow>
        let head1 = [[], ''=== HTTPS Test ===''] in
        (case do_https parse_err http https_addr w of
           (Inl e, w1) \<Rightarrow> Some ((Some (''https: '' @ e), head1), w1)
         | (Inr body1, w1) \<Rightarrow> do {
             let head2 = head1 @ [ok_line ''HTTPS'' body1, [], ''=== SSH Test ===''];
             (r, w2) \<leftarrow> do_ssh ssh ssh_addr w1;
             (case r of
                Inl e \<Rightarrow> Some ((Some (''ssh: '' @ e), head2), w2)
              | Inr body2 \<Rightarrow>
                  let head3 = head2 @ [ok_line ''SSH'' body2, [], ''=== HTTP/3 Test ==='']
                  in Some (case do_http3 parse_err http3 h3_addr w2 of
                       (Inl e, w3) \<Rightarrow> ((Some (''http3: '' @ e), head3), w3)
                     | (Inr body3, w3) \<Rightarrow> ((None, head3 @ [ok_line ''HTTP/3'' body3, [], ''=== ALL PASS ==='']), w3)))
           }))"

definition smoke_run ::
  "('l, 'w) smoke_env \<Rightarrow> (string \<Rightarrow> string) \<Rightarrow> ('tr, 'k, ('w, 'u) local) http_lib \<Rightarrow> ('t, 'c, 's, 'w) ssh_lib \<Rightarrow>
     ('tr3, 'k3, ('w, 'u3) local) http_lib \<Rightarrow> string \<Rightarrow> string \<Rightarrow> dirent list result \<Rightarrow>
     'w \<Rightarrow> ((string option \<times> string list) \<times> 'w) option" where
  "smoke_run env parse_err http ssh http3 host transcripts listing w =
     (case new_device host ''admin'' ''admin'' transcripts listing of
        Inl e \<Rightarrow> Some ((Some (''device: '' @ e), []), w)
      | Inr dev \<Rightarrow>
          let loaded = [''Loaded '' @ dec (length (command_names dev)) @ '' commands''] in
          (case smoke_start env w of
             (Inl e, w1) \<Rightarrow> Some ((Some e, loaded), w1)
           | (Inr addrs, w1) \<Rightarrow> do {
               w2 \<leftarrow> smoke_wait env [fst addrs, fst (snd addrs)] w1;
               ((err, texts), w3) \<leftarrow> smoke_tests parse_err http ssh http3 addrs (be_sleep env (100 * millisecond) w2);
               Some ((err, loaded @ texts), w3)
             }))"

section \<open>What the tests test\<close>

lemma first_line_takeWhile: "first_line s = takeWhile (\<lambda>c. c \<noteq> NL) s"
  by (induction s) simp_all

text \<open>
  Any answer passes: over HTTPS and HTTP/3 the smoke test only fails when there is none.
\<close>

lemma smoke_status_ignored:
  assumes "hl_new lib kind None (w, []) = (tr, v1)"
    and "hl_do lib tr addr ((smoke_request parse_err)\<lparr>auth_cred := set_basic_auth ''admin'' ''admin''\<rparr>) v1 =
      (Inr \<lparr>status = 401, content_type = ct, www_auth = wa, resp_body = body\<rparr>, v2)"
  shows "smoke_get parse_err lib kind addr w = (Inr body, fst v2)"
  using assms by (simp add: smoke_get_def)

text \<open>The SSH test leaves no connection behind.\<close>

context counted_ssh
begin

lemma do_ssh_keeps: "do_ssh lib addr w = Some (r, w') \<Longrightarrow> opened w' = opened w"
proof -
  assume run: "do_ssh lib addr w = Some (r, w')"
  then obtain d w1 where 1: "ssh_dial_counted lib addr ''admin'' ''admin'' w = Some (d, w1)"
    by (auto simp: do_ssh_def elim!: bind_SomeE)
  show ?thesis
  proof (cases d)
    case (Inl e)
    then show ?thesis using run 1 dial_err by (simp add: do_ssh_def)
  next
    case (Inr ccc)
    obtain c cc where c: "ccc = (c, cc)" by (cases ccc)
    then have o: "via c \<notin> opened w" "opened w1 = insert (via c) (opened w)" using dial_ok 1 Inr by blast+
    obtain x w2 where 2: "sl_session lib c w1 = Some (x, w2)" using run 1 Inr c by (auto simp: do_ssh_def elim!: bind_SomeE)
    have o2: "opened w2 = opened w1" by (rule sessions_keep_eq(1)[OF sessions 2])
    show ?thesis
    proof (cases x)
      case (Inl e)
      then have "w' = sl_close lib c w2" using run 1 2 \<open>d = Inr ccc\<close> c by (simp add: do_ssh_def)
      then show ?thesis using o o2 by (simp add: closed)
    next
      case (Inr sn)
      then obtain w3 where 3: "sl_output lib sn ''show version'' w2 = Some (r, w3)" "w' = sl_close lib c (sl_sess_close lib sn w3)"
        using run 1 2 \<open>d = Inr ccc\<close> c by (auto simp: do_ssh_def elim!: bind_SomeE)
      have "opened w3 = opened w2" "opened (sl_sess_close lib sn w3) = opened w3"
        by (rule sessions_keep_eq(2)[OF sessions 3(1)], rule sessions_keep_eq(3)[OF sessions])
      then show ?thesis using o o2 3(2) by (simp add: closed)
    qed
  qed
qed

end

end
