(* ===== verification/PktRun.thy ===== *)
theory PktRun
  imports PktCount
begin

text \<open>
  The life of a packet counter, \<open>internal/pktcount/pktcount.go\<close>: the capture goroutine against
  the caller of \<open>Start\<close>, \<open>Reset\<close> and \<open>Stop\<close>, as interleaved atomic steps. The two counters are
  separate atomic integers, so a reset or a packet can come between them. The socket has a read
  time-out: a call of \<open>Recvfrom\<close> returns a packet or an error. A call under way when \<open>Stop\<close> closes
  the descriptor may still return a packet.
\<close>

section \<open>Steps\<close>

datatype capture_at =
    Unstarted | AtSelect | AtRecv | AddIn "16 word" "16 word" | AddOut "16 word" | Exited

datatype caller_at = Idle | StoringOut | ClosingFd | AwaitLoop | Stopped

record pk_proc =
  pr_counter :: counter
  pr_at :: capture_at
  pr_caller :: caller_at
  pr_done :: bool
  pr_fd_open :: bool

datatype pk_label = Got recv | StoreIn | StoreOut | Quiet

definition pk_start :: "counter \<Rightarrow> pk_proc" where
  "pk_start c = \<lparr>pr_counter = c, pr_at = Unstarted, pr_caller = Idle, pr_done = False, pr_fd_open = True\<rparr>"

text \<open>Where the loop goes on after a packet: to the counters, or to its next turn.\<close>

definition after_packet :: "byte list \<Rightarrow> bool \<Rightarrow> capture_at" where
  "after_packet pkt outgoing =
     (if length pkt < 20 then AtSelect
      else if outgoing then AtSelect
      else case extract_ports pkt of None \<Rightarrow> AtSelect | Some (s, d) \<Rightarrow> AddIn s d)"

definition add_in :: "16 word \<Rightarrow> counter \<Rightarrow> counter" where
  "add_in d c = (if d \<in> pk_ports c then c\<lparr>pk_in := pk_in c + 1\<rparr> else c)"

definition add_out :: "16 word \<Rightarrow> counter \<Rightarrow> counter" where
  "add_out s c = (if s \<in> pk_ports c then c\<lparr>pk_out := pk_out c + 1\<rparr> else c)"

inductive pk_step :: "pk_proc \<Rightarrow> pk_label \<Rightarrow> pk_proc \<Rightarrow> bool" where
  start: "pr_at p = Unstarted \<Longrightarrow> pr_caller p = Idle \<Longrightarrow> pk_step p Quiet (p\<lparr>pr_at := AtSelect\<rparr>)"
| leave: "pr_at p = AtSelect \<Longrightarrow> pr_done p \<Longrightarrow> pk_step p (Got DoneClosed) (p\<lparr>pr_at := Exited\<rparr>)"
| go_on: "pr_at p = AtSelect \<Longrightarrow> \<not> pr_done p \<Longrightarrow> pk_step p Quiet (p\<lparr>pr_at := AtRecv\<rparr>)"
| recv_error: "pr_at p = AtRecv \<Longrightarrow> pk_step p (Got RecvError) (p\<lparr>pr_at := AtSelect\<rparr>)"
| recv_packet: "pr_at p = AtRecv \<Longrightarrow>
    pk_step p (Got (Received pkt outgoing)) (p\<lparr>pr_at := after_packet pkt outgoing\<rparr>)"
| count_in: "pr_at p = AddIn s d \<Longrightarrow>
    pk_step p Quiet (p\<lparr>pr_counter := add_in d (pr_counter p), pr_at := AddOut s\<rparr>)"
| count_out: "pr_at p = AddOut s \<Longrightarrow>
    pk_step p Quiet (p\<lparr>pr_counter := add_out s (pr_counter p), pr_at := AtSelect\<rparr>)"
| reset_in: "pr_caller p = Idle \<Longrightarrow>
    pk_step p StoreIn (p\<lparr>pr_counter := (pr_counter p)\<lparr>pk_in := 0\<rparr>, pr_caller := StoringOut\<rparr>)"
| reset_out: "pr_caller p = StoringOut \<Longrightarrow>
    pk_step p StoreOut (p\<lparr>pr_counter := (pr_counter p)\<lparr>pk_out := 0\<rparr>, pr_caller := Idle\<rparr>)"
| stop_done: "pr_caller p = Idle \<Longrightarrow> pk_step p Quiet (p\<lparr>pr_done := True, pr_caller := ClosingFd\<rparr>)"
| stop_fd: "pr_caller p = ClosingFd \<Longrightarrow> pk_step p Quiet (p\<lparr>pr_fd_open := False, pr_caller := AwaitLoop\<rparr>)"
| stop_wait: "pr_caller p = AwaitLoop \<Longrightarrow> pr_at p = Exited \<or> pr_at p = Unstarted \<Longrightarrow>
    pk_step p Quiet (p\<lparr>pr_caller := Stopped\<rparr>)"

inductive pk_run :: "pk_proc \<Rightarrow> pk_label list \<Rightarrow> pk_proc \<Rightarrow> bool" where
  none: "pk_run p [] p"
| more: "pk_step p l q \<Longrightarrow> pk_run q ls r \<Longrightarrow> pk_run p (l # ls) r"

inductive_cases pk_runE: "pk_run p (l # ls) r"
inductive_cases pk_run_nilE: "pk_run p [] r"

text \<open>What \<open>Recvfrom\<close> and the check of the channel gave the loop, in order.\<close>

fun received :: "pk_label list \<Rightarrow> recv list" where
  "received [] = []"
| "received (Got e # ls) = e # received ls"
| "received (_ # ls) = received ls"

section \<open>Every packet is counted once\<close>

text \<open>What the packet the loop holds still has to add.\<close>

definition due_in :: "pk_proc \<Rightarrow> nat" where
  "due_in p = (case pr_at p of AddIn s d \<Rightarrow> if d \<in> pk_ports (pr_counter p) then 1 else 0 | _ \<Rightarrow> 0)"

definition due_out :: "pk_proc \<Rightarrow> nat" where
  "due_out p = (case pr_at p of AddIn s d \<Rightarrow> if s \<in> pk_ports (pr_counter p) then 1 else 0
     | AddOut s \<Rightarrow> if s \<in> pk_ports (pr_counter p) then 1 else 0 | _ \<Rightarrow> 0)"

definition to_port :: "16 word set \<Rightarrow> recv list \<Rightarrow> nat" where
  "to_port ports evs = length (filter (\<lambda>(s, d). d \<in> ports) (counted evs))"

definition from_port :: "16 word set \<Rightarrow> recv list \<Rightarrow> nat" where
  "from_port ports evs = length (filter (\<lambda>(s, d). s \<in> ports) (counted evs))"

lemmas accounts = due_in_def due_out_def to_port_def from_port_def after_packet_def add_in_def add_out_def

lemma step_ports: "pk_step p l q \<Longrightarrow> pk_ports (pr_counter q) = pk_ports (pr_counter p)"
  by (induction rule: pk_step.induct) (simp_all add: add_in_def add_out_def)

text \<open>A step adds to a counter, or to what is due, what its event is worth.\<close>

definition worth :: "pk_label \<Rightarrow> recv list" where
  "worth l = (case l of Got e \<Rightarrow> [e] | _ \<Rightarrow> [])"

lemma step_in:
  "pk_step p l q \<Longrightarrow> l \<noteq> StoreIn \<Longrightarrow> pk_in (pr_counter q) + due_in q =
     pk_in (pr_counter p) + due_in p + to_port (pk_ports (pr_counter p)) (worth l)"
  by (induction rule: pk_step.induct)
    (auto simp: accounts worth_def dest: extract_ports_short cong: capture_at.case_cong split: option.splits)

lemma step_out:
  "pk_step p l q \<Longrightarrow> l \<noteq> StoreOut \<Longrightarrow> pk_out (pr_counter q) + due_out q =
     pk_out (pr_counter p) + due_out p + from_port (pk_ports (pr_counter p)) (worth l)"
  by (induction rule: pk_step.induct)
    (auto simp: accounts worth_def dest: extract_ports_short cong: capture_at.case_cong split: option.splits)

lemma exited_receives_nothing: "pk_run p ls r \<Longrightarrow> pr_at p = Exited \<Longrightarrow> received ls = []"
proof (induction rule: pk_run.induct)
  case (more p l q ls r)
  from more.hyps(1) more.prems have "pr_at q = Exited \<and> (\<forall>e. l \<noteq> Got e)"
    by (induction rule: pk_step.induct) simp_all
  then show ?case using more.IH by (cases l) simp_all
qed simp

lemma counted_worth:
  assumes "pk_step p l q" "pk_run q ls r"
  shows "counted (received (l # ls)) = counted (worth l) @ counted (received ls)"
proof (cases l)
  case (Got e)
  have "received ls = []" if "e = DoneClosed"
  proof -
    have "pr_at q = Exited" using assms(1) unfolding Got that by cases simp
    then show ?thesis by (rule exited_receives_nothing[OF assms(2)])
  qed
  then show ?thesis unfolding Got worth_def by (cases e) simp_all
qed (simp_all add: worth_def)

lemma run_accounts:
  "pk_run p ls r \<Longrightarrow> pk_ports (pr_counter r) = pk_ports (pr_counter p)
     \<and> (StoreIn \<notin> set ls \<longrightarrow> pk_in (pr_counter r) + due_in r =
          pk_in (pr_counter p) + due_in p + to_port (pk_ports (pr_counter p)) (received ls))
     \<and> (StoreOut \<notin> set ls \<longrightarrow> pk_out (pr_counter r) + due_out r =
          pk_out (pr_counter p) + due_out p + from_port (pk_ports (pr_counter p)) (received ls))"
proof (induction rule: pk_run.induct)
  case (none p)
  then show ?case by (simp add: to_port_def from_port_def)
next
  case (more p l q ls r)
  let ?P = "pk_ports (pr_counter p)"
  have s: "to_port ?P (received (l # ls)) = to_port ?P (worth l) + to_port ?P (received ls)"
    "from_port ?P (received (l # ls)) = from_port ?P (worth l) + from_port ?P (received ls)"
    unfolding to_port_def from_port_def counted_worth[OF more.hyps] by simp_all
  show ?case using more.IH step_ports[OF more.hyps(1)] step_in[OF more.hyps(1)] step_out[OF more.hyps(1)]
    unfolding s by auto
qed

section \<open>Stopping\<close>

definition pk_inv :: "pk_proc \<Rightarrow> bool" where
  "pk_inv p \<longleftrightarrow> pr_done p = (pr_caller p \<in> {ClosingFd, AwaitLoop, Stopped})
     \<and> pr_fd_open p = (pr_caller p \<notin> {AwaitLoop, Stopped})
     \<and> (pr_at p = Exited \<longrightarrow> pr_done p)
     \<and> (pr_caller p = Stopped \<longrightarrow> pr_at p = Exited \<or> pr_at p = Unstarted)"

lemma after_packet_stays [simp]: "after_packet pkt outgoing \<noteq> Exited" "after_packet pkt outgoing \<noteq> Unstarted"
  by (auto simp: after_packet_def split: option.splits)

lemma pk_inv_step: "pk_step p l q \<Longrightarrow> pk_inv p \<Longrightarrow> pk_inv q"
  by (induction rule: pk_step.induct) (auto simp: pk_inv_def)

lemma pk_inv_run: "pk_run p ls r \<Longrightarrow> pk_inv p \<Longrightarrow> pk_inv r"
  by (induction rule: pk_run.induct) (blast intro: pk_inv_step)+

lemma pk_inv_reached: "pk_run (pk_start c) ls p \<Longrightarrow> pk_inv p"
  by (erule pk_inv_run) (simp add: pk_inv_def pk_start_def)

text \<open>The steps that are left once the channel is closed.\<close>

definition pk_work :: "pk_proc \<Rightarrow> nat" where
  "pk_work p =
     (case pr_at p of AtRecv \<Rightarrow> 4 | AddIn _ _ \<Rightarrow> 3 | AddOut _ \<Rightarrow> 2 | AtSelect \<Rightarrow> 1 | Exited \<Rightarrow> 0 | Unstarted \<Rightarrow> 0)
     + (case pr_caller p of ClosingFd \<Rightarrow> 2 | AwaitLoop \<Rightarrow> 1 | _ \<Rightarrow> 0)"

lemma stopping_work: "pk_step p l q \<Longrightarrow> pk_inv p \<Longrightarrow> pr_done p \<Longrightarrow> pk_work q < pk_work p"
  by (induction rule: pk_step.induct)
    (auto simp: pk_inv_def pk_work_def after_packet_def split: option.splits capture_at.splits caller_at.splits)

lemma stopping_moves:
  assumes "pk_inv p" "pr_done p" "pr_caller p \<noteq> Stopped"
  shows "\<exists>l q. pk_step p l q"
proof (cases "pr_at p")
  case (AddIn s d)
  then show ?thesis by (blast intro: count_in)
next
  case (AddOut s)
  then show ?thesis by (blast intro: count_out)
qed (use assms in \<open>auto simp: pk_inv_def intro: pk_step.intros\<close>)

lemma stopped_is_final: "pk_step p l q \<Longrightarrow> pk_inv p \<Longrightarrow> pr_caller p \<noteq> Stopped"
  by (induction rule: pk_step.induct) (auto simp: pk_inv_def)

end
