(* ===== verification/Spec2Isabelle.thy ===== *)
theory Spec2Isabelle
  imports HttpServer NetconfServer RestconfServer GnmiServer Tunnel RtCount Resource Percentile Site SweepSite SitePackets CmdRows ReportText Smoke PktRun
begin

text \<open>
  clibench measures what network automation costs over different transports: it starts a simulated
  device behind servers of several protocols, delays their packets, runs clients against them and
  summarises what it measured. This development models its packages under \<open>internal\<close> and its
  commands under \<open>cmd/clibench\<close> in the order the data flows: the device, the servers, the tunnel,
  what is measured, the drivers that measure, and the command that runs them and prints.

  \<^bold>\<open>Conventions.\<close> Go strings and byte slices are lists of 8-bit characters. A
  Go function with an error result returns \<open>Inl\<close> of the text or \<open>Inr\<close> of the
  value. State is passed explicitly; the writes of a session, the actions on a channel and the
  calls to the kernel are lists in the order they happen. Code outside the repository (the
  SSH and QUIC transports, \<open>json.Unmarshal\<close>, \<open>xml.Unmarshal\<close>, netlink, the process's own
  files) is an argument, and a locale or a named premise says what is relied on.

  \<^bold>\<open>The Go library.\<close> \<open>Prelude\<close> holds the fact collections and list lemmas;
  \<open>GoStrings\<close>, \<open>GoSpace\<close>, \<open>GoNumbers\<close>, \<open>GoUtf8\<close>, \<open>GoJson\<close>, \<open>GoUrl\<close>, \<open>GoInt\<close> model what
  the source uses of \<open>strings\<close>, \<open>strconv\<close>, UTF-8 and XML escaping, JSON encoding, URL
  parsing and 64-bit arithmetic, \<open>HttpMux\<close> the routing and redirects of \<open>net/http\<close>.

  \<^bold>\<open>The device.\<close> \<open>Device\<close> (\<open>device/device.go\<close>): the transcript table and
  \<open>Exec\<close>. Its lemmas refine the scan over a map in any order to a contract without an order.

  \<^bold>\<open>The servers.\<close> \<open>Lifecycle\<close> is the listener part they share. \<open>SshUtil\<close>,
  \<open>SshServer\<close> (\<open>sshutil\<close>, \<open>sshserver\<close>): authentication, exec sessions and the
  terminal session. \<open>HttpHandler\<close>, \<open>HttpServer\<close> (\<open>httphandler\<close>, \<open>httpserver\<close>,
  \<open>http3server\<close>): the two endpoints, behind the locale \<open>cmd_runner\<close>. \<open>NetconfFraming\<close>,
  \<open>NetconfServer\<close> (\<open>netconfserver\<close>): both framings, the session loop and the
  operations. \<open>CommandPath\<close> is the locale of a path encoding of commands; \<open>RestconfServer\<close> and
  \<open>GnmiServer\<close> interpret it on theirs.

  \<^bold>\<open>The tunnel.\<close> \<open>Proxy\<close> (\<open>proxy\<close>): pooled or fresh SSH backends; the
  locales \<open>ssh_conns\<close> and \<open>ssh_backend\<close> name the laws of the client library, and \<open>Loopback\<close>
  interprets them on the model of the SSH server. \<open>Headend\<close> (\<open>headend\<close>) forwards exec
  requests. \<open>Tunnel\<close> composes all of them.

  \<^bold>\<open>Measuring.\<close> \<open>RtCount\<close> (\<open>rtcount\<close>, \<open>latency\<close>): counting and delaying
  changes of direction. \<open>PktCount\<close>, \<open>PktRun\<close> (\<open>pktcount\<close>): reading ports, counting packets, and
  the capture goroutine against its caller as atomic steps. \<open>Netem\<close> (\<open>netem\<close>): the calls to the
  kernel's traffic control and what they leave there. \<open>Resource\<close> (\<open>resource\<close>): CPU and heap
  deltas. \<open>RunParallel\<close>, \<open>Stats\<close>, \<open>Summary\<close>, \<open>Percentile\<close> (\<open>stats\<close>): the worker pool as interleaved
  atomic steps, medians, and the summary of the durations, computed in the rounded arithmetic of
  \<open>GoFloat\<close>.

  \<^bold>\<open>The drivers.\<close> \<open>BenchCore\<close> is what the drivers of \<open>internal/bench\<close> share: settings, counters,
  iterations that measure. \<open>BenchSsh\<close> (\<open>bench.go\<close>, \<open>tunnel.go\<close>) with \<open>PtyClient\<close> (\<open>pty.go\<close>),
  \<open>BenchHttp\<close> and \<open>BenchProxy\<close> (\<open>bench.go\<close>, \<open>http3.go\<close>, \<open>restconf.go\<close>), \<open>BenchNetconf\<close> (\<open>netconf.go\<close>),
  \<open>BenchGnmi\<close> (\<open>gnmi.go\<close>) and \<open>Sweep\<close> (\<open>scale.go\<close>) are the drivers over records of library
  operations. The locales \<open>counted_ssh\<close>, \<open>counted_netconf\<close> and \<open>held_open\<close> name what is relied on
  for open connections, \<open>ssh_site\<close> what a reachable device adds. \<open>Site\<close>, \<open>NetconfSite\<close> and
  \<open>SweepSite\<close> interpret them on the models of the SSH and NETCONF servers behind a network with
  faults, so that client and server models meet; \<open>SitePackets\<close> counts the packets of the modes there.

  \<^bold>\<open>The commands.\<close> \<open>BenchCmd\<close> (\<open>cmd/clibench/bench.go\<close>): addresses, delays in the kernel or in
  the listeners, the servers it starts, waiting for them, the run with its deferred tear-down.
  \<open>CmdRows\<close> puts the drivers into it and says how their rows are labelled. \<open>Output\<close> (\<open>format.go\<close>)
  prints CSV and tables; \<open>Report\<close> and \<open>ReportText\<close> (\<open>report\<close>, \<open>report.go\<close>) classify, group, rank
  (behind the locale \<open>row_sorter\<close>) and render; \<open>Smoke\<close> (\<open>server.go\<close>, \<open>smoketest.go\<close>) has the other
  commands.

  \<^bold>\<open>What is shown.\<close> For the servers: which bytes they accept, what they answer on every branch,
  and that they end as they should. For the tunnel: it is transparent, and leaks no connection.
  For the measurements: they count what they say under every interleaving, and the summary is
  ordered. For the drivers of SSH, of the tunnel and of NETCONF and for the sweeps over SSH and
  NETCONF: they close what they open whatever the peer does; against the modelled server the SSH
  driver and the sweep over SSH return with rows without errors. For the other drivers: what they count and how their rows are
  labelled; some of them leave connections open. For the command: it delays and watches exactly
  the ports it serves, labels its rows with its settings, prints them in columns that can be read
  back, and leaves the kernel as it was.

  \<^bold>\<open>Bounds and termination.\<close> The hello reader stops at its own limit of one megabyte plus one byte.
  A chunk above \<open>max_alloc\<close> (2^48 bytes, the largest allocation of the Go runtime on 64-bit Linux)
  panics. No model uses fuel: the readers consume their input, and the worker pool and the packet
  counter have measures that every step decreases. A loop or a library call that may never
  return gives \<open>None\<close>; that a driver or a wait returns is then a property of its own.

  \<^bold>\<open>Idealisations.\<close> In \<open>RunParallel\<close> itself an iteration has many steps, and those of iterations that
  run at the same time interleave on the world they share. In the drivers an iteration, and in a
  sweep an opening and a workload, takes effect at once; they come one after the other, in an order
  that is an argument (\<open>run_mode_pool\<close>: what the worker pool does with iterations of one step).
  Overlapping iterations on one connection are not modelled in the drivers. The numbers of
  iterations and commands are not negative. Addresses are well
  formed and HTTP clients return within their time-outs. Tables are rectangular, without tabs or
  line breaks in their cells. Counters and lengths that cannot reach 2^63 are unbounded numbers.

  \<^bold>\<open>Not modelled.\<close> Key and certificate generation (\<open>tlsutil\<close>), whose errors are arguments; sockets,
  TLS, QUIC, gRPC and SSH transports; the accessors of the servers' listeners beyond \<open>Lifecycle\<close>; the
  JSON decoder and encoder of results; the parsing of the command line by the kong library
  (\<open>main.go\<close>); the handler of interrupt signals in \<open>bench\<close>; log lines; the stubs for systems other
  than Linux; the test fixtures (\<open>testutil\<close>).
\<close>

section \<open>The device\<close>

definition lab_device :: device where
  "lab_device = \<lparr>hostname = ''rtr'', username = ''admin'', password = ''pw'',
     commands = [(''show version'', ''v1''), (''show clock'', ''noon'')], transcript_dir = ''t''\<rparr>"

text \<open>
  C3: Whatever order the map iteration takes, \<open>Exec\<close> returns what the contract of
  the device says: the response of the named command, else of the one command abbreviated, else
  an unknown or ambiguous complaint.
\<close>

theorem exec_ord_spec:
  assumes "distinct ord" "set ord = set (command_names d)"
  shows "exec_ord d ord raw = exec_spec d raw"
  using assms by (rule exec_order_irrelevant)

theorem exec_ord_spec_witness:
  "exec_ord lab_device [''show clock'', ''show version''] ''sh ver'' = exec_spec lab_device ''sh ver''
   \<and> exec_ord lab_device [''show clock'', ''show version''] ''sh ver'' = ''v1''"
proof
  show "exec_ord lab_device [''show clock'', ''show version''] ''sh ver'' = exec_spec lab_device ''sh ver''"
    by (rule exec_ord_spec) (auto simp: lab_device_def command_names_def)
  show "exec_ord lab_device [''show clock'', ''show version''] ''sh ver'' = ''v1''"
    by code_simp
qed

text \<open>
  C14: Words that abbreviate the words of exactly one command, written with single blanks, print
  its response.
\<close>

theorem exec_abbreviation:
  assumes "wf_device d" "map_of (commands d) cmd = Some resp"
    and "list_all2 prefix ws (go_fields cmd)" "\<forall>w \<in> set ws. is_word w" "ws \<noteq> []"
    and only: "\<And>c. c \<in> set (command_names d) \<Longrightarrow> list_all2 prefix ws (go_fields c) \<Longrightarrow> c = cmd"
  shows "exec d (join '' '' ws) = resp"
  by (rule exec_abbreviation_is) (fact assms)+

theorem exec_abbreviation_witness: "exec lab_device (join '' '' [''sh'', ''cl'']) = ''noon''"
proof (rule exec_abbreviation[where cmd = "''show clock''"])
  have f: "go_fields ''show clock'' = [''show'', ''clock'']" "go_fields ''show version'' = [''show'', ''version'']"
    by code_simp+
  show "list_all2 prefix [''sh'', ''cl''] (go_fields ''show clock'')" by (simp add: f)
  fix c assume "c \<in> set (command_names lab_device)" "list_all2 prefix [''sh'', ''cl''] (go_fields c)"
  then show "c = ''show clock''" using f by (auto simp: lab_device_def command_names_def)
qed (auto simp: lab_device_def wf_device_def intro!: plain_word simp: plain_char_def)

text \<open>
  C13: After \<open>New\<close>, a transcript file answers the command of its name with its
  text, the hostname filled in, unless a later file has the same command.
\<close>

theorem new_device_roundtrip:
  assumes "new_device host user pass dirname (Inr (before @ e # after)) = Inr d"
    and "is_transcript e" "ent_data e = Inr data" "command_of_file (ent_name e) = cmd"
    and "cmd \<notin> fst ` set (transcript_pairs host after)"
    and "trim_space raw = cmd" "cmd \<noteq> []"
  shows "exec d raw = replace_all data hostname_mark host"
  by (rule new_device_answers) (fact assms)+

definition clock_file :: dirent where
  "clock_file = \<lparr>ent_name = ''show_clock.txt'', ent_is_dir = False, ent_data = Inr ''{{.Hostname}} noon''\<rparr>"

theorem new_device_roundtrip_witness:
  "exec (projr (new_device ''r1'' ''u'' ''p'' ''t'' (Inr [clock_file]))) '' show clock '' = ''r1 noon''"
proof -
  let ?d = "projr (new_device ''r1'' ''u'' ''p'' ''t'' (Inr [clock_file]))"
  have n: "new_device ''r1'' ''u'' ''p'' ''t'' (Inr ([] @ clock_file # [])) = Inr ?d"
    by (simp add: new_device_def load_transcripts_def clock_file_def is_transcript_def suffix_def)
  have "exec ?d '' show clock '' = replace_all ''{{.Hostname}} noon'' hostname_mark ''r1''"
    by (rule new_device_roundtrip[OF n]) (code_simp+)
  then show ?thesis by (simp only:) code_simp
qed

section \<open>SSH\<close>

text \<open>
  C11: Whatever the sizes of the reads, a terminal session that types lines and then exit shows
  the prompt, each line echoed with its output and a new prompt, and the echo of the last line.
\<close>

theorem interactive_transcript:
  assumes "\<forall>l \<in> set ls. list_all (\<lambda>b. \<not> is_control b) l \<and> \<not> leaves l"
    and "list_all (\<lambda>b. \<not> is_control b) bye" "leaves bye"
    and "concat chunks = typed_lines ls @ bye @ NL # ignored"
  shows "concat (interactive_session dev chunks) =
     prompt_of dev @ concat (map (shown_line dev) ls) @ bye @ [CR, NL]"
  by (rule interactive_session_lines) (fact assms)+

theorem interactive_transcript_witness:
  "concat (interactive_session lab_device [''show cl'', ''ock'' @ [NL] @ ''ex'', ''it'' @ [NL]]) =
     prompt_of lab_device @ concat (map (shown_line lab_device) [''show clock'']) @ ''exit'' @ [CR, NL]"
proof (rule interactive_transcript)
  show "leaves ''exit''" by code_simp
  show "\<forall>l \<in> set [''show clock'']. list_all (\<lambda>b. \<not> is_control b) l \<and> \<not> leaves l" by code_simp
  show "list_all (\<lambda>b. \<not> is_control b) ''exit''" by code_simp
qed simp

text \<open>
  C12: A session answers each request up to the one that starts the session and none after it,
  and closes its channel exactly once, last.
\<close>

theorem session_requests:
  "replies (handle_session dev reqs chunks) = map accepts (up_to_start reqs)
   \<and> (\<exists>as. handle_session dev reqs chunks = as @ [CloseCh] \<and> CloseCh \<notin> set as)"
  by (simp add: handle_session_replies handle_session_closes)

section \<open>HTTP\<close>

text \<open>
  C15: Without the right credentials no handler runs: the answer is 401 with a challenge and the
  runner is untouched.
\<close>

theorem mux_unauthorized:
  assumes "\<not> authorized user pass req"
  shows "\<exists>resp. mux user pass run req s = (Responded resp, s) \<and> status resp = 401
           \<and> www_auth resp \<noteq> None"
  using assms by (rule mux_denies)

definition anonymous :: http_request where
  "anonymous = \<lparr>req_method = ''POST'', esc_path = ''/admin/config'', url_path = ''/admin/config'',
     auth_cred = None, accept_hdr = [], content_hdr = [], req_body = Inr ''show clock''\<rparr>"

theorem mux_unauthorized_witness:
  "\<exists>resp. mux ''admin'' ''pw'' (device_runner lab_device) anonymous () = (Responded resp, ())
     \<and> status resp = 401 \<and> www_auth resp \<noteq> None"
  by (rule mux_unauthorized) (simp add: authorized_def basic_auth_def anonymous_def)

text \<open>
  C2: A POST to \<open>/admin/config\<close> answers with the same text from the HTTPS server,
  the HTTP/3 server and the SSH-backed proxy, namely with what the body prints as an SSH exec
  payload.
\<close>

theorem config_same_everywhere:
  fixes chunks :: "string list"
  assumes "authorized (username dev) (password dev) req" "req_method req = ''POST''"
    and "esc_path req = ''/admin/config''" "req_body req = Inr body"
    and "site_ready dev st"
  defines "over_ssh \<equiv> written (handle_session dev [exec_request body] chunks)"
  shows "fst (http_mux dev req ()) = Responded (ok_text over_ssh)
    \<and> fst (h3_mux dev req ()) = Responded (ok_text over_ssh)
    \<and> fst (proxy_mux lb_api (username dev) (password dev) req st) = Responded (ok_text over_ssh)"
proof -
  have ssh: "over_ssh = exec_lines dev body"
    unfolding over_ssh_def
    by (subst handle_session_exec) (simp_all add: exec_request_def exec_payload_ssh_string)
  then have "fst (http_mux dev req ()) = Responded (ok_text over_ssh)"
    "fst (h3_mux dev req ()) = Responded (ok_text over_ssh)"
    using http_post_config[OF assms(1-4), of "()"] by (simp_all add: h3_is_https)
  moreover have "fst (proxy_mux lb_api (username dev) (password dev) req st) = Responded (ok_text over_ssh)"
    using lb_backend.runner.post_config[OF assms(5)[unfolded site_ready_def] assms(1-4)] ssh
    by (auto simp: proxy_mux_def concat_exec_lines_body)
  ultimately show ?thesis by simp
qed

definition site_of :: "device \<Rightarrow> bool \<Rightarrow> (nat, loopback) px_state" where
  "site_of dev pooled = (new_proxy pooled,
     \<lparr>lb_device = dev, lb_user = username dev, lb_pass = password dev, lb_open = [], lb_faults = []\<rparr>)"

lemma site_of_ready: "site_ready dev (site_of dev pooled)"
  by (simp add: site_ready_def site_of_def lb_backend.good_def lb_conns.holds_pool_def new_proxy_def
      pool_set_def lb_up_def)

definition lab_post :: http_request where
  "lab_post = anonymous\<lparr>auth_cred := set_basic_auth ''admin'' ''pw'', req_body := Inr ''sh ver''\<rparr>"

theorem config_same_everywhere_witness:
  "fst (http_mux lab_device lab_post ()) =
     Responded (ok_text (written (handle_session lab_device [exec_request ''sh ver''] [])))
   \<and> fst (proxy_mux lb_api ''admin'' ''pw'' lab_post (site_of lab_device True)) =
     Responded (ok_text (written (handle_session lab_device [exec_request ''sh ver''] [])))"
proof -
  have a: "authorized (username lab_device) (password lab_device) lab_post"
    by (simp add: authorized_def basic_auth_set lab_post_def lab_device_def)
  note all = config_same_everywhere[OF a _ _ _ site_of_ready[where pooled = True],
      where body = "''sh ver''" and chunks = "[]"]
  show ?thesis using all by (simp add: lab_post_def anonymous_def lab_device_def)
qed

section \<open>The tunnel\<close>

text \<open>
  C1: An exec request sent through the whole tunnel (headend, GET or POST, site proxy, SSH
  backend) prints exactly what the same request prints over a direct SSH session to the device,
  for every payload of several lines and every single command a GET path can carry, and leaves
  the site usable.
\<close>

theorem tunnel_transparent:
  assumes "site_ready dev st" "CHR '':'' \<notin> set (username dev)" "carried_payload payload"
  shows "\<exists>as st'. tunnel parse_err dev [exec_request payload] st = (as, st')
    \<and> written as = written (handle_session dev [exec_request payload] chunks)
    \<and> site_ready dev st'"
  using assms by (rule tunnel_is_direct)

theorem tunnel_transparent_witness:
  "\<exists>as st'. tunnel id lab_device [exec_request ''show clock''] (site_of lab_device True) = (as, st')
    \<and> written as = written (handle_session lab_device [exec_request ''show clock''] [])
    \<and> site_ready lab_device st'"
proof (rule tunnel_transparent)
  show "carried_payload ''show clock''" by code_simp
qed (simp_all add: site_of_ready lab_device_def)

section \<open>The proxy\<close>

text \<open>Successive requests to one proxy, whatever the backend does.\<close>

fun serve_all :: "('c, 's, 'w) ssh_api \<Rightarrow> string list list \<Rightarrow> ('c, 'w) px_state \<Rightarrow> ('c, 'w) px_state" where
  "serve_all api [] st = st"
| "serve_all api (cmds # rest) st = serve_all api rest (snd (run_commands api cmds st))"

lemma serve_all_no_leak:
  "lb_conns.holds_pool st \<Longrightarrow> lb_conns.holds_pool (serve_all lb_api reqs st)
     \<and> lb_conns.others (serve_all lb_api reqs st) = lb_conns.others st"
proof (induction reqs arbitrary: st)
  case (Cons cmds rest)
  then show ?case
    using lb_conns.run_commands_no_leak[of st cmds] by (metis prod.collapse serve_all.simps(2))
qed simp

text \<open>
  C6: Whatever the backend does, after any sequence of requests the only connection the proxy
  has left open is the one in its pool, and Close leaves none.
\<close>

theorem proxy_no_leak:
  fixes pooled :: bool and w :: loopback and reqs :: "string list list"
  defines "st \<equiv> serve_all lb_api reqs (new_proxy pooled, w)"
  shows "lb_opened (snd st) = lb_opened w \<union> pool_set (fst st)
    \<and> lb_opened (snd (snd (proxy_close lb_api h3 srv st))) = lb_opened w"
proof -
  have "lb_conns.holds_pool (new_proxy pooled, w)"
    by (simp add: lb_conns.holds_pool_def new_proxy_def pool_set_def)
  from serve_all_no_leak[OF this, of reqs] have st: "lb_conns.holds_pool st" "lb_conns.others st = lb_opened w"
    by (simp_all add: st_def lb_conns.others_def new_proxy_def pool_set_def)
  then have "lb_opened (snd st) = lb_opened w \<union> pool_set (fst st)"
    by (auto simp: lb_conns.holds_pool_def lb_conns.others_def split: prod.splits)
  moreover have "lb_opened (snd (snd (proxy_close lb_api h3 srv st))) = lb_opened w"
    using lb_conns.proxy_close_releases(1)[OF st(1)] st(2) by simp
  ultimately show ?thesis ..
qed

text \<open>
  C7: In pooled mode a request that fails empties the pool, and once the backend is reachable
  again the next request prints everything it should.
\<close>

theorem proxy_recovers:
  assumes "lb_conns.holds_pool (p, w)" "px_pooled p"
    and "run_commands lb_api cmds (p, w) = ((out, Some err), (p', w'))"
    and "lb_up dev w'"
  shows "px_pool p' = None
    \<and> fst (run_commands lb_api cmds' (p', w')) = (concat (map (exec_lines dev) cmds'), None)"
proof -
  have "px_pool p' = None" by (rule run_commands_error_resets[OF assms(2,3)])
  moreover have "lb_backend.good dev (p', w')"
    using lb_conns.run_commands_no_leak[OF assms(1,3)] assms(4) by (simp add: lb_backend.good_def)
  then have "fst (run_commands lb_api cmds' (p', w')) = (concat (map (exec_lines dev) cmds'), None)"
    using lb_backend.run_commands_good[of dev "(p', w')" cmds'] by auto
  ultimately show ?thesis ..
qed

definition flaky_site :: loopback where
  "flaky_site = \<lparr>lb_device = lab_device, lb_user = ''admin'', lb_pass = ''pw'', lb_open = [],
     lb_faults = [False, True]\<rparr>"

theorem proxy_recovers_witness:
  "case run_commands lb_api [''show clock''] (new_proxy True, flaky_site) of (r, (p', w')) \<Rightarrow>
     snd r = Some ''ssh session: EOF'' \<and> px_pool p' = None
     \<and> fst (run_commands lb_api [''show clock''] (p', w')) = (concat (map (exec_lines lab_device) [''show clock'']), None)"
proof -
  obtain out err p' w' where r:
    "run_commands lb_api [''show clock''] (new_proxy True, flaky_site) = ((out, Some err), (p', w'))"
    "err = ''ssh session: EOF''" "lb_up lab_device w'"
    by (simp add: run_commands_def get_ssh_def new_proxy_def lb_api_def lb_dial_def lb_fault_def
        flaky_site_def password_callback_def lab_device_def Let_def lb_session_def reset_pool_def
        lb_close_def lb_up_def)
  have h: "lb_conns.holds_pool (new_proxy True, flaky_site)"
    by (simp add: lb_conns.holds_pool_def new_proxy_def pool_set_def)
  have "px_pooled (new_proxy True)" by (simp add: new_proxy_def)
  from proxy_recovers[OF h this r(1,3)] show ?thesis using r(1,2) by simp
qed

section \<open>NETCONF\<close>

text \<open>
  C4: The chunked reader accepts exactly the byte sequences of RFC 6242 form, the message
  without a chunk included, whose chunk sizes \<open>Atoi\<close> reads as the length of the
  chunk, returns the concatenated chunks, and leaves the rest of the stream untouched.
\<close>

theorem read_chunked_language:
  "read_chunked s = (Inr msg, rest) \<longleftrightarrow>
     (\<exists>chs. s = frame_wire chs @ rest \<and> list_all good_chunk chs \<and> msg = concat (map snd chs))"
  by (rule read_chunked_accepts_iff)

text \<open>
  C8: A non-empty message written with \<open>WriteChunked\<close> is read back by
  \<open>ReadChunked\<close>, with what follows it left on the stream.
\<close>

theorem chunked_roundtrip:
  assumes "data \<noteq> []" "length data \<le> max_alloc"
  shows "read_chunked (write_chunked data @ rest) = (Inr data, rest)"
  using assms by (rule chunked_read_write)

theorem chunked_roundtrip_witness: "read_chunked (write_chunked ''<ok/>'' @ ''tail'') = (Inr ''<ok/>'', ''tail'')"
  by (rule chunked_roundtrip) (simp_all add: max_alloc_def)

text \<open>
  C9: \<open>ReadEOM\<close> returns what precedes the first delimiter if the delimiter ends
  within limit plus one bytes, refuses longer input after exactly limit plus one bytes, and
  otherwise reports the end of the stream with what it read.
\<close>

theorem read_eom_spec:
  "read_eom s =
     (case index_of s eom of
        Some i \<Rightarrow>
          if i + length eom \<le> Suc hello_limit then ((take i s, None), drop (i + length eom) s)
          else (([], Some HelloTooLarge), drop (Suc hello_limit) s)
      | None \<Rightarrow>
          if length s \<le> hello_limit then ((s, Some Eof), [])
          else (([], Some HelloTooLarge), drop (Suc hello_limit) s))"
  by (rule read_eom_eq)

text \<open>
  C5: A NETCONF session answers each pipelined request once and in order, however the requests
  are cut into chunks, stops after the one that mentions close-session, and ignores what
  follows.
\<close>

theorem netconf_pipelining:
  assumes "hello_ok h"
    and "\<forall>chs \<in> set chss. list_all good_chunk chs \<and> \<not> contains (body_of chs) ''<close-session''"
    and "list_all good_chunk bye" "contains (body_of bye) ''<close-session''"
  shows "run_session um dev all_ok (h @ eom @ concat (map frame_wire chss) @ frame_wire bye @ ignored) =
     ((server_hello @ [NL] @ eom) # map (answer um dev) (chss @ [bye]), Returned)"
  using assms by (rule run_session_pipelined)

definition lab_unmarshal :: unmarshal where
  "lab_unmarshal msg = (rpc_fields 7 (get_body ''show clock''), None)"

definition lab_bye :: "(string \<times> string) list" where
  "lab_bye = [(''3'', ''<cl''), (''+12'', ''ose-session>'')]"

theorem netconf_pipelining_witness:
  "run_session lab_unmarshal lab_device all_ok
      ((client_hello @ [NL]) @ eom @ concat (map frame_wire [[(''02'', ''<a'')]]) @ frame_wire lab_bye @ ''x'') =
     ((server_hello @ [NL] @ eom) # map (answer lab_unmarshal lab_device) ([[(''02'', ''<a'')]] @ [lab_bye]), Returned)"
proof (rule netconf_pipelining)
  have a: "atoi ''02'' = Some 2" "atoi ''3'' = Some 3" "atoi ''+12'' = Some 12" by code_simp+
  show "\<forall>chs \<in> set [[(''02'', ''<a'')]]. list_all good_chunk chs \<and> \<not> contains (body_of chs) ''<close-session''"
    using a by (simp add: good_chunk_def max_alloc_def contains_def)
  show "list_all good_chunk lab_bye" using a by (simp add: good_chunk_def max_alloc_def lab_bye_def)
  show "contains (body_of lab_bye) ''<close-session''" by (simp add: lab_bye_def contains_def)
qed (rule hello_client)

text \<open>
  C10: A get request built by the client is answered with the escaped output of its command
  inside one data element; the escaped output contains no markup, and the request does not end
  the session.
\<close>

theorem netconf_get_reply:
  assumes "reads_rpc um i (get_body cmd)" "CHR ''<'' \<notin> set cmd"
  shows "\<exists>data. dispatch um dev (get_rpc i cmd) =
            reply_open (dec_int i) @ ''<data>'' @ data @ ''</data></rpc-reply>''
          \<and> data = xml_escape (exec dev cmd) \<and> xml_markup \<inter> set data = {}
          \<and> \<not> contains (get_rpc i cmd) ''<close-session''"
  using assms dispatch_get[OF assms] get_rpc_stays[OF assms(2)] xml_escape_no_markup
  by (auto simp: data_reply_def)

theorem netconf_get_reply_witness:
  "\<exists>data. dispatch lab_unmarshal lab_device (get_rpc 7 ''show clock'') =
        reply_open (dec_int 7) @ ''<data>'' @ data @ ''</data></rpc-reply>''
      \<and> data = xml_escape (exec lab_device ''show clock'') \<and> xml_markup \<inter> set data = {}
      \<and> \<not> contains (get_rpc 7 ''show clock'') ''<close-session''"
  by (rule netconf_get_reply) (simp_all add: reads_rpc_def lab_unmarshal_def)

section \<open>RESTCONF and gNMI\<close>

text \<open>
  C16: A RESTCONF GET with the right credentials runs the command whose path it asks for, and a
  JSON reader finds its output in the answer. The command has words separated by single blanks,
  none of them with a slash (a slash comes back as a blank); the path is sent without percent
  escapes; the Accept header does not ask for XML; the output is ASCII.
\<close>

theorem restconf_get:
  assumes "basic_auth r = Some (username dev, password dev)" "req_method r = ''GET''"
    and "esc_path r = ''/restconf/data/'' @ join ''/'' ss" "ss \<noteq> []" "list_all plain_seg ss"
    and "url_path r = command_to_path cmd" "rc_carried cmd" "normal_cmd cmd"
    and "\<not> contains (accept_hdr r) xml_type"
    and ascii: "\<forall>c \<in> set (exec dev cmd). byte_of c < 0x80"
  shows "\<exists>resp pre post. rc_serve junm dev r = (Responded resp, [cmd]) \<and> status resp = 200
     \<and> resp_body resp = pre @ [DQ] @ post \<and> json_read post = Some (exec dev cmd, ''}}'' @ [NL])"
proof -
  let ?e = "json_escape (exec dev cmd) @ DQ # ''}}'' @ [NL]"
  have "json_read ?e = Some (exec dev cmd, ''}}'' @ [NL])" by (rule json_read_escape[OF ascii])
  moreover have "\<exists>pre. json_response (exec dev cmd) = pre @ [DQ] @ ?e"
    by (auto simp: json_response_def json_string_def
        intro!: exI[of _ "''{'' @ [DQ] @ ''cli:output'' @ [DQ] @ '':{'' @ [DQ] @ ''response'' @ [DQ] @ '':''"])
  ultimately show ?thesis
    using rc_get_command[OF assms(1-9), of junm] by (fastforce simp: ok_response_def)
qed

definition rc_get_clock :: http_request where
  "rc_get_clock = \<lparr>req_method = ''GET'', esc_path = ''/restconf/data/cli:show/clock'',
     url_path = ''/restconf/data/cli:show/clock'', auth_cred = set_basic_auth ''admin'' ''pw'',
     accept_hdr = [], content_hdr = [], req_body = Inr []\<rparr>"

theorem restconf_get_witness:
  "\<exists>resp pre post. rc_serve (\<lambda>_. None) lab_device rc_get_clock = (Responded resp, [''show clock''])
     \<and> status resp = 200 \<and> resp_body resp = pre @ [DQ] @ post
     \<and> json_read post = Some (exec lab_device ''show clock'', ''}}'' @ [NL])"
proof (rule restconf_get[where ss = "[''cli:show'', ''clock'']"])
  show "basic_auth rc_get_clock = Some (username lab_device, password lab_device)"
    by (simp add: basic_auth_set rc_get_clock_def lab_device_def)
  show "list_all plain_seg [''cli:show'', ''clock'']" by code_simp
  show "url_path rc_get_clock = command_to_path ''show clock''" by code_simp
  show "rc_carried ''show clock''" "normal_cmd ''show clock''" by code_simp+
  have "exec lab_device ''show clock'' = ''noon''" by code_simp
  then show "\<forall>c \<in> set (exec lab_device ''show clock''). byte_of c < 0x80" by simp
  show "\<not> contains (accept_hdr rc_get_clock) xml_type" by code_simp
qed (simp_all add: rc_get_clock_def)

text \<open>
  C17: A subscription that succeeds sends one update per path in order and then the sync
  response, and the loop of the client reads exactly this to its end; one that fails has sent a
  proper prefix of it.
\<close>

theorem gnmi_subscribe_stream:
  "case subscribe dev send (Inr (Some paths)) of
     (rs, None) \<Rightarrow> rs = full_stream dev paths \<and> gnmi_recv stream_recv () rs = Some (None, [])
   | (rs, Some e) \<Rightarrow> strict_prefix rs (full_stream dev paths) \<and> send (length rs) = Some e"
  using subscribe_loop_stream[where dev = dev and send = send and k = 0 and paths = paths]
    gnmi_client_reads_subscription[of dev send paths]
  by (auto simp: subscribe_def split: prod.splits option.splits)

section \<open>Round trips and delays\<close>

text \<open>
  C18: A counted connection that starts fresh has counted every read, every write, and one trip
  for each read that comes right after a write.
\<close>

theorem trips_are_turnarounds:
  "trips (fold conn_io ops wrap_conn) = turnarounds ops
   \<and> reads (fold conn_io ops wrap_conn) = count_list ops Rd
   \<and> writes (fold conn_io ops wrap_conn) = count_list ops Wr"
  by (simp add: conn_trips_are_turnarounds fold_io_counts) (simp add: wrap_conn_def)

text \<open>
  C19: However the atomic steps of concurrent readers and writers interleave, a connection never
  counts more trips than reads or than writes.
\<close>

theorem concurrent_trips:
  assumes "conn_step\<^sup>*\<^sup>* shared_start c"
  shows "trips c \<le> reads c \<and> trips c \<le> writes c"
  using conn_inv_reachable[OF assms] by (auto simp: conn_inv_def)

theorem concurrent_trips_witness:
  "trips (shared_start\<lparr>writes := 1, writing := 1\<rparr>) \<le> reads (shared_start\<lparr>writes := 1, writing := 1\<rparr>)
   \<and> trips (shared_start\<lparr>writes := 1, writing := 1\<rparr>) \<le> writes (shared_start\<lparr>writes := 1, writing := 1\<rparr>)"
proof (rule concurrent_trips)
  have "conn_step shared_start (shared_start\<lparr>writes := 1, writing := 1\<rparr>)"
    using conn_step.write_add[of shared_start] by (simp add: shared_start_def wrap_conn_def conn.defs)
  then show "conn_step\<^sup>*\<^sup>* shared_start (shared_start\<lparr>writes := 1, writing := 1\<rparr>)" by blast
qed

text \<open>
  C20: A delayed connection sleeps twice for each counted round trip, plus once for a first read
  and once for a last write; with a delay and a jitter drawn of at most 2^61 ns a sleep is never
  negative and never longer than twice the delay plus the jitter, and the 64-bit sums do not
  wrap.
\<close>

theorem delay_per_trip:
  assumes "delay_accept dly jit loss (Inr s) = Inr (s, Some c)" "ops \<noteq> []"
  shows "sleeps ops c = 2 * trips (fold conn_io ops wrap_conn)
       + (if hd ops = Rd then 1 else 0) + (if last ops = Wr then 1 else 0)
     \<and> (dly \<le> 2 ^ 61 \<and> \<bar>jitter_term c z\<bar> \<le> 2 ^ 61 \<longrightarrow>
          0 \<le> sleep_for c z u \<and> sleep_for c z u \<le> 2 * dly + max 0 (jitter_term c z))"
proof -
  have c: "delay c = dly" "0 < dly" "dc_last c = 0"
    using assms(1) by (auto simp: delay_accept_def split: if_splits)
  have "sleeps ops c = 2 * trips (fold conn_io ops wrap_conn)
       + (if hd ops = Rd then 1 else 0) + (if last ops = Wr then 1 else 0)"
    using sleeps_dir[OF assms(2), of c] c by (cases "hd ops") (auto simp: dir_of_def conn_trips_are_turnarounds)
  then show ?thesis using sleep_for_bounds[of c z u] c by auto
qed

theorem delay_per_trip_witness:
  "sleeps [Wr, Wr, Rd, Wr, Rd] \<lparr>delay = 5, jitter = 2, loss_pct = 1, dc_last = 0\<rparr> =
     2 * trips (fold conn_io [Wr, Wr, Rd, Wr, Rd] wrap_conn)
   \<and> 0 \<le> sleep_for \<lparr>delay = 5, jitter = 2, loss_pct = 1, dc_last = 0\<rparr> (- 9 / 4) 0
   \<and> sleep_for \<lparr>delay = 5, jitter = 2, loss_pct = 1, dc_last = 0\<rparr> (- 9 / 4) 0 \<le> 10"
proof -
  have "jitter_term \<lparr>delay = 5, jitter = 2, loss_pct = 1, dc_last = 0\<rparr> (- 9 / 4) = - 4" by code_simp
  then show ?thesis
    using delay_per_trip[of 5 2 1 "()" "\<lparr>delay = 5, jitter = 2, loss_pct = 1, dc_last = 0\<rparr>" "[Wr, Wr, Rd, Wr, Rd]" "- 9 / 4" 0]
    by (simp add: delay_accept_def)
qed

section \<open>Packets and traffic control\<close>

text \<open>
  C21: The ports written behind an IPv4 header of any length are the ports extracted from the
  packet, for TCP and UDP.
\<close>

theorem ports_of_packet:
  assumes "is_header hdr ihl proto" "proto = 6 \<or> proto = 17"
  shows "extract_ports (ip_packet hdr src dst data) = Some (src, dst)"
  using assms by (rule extract_ports_packet)

theorem ports_of_packet_witness:
  "extract_ports (ip_packet ([0x46, 0, 0, 0, 0, 0, 0, 0, 64, 17] @ replicate 14 0) 40000 2222 [1, 2]) =
     Some (40000, 2222)"
proof (rule ports_of_packet)
  show "is_header ([0x46, 0, 0, 0, 0, 0, 0, 0, 64, 17] @ replicate 14 0) 6 17" by code_simp
qed simp

text \<open>
  C22: However the capture goroutine and its caller interleave, between two resets each counter
  grows by exactly the packets of watched ports that were delivered and are not the outgoing
  copy, up to the one packet that is being counted; this is what the capture loop alone computes
  after a reset.
\<close>

theorem packets_counted:
  assumes "pk_run p ls q" "StoreIn \<notin> set ls" "StoreOut \<notin> set ls"
  shows "pk_in (pr_counter q) + due_in q = pk_in (pr_counter p) + due_in p
       + length (filter (\<lambda>(s, d). d \<in> pk_ports (pr_counter p)) (counted (received ls)))
     \<and> pk_out (pr_counter q) + due_out q = pk_out (pr_counter p) + due_out p
       + length (filter (\<lambda>(s, d). s \<in> pk_ports (pr_counter p)) (counted (received ls)))
     \<and> snapshot_counts (capture (received ls) (reset_counts (pr_counter p))) =
         (length (filter (\<lambda>(s, d). d \<in> pk_ports (pr_counter p)) (counted (received ls))),
          length (filter (\<lambda>(s, d). s \<in> pk_ports (pr_counter p)) (counted (received ls))))"
proof -
  have "pk_in (pr_counter q) + due_in q =
       pk_in (pr_counter p) + due_in p + to_port (pk_ports (pr_counter p)) (received ls)
     \<and> pk_out (pr_counter q) + due_out q =
       pk_out (pr_counter p) + due_out p + from_port (pk_ports (pr_counter p)) (received ls)"
    using run_accounts[OF assms(1)] assms(2,3) by blast
  moreover have "snapshot_counts (capture evs (reset_counts c)) =
      (to_port (pk_ports c) evs, from_port (pk_ports c) evs)" for evs c
    using capture_counts[of evs "reset_counts c"]
    by (simp add: snapshot_counts_def to_port_def from_port_def) (simp add: reset_counts_def)
  ultimately show ?thesis by (simp only: to_port_def from_port_def simp_thms)
qed

definition lab_counter :: counter where
  "lab_counter = \<lparr>pk_ports = {2222}, pk_in = 0, pk_out = 0\<rparr>"

definition lab_packet :: "byte list" where
  "lab_packet = ip_packet ([0x46, 0, 0, 0, 0, 0, 0, 0, 64, 17] @ replicate 14 0) 40000 2222 [1, 2]"

lemma lab_packet_ports: "extract_ports lab_packet = Some (40000, 2222)"
  unfolding lab_packet_def by (rule extract_ports_packet[where ihl = 6 and proto = 17]) (code_simp, simp)

lemma lab_capture:
  "\<exists>q. pk_run (pk_start lab_counter) [Quiet, Quiet, Got (Received lab_packet False), Quiet, Quiet] q \<and> pr_at q = AtSelect"
proof -
  have a: "after_packet lab_packet False = AddIn 40000 2222"
    using lab_packet_ports extract_ports_short[OF lab_packet_ports] by (simp add: after_packet_def)
  have "pk_run (pk_start lab_counter) [Quiet, Quiet, Got (Received lab_packet False), Quiet, Quiet]
     ((pk_start lab_counter)\<lparr>pr_counter := add_out 40000 (add_in 2222 lab_counter), pr_at := AtSelect\<rparr>)"
    by (rule pk_run.more, rule pk_step.start, simp_all add: pk_start_def,
        rule pk_run.more, rule pk_step.go_on, simp_all,
        rule pk_run.more, rule pk_step.recv_packet, simp_all add: a,
        rule pk_run.more, rule pk_step.count_in, simp_all,
        rule pk_run.more, rule pk_step.count_out, simp, simp, rule pk_run.none)
  then show ?thesis by force
qed

theorem packets_counted_witness:
  "\<exists>q. pk_run (pk_start lab_counter) [Quiet, Quiet, Got (Received lab_packet False), Quiet, Quiet] q
     \<and> pk_in (pr_counter q) = 1 \<and> pk_out (pr_counter q) = 0"
proof -
  obtain q where q: "pk_run (pk_start lab_counter) [Quiet, Quiet, Got (Received lab_packet False), Quiet, Quiet] q"
    "pr_at q = AtSelect" using lab_capture by blast
  then show ?thesis using packets_counted[OF q(1)]
    by (auto simp: lab_packet_ports due_in_def due_out_def pk_start_def lab_counter_def)
qed

text \<open>
  C23: Once \<open>Stop\<close> has closed the channel, some step is possible until it returns
  and every step uses up work, so it returns; then the capture goroutine has ended, the
  descriptor is closed and nothing is counted any more.
\<close>

theorem counter_stops:
  assumes "pk_run (pk_start c) ls p" "pr_done p"
  shows "(pr_caller p \<noteq> Stopped \<longrightarrow> (\<exists>l q. pk_step p l q))
     \<and> (\<forall>l q. pk_step p l q \<longrightarrow> pk_work q < pk_work p)
     \<and> (pr_caller p = Stopped \<longrightarrow> \<not> pr_fd_open p \<and> (pr_at p = Exited \<or> pr_at p = Unstarted) \<and> (\<forall>l q. \<not> pk_step p l q))"
proof -
  have inv: "pk_inv p" by (rule pk_inv_reached[OF assms(1)])
  then have "pr_caller p = Stopped \<longrightarrow> \<not> pr_fd_open p \<and> (pr_at p = Exited \<or> pr_at p = Unstarted)"
    by (simp add: pk_inv_def)
  then show ?thesis
    using stopping_moves[OF inv assms(2)] stopping_work[OF _ inv assms(2)] stopped_is_final[OF _ inv] by blast
qed

theorem counter_stops_witness:
  "\<exists>l q. pk_step ((pk_start lab_counter)\<lparr>pr_done := True, pr_caller := ClosingFd\<rparr>) l q
     \<and> pk_work q < pk_work ((pk_start lab_counter)\<lparr>pr_done := True, pr_caller := ClosingFd\<rparr>)"
proof -
  have "pk_run (pk_start lab_counter) [Quiet] ((pk_start lab_counter)\<lparr>pr_done := True, pr_caller := ClosingFd\<rparr>)"
    by (rule pk_run.more[OF pk_step.stop_done pk_run.none]) (simp add: pk_start_def)
  from counter_stops[OF this] show ?thesis by fastforce
qed

text \<open>
  C24: Wherever a netlink call fails, \<open>Setup\<close> leaves either exactly the wanted
  queues and filters or nothing at all, provided the last call of the run succeeds (on a failure
  that is the deletion that cleans up).
\<close>

theorem netem_all_or_nothing:
  assumes "netem_setup fails c [] = (r, calls)" "fails (length calls - 1) = None"
  shows "installed fails 0 [] calls = (if r = None then wanted c else [])"
  using assms by (rule setup_installs)

definition lab_netem :: netem_config where
  "lab_netem = \<lparr>wan_delay = 15000000, campus_delay = 1000000, wan_ports = [2222], campus_ports = [3222],
     ne_jitter = 0, ne_loss = 0\<rparr>"

theorem netem_all_or_nothing_witness:
  "installed (\<lambda>k. if k = 6 then Some ''busy'' else None) 0 []
      (snd (netem_setup (\<lambda>k. if k = 6 then Some ''busy'' else None) lab_netem [])) =
     (if fst (netem_setup (\<lambda>k. if k = 6 then Some ''busy'' else None) lab_netem []) = None
      then wanted lab_netem else [])"
proof (rule netem_all_or_nothing)
  let ?s = "netem_setup (\<lambda>k. if k = 6 then Some ''busy'' else None) lab_netem []"
  show "?s = (fst ?s, snd ?s)" by simp
  show "(if length (snd ?s) - 1 = 6 then Some ''busy'' else None) = None"
    by (simp add: netem_setup_def lab_netem_def Let_def teardown_def nl_def add_netem_band_def
        add_port_filter_def add_u32_filter_def)
qed

section \<open>Iterations and statistics\<close>

text \<open>
  C25: In every interleaving of \<open>RunParallel\<close> and of the small steps of its
  iterations at most \<open>concurrency\<close> iterations are between acquire and release. When
  it returns, every index has run from its start to its end, its steps interleaved with those of
  the others on the world they share, and its result is in its own slot. With concurrency 1,
  results and effects are those of the plain loop over the indices; iterations that take effect
  in a single step run one after the other, in some order.
\<close>

theorem parallel_result:
  assumes "(pool_step n conc enter body)\<^sup>*\<^sup>* (pool_start n zero w) p"
  shows "holding (workers p) \<le> conc
    \<and> (main_at p = Returning \<longrightarrow> (\<exists>sch pos. set sch \<subseteq> {..<n}
         \<and> run_sched body sch (\<lambda>i. Inl (enter i)) w = Some (pos, world p)
         \<and> length (outcomes p) = n \<and> (\<forall>i < n. pos i = Inr (outcomes p ! i))))
    \<and> (main_at p = Returning \<and> conc = 1 \<longrightarrow>
         run_serial n zero (\<lambda>i. run_body body (enter i)) w = Some (outcomes p, world p))
    \<and> (main_at p = Returning \<and> one_step body \<longrightarrow> (\<exists>ord. distinct ord \<and> set ord = {0..<n}
         \<and> run_order (\<lambda>i. run_body body (enter i)) ord (replicate n zero) w = Some (outcomes p, world p)))"
proof -
  have "holding (workers p) \<le> conc" using pool_inv_reachable[OF assms] by (simp add: pool_inv_def)
  moreover note pool_schedule[OF assms] pool_serialises[OF assms] pool_one_is_serial[of n enter body zero w p]
  ultimately show ?thesis using assms by blast
qed

text \<open>
  Two iterations that each read a shared number and then store its successor. Both run at once,
  both read 0, and one of the two updates is lost: the effects are those of no serial order.
\<close>

definition lab_body :: "(nat option, nat, nat) body" where
  "lab_body b w = (case b of None \<Rightarrow> Some (Inl (Some w), w) | Some v \<Rightarrow> Some (Inr v, Suc v))"

definition lab_run :: "(nat option, nat, nat) pool" where
  "lab_run = \<lparr>next_idx = 2, sem = 0, wg = 0, workers = [Finished, Finished], outcomes = [0, 0], main_at = Returning,
     world = 1\<rparr>"

lemma lab_run_reached: "(pool_step 2 2 (\<lambda>_. None) lab_body)\<^sup>*\<^sup>* (pool_start 2 0 0) lab_run"
  unfolding pool_start_def
  by (rule converse_rtranclp_into_rtranclp, rule pool_step.wg_add, simp, simp, simp,
      rule converse_rtranclp_into_rtranclp, rule pool_step.sem_acquire, simp, simp, simp,
      rule converse_rtranclp_into_rtranclp, rule pool_step.wg_add, simp, simp, simp,
      rule converse_rtranclp_into_rtranclp, rule pool_step.sem_acquire, simp, simp, simp,
      rule converse_rtranclp_into_rtranclp, rule pool_step.run[where i = 0], simp, simp, simp add: lab_body_def, simp,
      rule converse_rtranclp_into_rtranclp, rule pool_step.run[where i = 1], simp, simp, simp add: lab_body_def, simp,
      rule converse_rtranclp_into_rtranclp, rule pool_step.store[where i = 0], simp, simp, simp add: lab_body_def, simp,
      rule converse_rtranclp_into_rtranclp, rule pool_step.store[where i = 1], simp, simp, simp add: lab_body_def, simp,
      rule converse_rtranclp_into_rtranclp, rule pool_step.loop_end, simp, simp, simp,
      rule converse_rtranclp_into_rtranclp, rule pool_step.sem_release[where i = 0], simp, simp, simp,
      rule converse_rtranclp_into_rtranclp, rule pool_step.sem_release[where i = 1], simp, simp, simp,
      rule converse_rtranclp_into_rtranclp, rule pool_step.wg_done[where i = 0], simp, simp, simp,
      rule converse_rtranclp_into_rtranclp, rule pool_step.wg_done[where i = 1], simp, simp, simp,
      rule converse_rtranclp_into_rtranclp, rule pool_step.wg_wait, simp, simp)
    (simp add: lab_run_def numeral_2_eq_2)

theorem parallel_result_witness:
  "\<exists>sch pos. set sch \<subseteq> {..<2} \<and> run_sched lab_body sch (\<lambda>i. Inl None) 0 = Some (pos, 1)
     \<and> pos 0 = Inr 0 \<and> pos 1 = Inr 0"
proof -
  have r: "main_at lab_run = Returning" "world lab_run = 1" "outcomes lab_run = [0, 0]"
    by (simp_all add: lab_run_def)
  have two: "(\<forall>i < 2. P i) \<longleftrightarrow> P 0 \<and> P (1 :: nat)" for P by (auto simp: less_2_cases_iff)
  from parallel_result[OF lab_run_reached] obtain sch pos where
    "set sch \<subseteq> {..<2}" "run_sched lab_body sch (\<lambda>i. Inl None) 0 = Some (pos, 1)"
    "\<forall>i < 2. pos i = Inr ([0, 0] ! i)" unfolding r by blast
  then show ?thesis unfolding two by auto
qed

text \<open>
  C26: With a positive concurrency and iterations whose steps return and are finitely many,
  \<open>RunParallel\<close> never gets stuck before it returns, and every step uses up work, so
  every run ends.
\<close>

theorem parallel_terminates:
  assumes "(pool_step n conc enter body)\<^sup>*\<^sup>* (pool_start n zero w) p" "0 < conc"
    and total: "\<And>b w. body b w \<noteq> None"
    and less: "\<And>b w b' w'. body b w = Some (Inl b', w') \<Longrightarrow> left b' < (left b :: nat)"
  shows "(main_at p \<noteq> Returning \<longrightarrow> (\<exists>p'. pool_step n conc enter body p p'))
     \<and> (\<forall>p'. pool_step n conc enter body p p' \<longrightarrow> pool_work left enter n p' < pool_work left enter n p)"
proof -
  have inv: "pool_inv n conc p" by (rule pool_inv_reachable[OF assms(1)])
  have "pool_work left enter n p' < pool_work left enter n p" if "pool_step n conc enter body p p'" for p'
    by (rule pool_work_decreases[OF _ that inv]) (rule less)
  then show ?thesis using pool_progress[where body = body, OF inv assms(2) _ total] by blast
qed

definition lab_left :: "nat option \<Rightarrow> nat" where
  "lab_left b = (if b = None then 1 else 0)"

definition lab_added :: "(nat option, nat, nat) pool" where
  "lab_added = (pool_start 2 0 0)\<lparr>wg := 1, main_at := Added\<rparr>"

theorem parallel_terminates_witness:
  "(\<exists>p'. pool_step 2 1 (\<lambda>_. None) lab_body (pool_start 2 0 0) p')
   \<and> pool_work lab_left (\<lambda>_. None) 2 lab_added < pool_work lab_left (\<lambda>_. None) 2 (pool_start 2 0 0 :: (nat option, nat, nat) pool)"
proof (rule conjI)
  let ?p = "pool_start 2 0 0 :: (nat option, nat, nat) pool"
  have "lab_body b w \<noteq> None" for b w by (simp add: lab_body_def split: option.split)
  moreover have "lab_left b' < lab_left b" if "lab_body b w = Some (Inl b', w')" for b w b' w'
    using that by (auto simp: lab_body_def lab_left_def split: option.splits)
  ultimately have t: "(main_at ?p \<noteq> Returning \<longrightarrow> (\<exists>p'. pool_step 2 1 (\<lambda>_. None) lab_body ?p p'))
     \<and> (\<forall>p'. pool_step 2 1 (\<lambda>_. None) lab_body ?p p' \<longrightarrow>
          pool_work lab_left (\<lambda>_. None) 2 p' < pool_work lab_left (\<lambda>_. None) 2 ?p)"
    by (intro parallel_terminates[OF rtranclp.rtrancl_refl zero_less_one])
  have "main_at ?p \<noteq> Returning" by (simp add: pool_start_def)
  with t show "\<exists>p'. pool_step 2 1 (\<lambda>_. None) lab_body ?p p'" by (rule conjunct1[THEN mp])
  have "pool_step 2 1 (\<lambda>_. None) lab_body ?p lab_added"
    using pool_step.wg_add[of ?p 2 1 "\<lambda>_. None" lab_body] by (simp add: pool_start_def lab_added_def)
  then show "pool_work lab_left (\<lambda>_. None) 2 lab_added < pool_work lab_left (\<lambda>_. None) 2 ?p"
    by (rule t[THEN conjunct2, THEN spec, THEN mp])
qed

text \<open>
  C27: The summary counts exactly the failed iterations, and its minimum, median, 95th
  percentile and maximum are in this order, as rounded by 64-bit floating point.
\<close>

theorem summary_ordered:
  assumes "\<exists>t \<in> set (sc_times cfg). t \<noteq> err_duration" "length (sc_times cfg) \<le> 2 ^ 52"
  shows "r_errors (summarize cfg) = int (count_list (sc_times cfg) err_duration)
    \<and> r_min_ms (summarize cfg) \<le> r_p50_ms (summarize cfg)
    \<and> r_p50_ms (summarize cfg) \<le> r_p95_ms (summarize cfg)
    \<and> r_p95_ms (summarize cfg) \<le> r_max_ms (summarize cfg)"
  using summarize_order[OF assms] summarize_errors by blast

definition lab_times :: summarize_config where
  "lab_times = \<lparr>sc_transport = ''ssh'', sc_operation = ''fresh-conn'', sc_commands = 1, sc_iterations = 4,
     sc_concurrency = 1, sc_profile = ''local'', sc_rtt_ms = 0, sc_jitter_ms = 0, sc_loss_pct = 0,
     sc_times = [1234567, 7654321, - 1, 3333333],
     sc_counts = \<lparr>ic_trips = [3], ic_reads = [4], ic_writes = [4], ic_cpu_us = [], ic_alloc_bytes = [], ic_allocs = []\<rparr>\<rparr>"

theorem summary_ordered_witness:
  "r_errors (summarize lab_times) = int (count_list (sc_times lab_times) err_duration)
   \<and> r_min_ms (summarize lab_times) \<le> r_p50_ms (summarize lab_times)
   \<and> r_p50_ms (summarize lab_times) \<le> r_p95_ms (summarize lab_times)
   \<and> r_p95_ms (summarize lab_times) \<le> r_max_ms (summarize lab_times)"
  by (rule summary_ordered) (simp_all add: lab_times_def err_duration_def)

text \<open>
  C29: On a status line as the kernel writes it (fields separated by single blanks, numbers
  perhaps negative, perhaps a final newline) the CPU time is read as one number, the digits of
  the user time and of every numeric field after it written one after the other.
\<close>

theorem cpu_time_concatenated:
  assumes "length ws = 11" "\<forall>w \<in> set ws. CHR '' '' \<notin> set w \<and> CHR '')'' \<notin> set w"
    and "\<forall>n \<in> set nums. is_numeral n" "nums \<noteq> []" "tail = [] \<or> tail = [NL]"
  shows "cpu_nanos (Inr (pre @ '') '' @ join '' '' (ws @ nums) @ tail)) =
     wrap64 (wrap64 (digits64 0 (filter is_digit (concat nums))) * tick_ns)"
  using assms by (rule cpu_nanos_concat)

theorem cpu_time_concatenated_witness:
  "cpu_nanos (Inr (''9 (x y'' @ '') '' @ join '' ''
       ([''S'', ''1'', ''9'', ''9'', ''0'', ''-1'', ''4194560'', ''87'', ''0'', ''0'', ''0''] @
        [''5'', ''7'', ''0'', ''0'', ''20'', ''-2'']) @ [NL])) = 57002020000000"
proof -
  let ?nums = "[''5'', ''7'', ''0'', ''0'', ''20'', ''-2'']"
  have "wrap64 (wrap64 (digits64 0 (filter is_digit (concat ?nums))) * tick_ns) = 57002020000000"
    "\<forall>n \<in> set ?nums. is_numeral n"
    by code_simp+
  then show ?thesis by (subst cpu_time_concatenated) simp_all
qed

section \<open>Reports\<close>

text \<open>
  C30: Every result in focus has its row in exactly one group of the report and no other row is
  there; the groups come in the display order, and each of them is non-empty, ranked by median
  latency and holds only operations of its category.
\<close>

theorem report_partition:
  "mset (concat (map grp_rows (rep_groups (build (sort_key row_p50) results focus)))) =
     mset (map row_of (filter (in_focus focus) results))
   \<and> subseq (map grp_category (rep_groups (build (sort_key row_p50) results focus))) category_order
   \<and> (\<forall>g \<in> set (rep_groups (build (sort_key row_p50) results focus)). ranked (grp_rows g) \<and> grp_rows g \<noteq> []
       \<and> (\<forall>row \<in> set (grp_rows g). classify (row_operation row) = grp_category g))"
  using stable.build_partition stable.build_order stable.build_groups by blast

definition lab_result :: bench_result where
  "lab_result = \<lparr>r_transport = ''ssh'', r_operation = ''fresh-conn'', r_commands = 1, r_iterations = 5,
     r_errors = 0, r_concurrency = 1, r_latency = ''local'', r_rtt_ms = 0, r_jitter_ms = 0, r_loss_pct = 0,
     r_round_trips = 12, r_read_ops = 20, r_write_ops = 14, r_packets_in = 0, r_packets_out = 0,
     r_cpu_us = 0, r_alloc_bytes = 0, r_allocs = 0, r_sweep_n = 0, r_setup_ms = 0, r_wall_ms = 0,
     r_ops_per_sec = 0, r_live_heap_mb = 0, r_avg_ms = 3, r_min_ms = 2, r_max_ms = 4, r_p50_ms = 3,
     r_p95_ms = 4, r_stddev_ms = 1\<rparr>"

definition lab_group :: group where
  "lab_group = \<lparr>grp_category = Fresh, grp_rows = [row_of lab_result]\<rparr>"

theorem report_partition_witness:
  "ranked (grp_rows lab_group) \<and> grp_rows lab_group \<noteq> []
   \<and> classify (row_operation (row_of lab_result)) = grp_category lab_group"
proof -
  have "classify (r_operation lab_result) = Fresh" by code_simp
  then have "lab_group \<in> set (rep_groups (build (sort_key row_p50) [lab_result] [(''ssh'', True)]))"
    by (simp add: build_def empty_report_def in_focus_def category_order_def lab_group_def)
      (simp add: lab_result_def)
  note r = bspec[OF conjunct2[OF conjunct2[OF report_partition]] this]
  moreover have "row_of lab_result \<in> set (grp_rows lab_group)" by (simp add: lab_group_def)
  ultimately show ?thesis by blast
qed

section \<open>Benchmark clients\<close>

text \<open>
  C28: Against the terminal session of the SSH server, for any device and however the output is
  cut into reads, the terminal client gets through all its waits without an error and ends the
  session.
\<close>

theorem pty_client_completes:
  "\<exists>l. pty_exec_cmds (link_api dev) (prompt_of dev) n (link_start sizes) = Some (None, l) \<and> pl_line l = None"
  by (rule pty_exec_cmds_link)

section \<open>The SSH drivers\<close>

text \<open>
  C31: Whatever the SSH library and the network do, when the SSH driver or the tunnel driver
  returns, the TCP connections that are open are those that were open before.
\<close>

theorem ssh_closes_connections:
  assumes "counted_ssh lib opened via" "env_keeps opened env"
  shows "(\<forall>rs w'. ssh_bench cf env lib w = Some (rs, w') \<longrightarrow> opened w' = opened w)
    \<and> (\<forall>rs w'. tunnel_bench cf env lib https_addr h3_addr w = Some (rs, w') \<longrightarrow> opened w' = opened w)"
  using counted_ssh.ssh_bench_keeps[OF assms] counted_ssh.tunnel_bench_keeps[OF assms] unfolding keeps_def by blast

definition lab_config :: bench_config where
  "lab_config = \<lparr>cf_addr = ''127.0.0.1:2222'', cf_user = ''admin'', cf_pass = ''pw'', cf_iterations = 2,
     cf_concurrency = 1, cf_commands = 3, cf_profile = ''local'', cf_rtt_ms = 0, cf_jitter_ms = 0, cf_loss_pct = 0,
     cf_hostname = ''rtr'', cf_pkt_counter = True, cf_resource = False\<rparr>"

definition lab_site :: site where
  "lab_site = site_start lab_device 1000 []"

lemma lab_config_for: "config_for lab_device lab_config = lab_config"
  by (simp add: config_for_def lab_config_def lab_device_def)

lemma lab_site_runs:
  "\<exists>rs w'. ssh_bench lab_config (site_env serial_order) (site_lib lab_device) lab_site = Some (rs, w')"
proof -
  have "0 < cf_concurrency lab_config" "site_up lab_device lab_site"
    by (simp_all add: lab_config_def lab_site_def site_start_def site_up_def)
  then show ?thesis
    using site_site.ssh_bench_up[of lab_device lab_site lab_config "cf_addr lab_config"] unfolding lab_config_for by blast
qed

theorem ssh_closes_connections_witness:
  "\<exists>rs w'. ssh_bench lab_config (site_env serial_order) (site_lib lab_device) lab_site = Some (rs, w')
     \<and> site_opened w' = site_opened lab_site"
  using lab_site_runs
    ssh_closes_connections[OF site_conns.counted_ssh_axioms site_env_keeps, of lab_config serial_order lab_device lab_site "[]" "[]"]
  by blast

text \<open>
  C32: Against a device behind the SSH server, with its credentials, the SSH driver returns for
  every positive concurrency, all numbers of iterations and commands and every order in which
  the iterations run: the rows of the five modes in their order, none with a failed iteration,
  and no connection left open.
\<close>

theorem ssh_bench_on_site:
  assumes "0 < cf_concurrency cf"
  shows "\<exists>rs w'. ssh_bench (config_for dev cf) (site_env ord) (site_lib dev) (site_start dev tick []) = Some (rs, w')
     \<and> list_all (\<lambda>r. r_transport r = ''ssh'' \<and> r_errors r = 0) rs
     \<and> map r_operation rs = [''fresh-conn'', ''reuse-conn'', ''batch-exec'', ''pty-fresh'', ''pty-reuse'']
     \<and> site_opened w' = {}"
proof -
  have up: "site_up dev (site_start dev tick [])" "site_opened (site_start dev tick []) = {}"
    by (simp_all add: site_start_def site_up_def site_opened_def)
  have n: "0 < cf_concurrency (config_for dev cf)" using assms by (simp add: config_for_def)
  have c: "clean_row ''ssh'' = (\<lambda>r. r_transport r = ''ssh'' \<and> r_errors r = 0)"
    by (rule ext) (simp add: clean_row_def)
  show ?thesis
    using site_site.ssh_bench_up[OF up(1) refl n, of ord] unfolding c up(2) by (elim exE conjE) (intro exI conjI)
qed

theorem ssh_bench_on_site_witness:
  "\<exists>rs w'. ssh_bench (config_for lab_device (lab_config\<lparr>cf_concurrency := 2\<rparr>)) (site_env (\<lambda>_ n. rev [0..<n]))
       (site_lib lab_device) (site_start lab_device 1000 []) = Some (rs, w')
     \<and> list_all (\<lambda>r. r_transport r = ''ssh'' \<and> r_errors r = 0) rs \<and> site_opened w' = {}"
  using ssh_bench_on_site[where cf = "lab_config\<lparr>cf_concurrency := 2\<rparr>" and ord = "\<lambda>_ n. rev [0..<n]" and dev = lab_device and tick = 1000]
  by fastforce

text \<open>
  C33: Against the modelled site, where a handshake, the opening of a session and an exec
  request are one packet each way, a fresh mode exchanges one packet per iteration and two per
  command after its reset; but the rows of the fresh, reuse and batch modes all show the three
  packets per iteration of the batch mode, however many commands a session has.
\<close>

theorem ssh_packets_late:
  assumes "site_up dev w" "0 < cf_concurrency cf" "cf_pkt_counter cf"
    and "length (ord (cf_concurrency cf) (cf_iterations cf)) = cf_iterations cf"
  shows "(\<exists>tc w1. ssh_fresh_bench (config_for dev cf) (site_env ord) (site_lib dev) (cf_addr cf)
         (exec_shows (site_lib dev) (cf_commands cf)) (pkt_reset (config_for dev cf) (site_env ord) w) = Some (tc, w1)
       \<and> si_pkts w1 = (cf_iterations cf * (1 + 2 * cf_commands cf), cf_iterations cf * (1 + 2 * cf_commands cf)))
    \<and> (\<exists>rs w'. ssh_modes_exec (config_for dev cf) (site_env ord) (site_lib dev) w = Some (rs, w')
       \<and> map (\<lambda>r. (r_operation r, r_packets_in r, r_packets_out r)) rs =
           [(''fresh-conn'', int (3 * cf_iterations cf), int (3 * cf_iterations cf)),
            (''reuse-conn'', int (3 * cf_iterations cf), int (3 * cf_iterations cf)),
            (''batch-exec'', int (3 * cf_iterations cf), int (3 * cf_iterations cf))])"
  using ssh_exec_rows[where dev = dev and cf = cf and ord = ord and w = w] assms by simp

theorem ssh_packets_late_witness:
  "(\<exists>tc w1. ssh_fresh_bench lab_config (site_env serial_order) (site_lib lab_device) (cf_addr lab_config)
         (exec_shows (site_lib lab_device) (cf_commands lab_config)) (pkt_reset lab_config (site_env serial_order) lab_site) = Some (tc, w1)
       \<and> si_pkts w1 = (14, 14))
    \<and> (\<exists>rs w'. ssh_modes_exec lab_config (site_env serial_order) (site_lib lab_device) lab_site = Some (rs, w')
       \<and> map (\<lambda>r. (r_operation r, r_packets_in r, r_packets_out r)) rs = [(''fresh-conn'', 6, 6), (''reuse-conn'', 6, 6), (''batch-exec'', 6, 6)])"
proof -
  have "site_up lab_device lab_site" by (simp add: lab_site_def site_start_def site_up_def)
  moreover have "length (serial_order (cf_concurrency lab_config) (cf_iterations lab_config)) = cf_iterations lab_config"
    "0 < cf_concurrency lab_config" "cf_pkt_counter lab_config"
    by (simp_all add: lab_config_def serial_order_def)
  ultimately show ?thesis
    using ssh_packets_late[where dev = lab_device and w = lab_site and cf = lab_config and ord = serial_order]
    unfolding lab_config_for by (simp add: lab_config_def)
qed

section \<open>Sweeps\<close>

text \<open>
  C34: Whatever the server does, when a sweep over SSH or NETCONF returns, the connections that
  are open are those that were open before, and there is one row for each level of at least one
  connection.
\<close>

theorem sweep_closes_connections:
  assumes "counted_netconf lib opened via" "env_keeps opened (bench_env.truncate senv)"
    and "\<And>v. opened (se_gc senv v) = opened v" "\<And>k. \<forall>i \<in> set (sched k). i < k"
    and op: "op = open_ssh (ssh_lib.truncate lib) \<or> op = open_netconf lib"
    and run: "sweep_levels tr cf levels op senv sched w = Some (rs, w')"
  shows "opened w' = opened w \<and> map r_sweep_n rs = filter (\<lambda>n. 1 \<le> n) levels \<and> list_all (\<lambda>r. r_transport r = tr) rs"
proof -
  have "held_open op cf opened"
    using op counted_netconf.open_netconf_holds[OF assms(1)]
      counted_ssh.open_ssh_holds[OF counted_netconf.axioms(1)[OF assms(1)]] by blast
  from held_open.sweep_levels_keeps[OF this assms(2-4) run] show ?thesis using sweep_levels_rows[OF run] by blast
qed

definition lab_um :: unmarshal where
  "lab_um inp = (\<lparr>message_id = [], rpc_inner = []\<rparr>, Some ''EOF'')"

theorem sweep_closes_connections_witness:
  "\<exists>rs w'. sweep_levels ''ssh'' lab_config [1, 0, 2] (open_ssh (site_lib lab_device)) site_sweep_env (\<lambda>k. [0..<k]) lab_site = Some (rs, w')
     \<and> site_opened w' = site_opened lab_site \<and> map r_sweep_n rs = [1, 2]"
proof -
  have up: "site_up lab_device lab_site" by (simp add: lab_site_def site_start_def site_up_def)
  obtain rs w' where r: "sweep_levels ''ssh'' lab_config [1, 0, 2] (open_ssh (site_lib lab_device)) site_sweep_env
      (\<lambda>k. [0..<k]) lab_site = Some (rs, w')"
    using ssh_sweep_on_site[OF up, of "\<lambda>k. [0..<k]" lab_config "[1, 0, 2]"] by (auto simp: lab_config_for)
  have "open_ssh (site_lib lab_device) = open_ssh (ssh_lib.truncate (nc_site_lib lab_um lab_device))"
    by (simp only: nc_site_lib_truncate)
  note c = sweep_closes_connections[OF nc_site_conns.counted_netconf_axioms, where senv = site_sweep_env, OF _ _ _ disjI1[OF this] r]
  have "site_opened w' = site_opened lab_site \<and> map r_sweep_n rs = filter (\<lambda>n. 1 \<le> n) [1, 0, 2]
      \<and> list_all (\<lambda>r. r_transport r = ''ssh'') rs"
    by (rule c) (simp_all add: site_env_keeps)
  then show ?thesis using r by simp
qed

text \<open>
  C35: Against a device behind the SSH server, with its credentials, a sweep over SSH returns
  for every list of levels, every connection of every level runs its commands without an error,
  and no connection is left open.
\<close>

theorem sweep_on_site:
  "\<exists>rs w'. sweep_levels ''ssh'' (config_for dev cf) levels (open_ssh (site_lib dev)) site_sweep_env (\<lambda>k. [0..<k])
       (site_start dev tick []) = Some (rs, w')
     \<and> list_all (\<lambda>r. r_errors r = 0 \<and> r_iterations r = r_sweep_n r) rs
     \<and> map r_sweep_n rs = filter (\<lambda>n. 1 \<le> n) levels \<and> site_opened w' = {}"
  using ssh_sweep_on_site[of dev "site_start dev tick []" "\<lambda>k. [0..<k]" cf levels]
  by (simp add: site_start_def site_up_def site_opened_def)

section \<open>The command\<close>

definition lab_cmd :: bench_cmd where
  "lab_cmd = \<lparr>bc_transport = [''ssh''], bc_iterations = 2, bc_concurrency = 1, bc_sweep = [], bc_commands = 3,
     bc_latency = ''regional'', bc_jitter = 0, bc_loss = 0, bc_userspace = False, bc_resource = False, bc_output = ''csv'',
     bc_ssh_port = 2222, bc_https_port = 8443, bc_http3_port = 8444, bc_gnmi_port = 9339, bc_netconf_port = 2830,
     bc_restconf_port = 8445, bc_proxy_port = 9443, bc_headend_https_port = 2223, bc_headend_h3_port = 2224,
     bc_user = ''admin'', bc_pass = ''pw'', bc_hostname = ''rtr'', bc_transcripts = ''transcripts''\<rparr>"

text \<open>A world that is its clock, in which every server accepts connections from a given time on.\<close>

definition lab_net :: "int \<Rightarrow> (unit, int) cmd_env" where
  "lab_net T = \<lparr>be_now = (\<lambda>w. (w, w)), be_usage = (\<lambda>w. ((Inl ''no such file'', 0, 0, 0), w)), be_pkt_reset = (\<lambda>w. w),
     be_pkt_snapshot = (\<lambda>w. (0, 0)), be_sleep = (\<lambda>d w. w + d), be_order = serial_order, ce_listen = (\<lambda>addr w. (Inr (), w)),
     ce_close_ln = (\<lambda>l w. w), ce_new = (\<lambda>srv w. (None, w)), ce_serve = (\<lambda>srv addr l w. w),
     ce_dial = (\<lambda>addr d w. if T \<le> w then (Inr 0, w) else (Inl ''connection refused'', w)), ce_hang_up = (\<lambda>c w. w)\<rparr>"

lemma lab_net_clock: "clock_runs (\<lambda>w. w) 0 (lab_net T)"
  by (auto simp: clock_runs_def lab_net_def)

text \<open>
  C36: If the clock runs, waiting for a server ends for every network; if it gives up, the
  deadline has passed. If the server accepts connections from some moment on that is early
  enough, the wait ends with success.
\<close>

theorem wait_ready_works:
  assumes "clock_runs clock lag env"
  shows "(\<exists>err w'. wait_ready env addr timeout w = Some (err, w') \<and> (err = None \<or> clock w + timeout \<le> clock w'))
    \<and> ((\<forall>v. T \<le> clock v \<longrightarrow> (\<exists>c v'. ce_dial env addr (1000 * millisecond) v = (Inr c, v')))
         \<and> T + 1050 * millisecond + 2 * lag \<le> clock w + timeout \<and> lag < timeout
       \<longrightarrow> (\<exists>w'. wait_ready env addr timeout w = Some (None, w')))"
  using wait_ready_returns[OF assms] wait_ready_finds[OF assms] by blast

theorem wait_ready_works_witness:
  "\<exists>w'. wait_ready (lab_net (200 * millisecond)) ''localhost:2222'' (10000 * millisecond) 0 = Some (None, w')"
proof -
  let ?net = "lab_net (200 * millisecond)"
  have "\<forall>v. 200 * millisecond \<le> v \<longrightarrow> (\<exists>c v'. ce_dial ?net ''localhost:2222'' (1000 * millisecond) v = (Inr c, v'))"
    by (simp add: lab_net_def)
  moreover have "200 * millisecond + 1050 * millisecond + 2 * 0 \<le> 0 + 10000 * millisecond" "0 < 10000 * millisecond"
    by (simp_all add: millisecond_def)
  ultimately show ?thesis
    using wait_ready_works[OF lab_net_clock, of "200 * millisecond" "''localhost:2222''" "10000 * millisecond" 0 "200 * millisecond"]
    by blast
qed

text \<open>
  C37: Wherever a run of the command ends, with or without an error, no queue and no filter it
  installed is left in the kernel, provided the deletion the run ends with, if it ends with one,
  succeeds; the deletion before the set-up may fail.
\<close>

theorem run_restores_network:
  assumes "bench_run env dr fails inp b w = Some (r, st, w')" "last_deletion_works fails st"
  shows "installed fails 0 [] st = []"
  using assms by (rule run_restores_kernel)

definition lab_input :: run_input where
  "lab_input = \<lparr>ri_sock_err = None, ri_bind_err = None, ri_listing = Inl ''no such directory'', ri_json = (\<lambda>rs. Inr [])\<rparr>"

definition lab_addrs :: cmd_addrs where
  "lab_addrs = projr (build_env lab_cmd)"

lemma lab_addrs_built: "build_env lab_cmd = Inr lab_addrs"
  by (simp add: lab_addrs_def build_env_def lab_cmd_def latency_profiles_def)

lemma lab_shaped: "shaped lab_cmd lab_addrs"
  by (simp add: shaped_def lab_addrs_def build_env_def lab_cmd_def latency_profiles_def millisecond_def)

text \<open>A kernel without queues, where the deletion before the set-up fails.\<close>

definition lab_kernel :: "nat \<Rightarrow> string option" where
  "lab_kernel k = (if k = 0 then Some ''invalid argument'' else None)"

lemma lab_setup: "\<exists>st. setup_latency lab_kernel lab_cmd lab_addrs = (None, st) \<and> st \<noteq> []"
proof -
  let ?f = lab_kernel and ?c = "netem_for lab_cmd lab_addrs"
  have nl: "st \<noteq> [] \<Longrightarrow> nl ?f call st = (None, st @ [call])" for call st by (simp add: nl_def lab_kernel_def)
  have "st \<noteq> [] \<Longrightarrow> \<exists>st'. add_port_filters ?f ports band st = (None, st') \<and> st' \<noteq> []" for ports band st
    by (induction ports arbitrary: st) (simp_all add: add_port_filter_def add_u32_filter_def nl)
  then have band: "st \<noteq> [] \<Longrightarrow>
      \<exists>st'. (if on then add_netem_band ?f band dly jit loss ports st else (None, st)) = (None, st') \<and> st' \<noteq> []"
    for on band dly jit loss ports st
    by (simp add: add_netem_band_def nl)
  let ?s1 = "teardown ?f [] @ [AddPrio 4]"
  have t: "teardown ?f [] \<noteq> []" by (simp add: teardown_def nl_def)
  obtain s2 where 2: "(if wan_delay ?c > 0 then add_netem_band ?f 2 (wan_delay ?c) (ne_jitter ?c) (ne_loss ?c) (wan_ports ?c) ?s1
      else (None, ?s1)) = (None, s2)" "s2 \<noteq> []" using band by blast
  obtain s3 where 3: "(if campus_delay ?c > 0 then add_netem_band ?f 3 (campus_delay ?c) 0 0 (campus_ports ?c) s2
      else (None, s2)) = (None, s3)" "s3 \<noteq> []" using band[OF 2(2)] by blast
  have "netem_setup ?f ?c [] = (None, s3)"
    unfolding netem_setup_def Let_def nl[OF t] prod.case option.case 2(1) 3(1) ..
  then show ?thesis using 3(2) by (simp add: setup_latency_def lab_shaped)
qed

theorem run_restores_network_witness:
  "\<forall>dr. \<exists>r st w'. bench_run (lab_net 0) dr lab_kernel lab_input lab_cmd 0 = Some (r, st, w') \<and> st \<noteq> [] \<and> installed lab_kernel 0 [] st = []"
proof
  fix dr :: "int drivers"
  obtain st0 where s: "setup_latency lab_kernel lab_cmd lab_addrs = (None, st0)" "st0 \<noteq> []" using lab_setup by blast
  let ?st = "teardown lab_kernel st0"
  obtain e where "run_device (lab_net 0) dr lab_input lab_cmd lab_addrs 0 = Some ((Some e, []), 0)"
    by (simp add: run_device_def lab_input_def new_device_def load_transcripts_def)
  then have r: "bench_run (lab_net 0) dr lab_kernel lab_input lab_cmd 0 = Some ((Some e, []), ?st, 0)"
    by (simp add: bench_run_def lab_addrs_built s(1) lab_shaped)
  have "last_deletion_works lab_kernel ?st" using s(2) by (simp add: last_deletion_works_def lab_kernel_def teardown_def nl_def)
  from run_restores_network[OF r this] show "\<exists>r st w'. bench_run (lab_net 0) dr lab_kernel lab_input lab_cmd 0 = Some (r, st, w')
      \<and> st \<noteq> [] \<and> installed lab_kernel 0 [] st = []"
    using r by (auto simp: teardown_def nl_def)
qed






text \<open>
  C40: A CSV reader gets back from both CSV outputs the names of the columns and one row for
  each result, in order; the cell in a column stands for the field of the result whose JSON tag
  is the name of the column (in a sweep, \<open>concurrency\<close> is the sweep level): strings
  whatever they hold, integers, and floats to within half a unit of the last decimal printed.
\<close>

theorem csv_roundtrip:
  "(let names = [''transport'', ''operation'', ''commands'', ''iterations'', ''errors'', ''concurrency'', ''latency_profile'',
        ''simulated_rtt_ms'', ''round_trips'', ''read_ops'', ''write_ops'', ''packets_in'', ''packets_out'', ''cpu_us'',
        ''alloc_bytes'', ''allocs'', ''avg_ms'', ''min_ms'', ''p50_ms'', ''p95_ms'', ''max_ms'', ''stddev_ms'']
    in \<exists>rows. csv_read (write_csv rs) = Some (names # rows) \<and> list_all2 (row_shows id names) rs rows)
   \<and> (let names = [''transport'', ''concurrency'', ''commands'', ''errors'', ''latency_profile'', ''simulated_rtt_ms'',
        ''setup_ms'', ''wall_ms'', ''p50_ms'', ''p95_ms'', ''ops_per_sec'', ''live_heap_mb'']
    in \<exists>rows. csv_read (write_sweep_csv rs) = Some (names # rows) \<and> list_all2 (row_shows sweep_tag names) rs rows)"
  unfolding Let_def using write_csv_reads[unfolded csv_header_def] write_sweep_csv_reads[unfolded sweep_csv_header_def] by blast

end
